(* ===== verification/Prelude.thy ===== *)
theory Prelude
  imports Main "HOL-Library.Word"
begin

section \<open>Shared prelude\<close>

text \<open>
  Machine integers, the outcome type of kernel code, the weakest-precondition calculus
  used to reason about it, and the facts on lists, table scans and little-endian byte
  layouts that several components share.
\<close>

unbundle bit_operations_syntax

subsection \<open>Machine integers (types.h)\<close>

type_synonym u8 = "8 word"
type_synonym u16 = "16 word"
type_synonym u32 = "32 word"
type_synonym u64 = "64 word"
type_synonym addr_t = "64 word"

lemma unat_add_small: "unat x + unat y < 2 ^ 64 \<Longrightarrow> unat (x + y :: u64) = unat x + unat y"
  by (rule iffD1 [OF unat_add_lem]) simp

lemma unat_of_nat_small: "n < 2 ^ 64 \<Longrightarrow> unat (of_nat n :: u64) = n"
  by (simp add: unat_of_nat)

lemma unat_sub_small: "unat y \<le> unat x \<Longrightarrow> unat (x - y :: u64) = unat x - unat y"
  by (simp add: unat_sub word_le_nat_alt)

lemma unat_lt_64: "unat (x :: u64) < 2 ^ 64"
  using unsigned_less [of x, where 'a = nat] by simp

subsection \<open>Sleep channels\<close>

text \<open>
  The kernel sleeps on the addresses of objects. Distinct objects have distinct addresses,
  so a channel is the object it is the address of.
\<close>

datatype chan =
    ProcChan nat
  | TicksChan
  | LogChan
  | BufChan nat
  | BufLockChan nat
  | InodeLockChan nat
  | PipeReadChan addr_t
  | PipeWriteChan addr_t
  | InputChan

subsection \<open>Outcomes of kernel code\<close>

text \<open>
  A kernel routine that is run to the point where it gives control back either returns a
  value, calls \<open>panic\<close> (which never returns), goes to sleep on a channel with the state
  it leaves behind, ends its process and leaves the CPU to the scheduler, or has no defined continuation (a loop that does not end, or an access
  outside an object).
\<close>

datatype ('a, 's) result =
    Ok 'a 's
  | Panic string
  | Sleeps chan 's
  | Exits 's
  | Stuck

fun bindR :: "('a, 's) result \<Rightarrow> ('a \<Rightarrow> 's \<Rightarrow> ('b, 's) result) \<Rightarrow> ('b, 's) result" where
  "bindR (Ok a s) k = k a s"
| "bindR (Panic m) k = Panic m"
| "bindR (Sleeps c s) k = Sleeps c s"
| "bindR (Exits s) k = Exits s"
| "bindR Stuck k = Stuck"

lemma bindR_assoc:
  "bindR (bindR m f) g = bindR m (\<lambda>a s. bindR (f a s) g)"
  by (cases m) auto

lemma bindR_eq_Ok:
  "bindR m k = Ok b t \<longleftrightarrow> (\<exists>a s. m = Ok a s \<and> k a s = Ok b t)"
  by (cases m) auto

lemma bindR_cong [fundef_cong]:
  assumes "m = m'" and "\<And>a s. m' = Ok a s \<Longrightarrow> k a s = k' a s"
  shows "bindR m k = bindR m' k'"
  using assms by (cases m') auto

text \<open>Total-correctness weakest precondition: the run returns and the result satisfies \<open>Q\<close>.\<close>

definition wp :: "('a, 's) result \<Rightarrow> ('a \<Rightarrow> 's \<Rightarrow> bool) \<Rightarrow> bool" where
  "wp m Q \<longleftrightarrow> (case m of Ok a s \<Rightarrow> Q a s | _ \<Rightarrow> False)"

lemma wp_simps [simp]:
  "wp (Ok a s) Q = Q a s"
  "wp (Panic msg) Q = False"
  "wp (Sleeps c s) Q = False"
  "wp (Exits s) Q = False"
  "wp Stuck Q = False"
  by (simp_all add: wp_def)

lemma wp_bind [simp]: "wp (bindR m k) Q = wp m (\<lambda>a s. wp (k a s) Q)"
  by (cases m) simp_all

lemma wp_if [simp]: "wp (if c then m1 else m2) Q = (if c then wp m1 Q else wp m2 Q)"
  by simp

lemma wp_mono: "wp m Q \<Longrightarrow> (\<And>a s. Q a s \<Longrightarrow> R a s) \<Longrightarrow> wp m R"
  by (cases m) simp_all

lemma wp_conj: "wp m Q \<Longrightarrow> wp m R \<Longrightarrow> wp m (\<lambda>a s. Q a s \<and> R a s)"
  by (cases m) simp_all

lemma wpE:
  assumes "wp m Q"
  obtains a s where "m = Ok a s" and "Q a s"
  using assms by (cases m) auto

lemma wpI: "m = Ok a s \<Longrightarrow> Q a s \<Longrightarrow> wp m Q"
  by simp

lemma wp_eq_Ok: "wp m Q \<Longrightarrow> m = Ok a s \<Longrightarrow> Q a s"
  by simp

text \<open>
  Partial-correctness framing: whenever \<open>m\<close>, run from a state reached from \<open>s\<close>, returns, its state is
  \<open>R\<close>-related to \<open>s\<close>.
\<close>

definition keeps :: "('s \<Rightarrow> 's \<Rightarrow> bool) \<Rightarrow> 's \<Rightarrow> ('a, 's) result \<Rightarrow> bool" where
  "keeps R s m \<longleftrightarrow> (\<forall>a t. m = Ok a t \<longrightarrow> R s t)"

lemma keeps_simps [simp]:
  "keeps R s (Ok a t) = R s t" "keeps R s (Panic msg)" "keeps R s (Sleeps c t)" "keeps R s (Exits t)" "keeps R s Stuck"
  by (simp_all add: keeps_def)

lemma keepsD: "keeps R s m \<Longrightarrow> m = Ok a t \<Longrightarrow> R s t"
  by (simp add: keeps_def)

lemma keepsI: "(\<And>a t. m = Ok a t \<Longrightarrow> R s t) \<Longrightarrow> keeps R s m"
  by (simp add: keeps_def)

lemma keeps_bind: "keeps R s m \<Longrightarrow> (\<And>a t. R s t \<Longrightarrow> keeps R s (k a t)) \<Longrightarrow> keeps R s (bindR m k)"
  by (cases m) simp_all

lemma keeps_if: "(c \<Longrightarrow> keeps R s m) \<Longrightarrow> (\<not> c \<Longrightarrow> keeps R s m') \<Longrightarrow> keeps R s (if c then m else m')"
  by simp

lemma keeps_option:
  "(x = None \<Longrightarrow> keeps R s m) \<Longrightarrow> (\<And>y. x = Some y \<Longrightarrow> keeps R s (m' y)) \<Longrightarrow>
   keeps R s (case x of None \<Rightarrow> m | Some y \<Rightarrow> m' y)"
  by (cases x) simp_all

lemmas keeps_intros = keeps_bind keeps_if keeps_option

text \<open>A counted loop: \<open>for(i = 0; i < n; i++) f(i)\<close> is \<open>for_each f [0..<n]\<close>.\<close>

fun for_each :: "('i \<Rightarrow> 's \<Rightarrow> (unit, 's) result) \<Rightarrow> 'i list \<Rightarrow> 's \<Rightarrow> (unit, 's) result" where
  "for_each f [] s = Ok () s"
| "for_each f (i # is) s = bindR (f i s) (\<lambda>_ s. for_each f is s)"

lemma for_each_append: "for_each f (xs @ ys) s = bindR (for_each f xs s) (\<lambda>_ t. for_each f ys t)"
proof (induction xs arbitrary: s)
  case (Cons x xs)
  then show ?case by (cases "f x s") simp_all
qed simp

lemma keeps_for_each:
  "(\<And>i t. R s t \<Longrightarrow> keeps R s (f i t)) \<Longrightarrow> R s t \<Longrightarrow> keeps R s (for_each f is t)"
  by (induction "is" arbitrary: t) (auto intro: keeps_bind)

lemma wp_for_upt:
  assumes "\<And>i s. i < n \<Longrightarrow> I i s \<Longrightarrow> wp (f i s) (\<lambda>_ t. I (Suc i) t)" and "I 0 s"
  shows "wp (for_each f [0..<n] s) (\<lambda>_ t. I n t)"
  using assms(1)
proof (induction n)
  case 0
  then show ?case using assms(2) by simp
next
  case (Suc n)
  have "wp (for_each f [0..<n] s) (\<lambda>_ t. I n t)" using Suc by simp
  then show ?case
    unfolding upt_Suc_append [OF le0] for_each_append wp_bind
    by (rule wp_mono) (use Suc.prems in \<open>auto elim: wp_mono\<close>)
qed

subsection \<open>Named collections\<close>

named_theorems flagbits \<open>bit tests and masks on flag words\<close>
named_theorems codec \<open>round trips of byte encodings\<close>
named_theorems frame \<open>fields a routine leaves alone\<close>

subsection \<open>Table scans\<close>

text \<open>
  The kernel finds a free slot by walking a table from its first entry:
  \<open>for(p = tab; p < &tab[N]; p++) if(free(p)) ...\<close>.
\<close>

definition first_slot :: "nat \<Rightarrow> (nat \<Rightarrow> bool) \<Rightarrow> nat option" where
  "first_slot n P = find P [0..<n]"

lemma first_slot_Some:
  "first_slot n P = Some i \<longleftrightarrow> i < n \<and> P i \<and> (\<forall>j<i. \<not> P j)"
proof
  assume "first_slot n P = Some i"
  then have "\<exists>k<length [0..<n]. P ([0..<n] ! k) \<and> i = [0..<n] ! k \<and> (\<forall>j<k. \<not> P ([0..<n] ! j))"
    by (simp only: first_slot_def find_Some_iff)
  then show "i < n \<and> P i \<and> (\<forall>j<i. \<not> P j)" by auto
next
  assume R: "i < n \<and> P i \<and> (\<forall>j<i. \<not> P j)"
  have "\<exists>k<length [0..<n]. P ([0..<n] ! k) \<and> i = [0..<n] ! k \<and> (\<forall>j<k. \<not> P ([0..<n] ! j))"
    by (rule exI [of _ i]) (use R in auto)
  then show "first_slot n P = Some i"
    by (simp only: first_slot_def find_Some_iff)
qed

lemma first_slot_None: "first_slot n P = None \<longleftrightarrow> (\<forall>i<n. \<not> P i)"
  by (auto simp: first_slot_def find_None_iff)

lemma first_slot_exists: "i < n \<Longrightarrow> P i \<Longrightarrow> \<exists>j. first_slot n P = Some j"
  using first_slot_None [of n P] by (cases "first_slot n P") auto

lemma first_slot_cong:
  "(\<And>i. i < n \<Longrightarrow> P i = Q i) \<Longrightarrow> first_slot n P = first_slot n Q"
  unfolding first_slot_def by (rule find_cong) auto

subsection \<open>Byte ranges of an array\<close>

definition slice :: "nat \<Rightarrow> nat \<Rightarrow> 'a list \<Rightarrow> 'a list" where
  "slice off n xs = take n (drop off xs)"

definition splice_at :: "nat \<Rightarrow> 'a list \<Rightarrow> 'a list \<Rightarrow> 'a list" where
  "splice_at off ys xs = take off xs @ ys @ drop (off + length ys) xs"

lemma length_slice [simp]: "off + n \<le> length xs \<Longrightarrow> length (slice off n xs) = n"
  by (simp add: slice_def)

lemma length_splice_at [simp]:
  "off + length ys \<le> length xs \<Longrightarrow> length (splice_at off ys xs) = length xs"
  by (simp add: splice_at_def)

lemma nth_slice: "i < n \<Longrightarrow> off + n \<le> length xs \<Longrightarrow> slice off n xs ! i = xs ! (off + i)"
  by (simp add: slice_def)

lemma nth_splice_at:
  "off + length ys \<le> length xs \<Longrightarrow> i < length xs \<Longrightarrow>
     splice_at off ys xs ! i = (if off \<le> i \<and> i < off + length ys then ys ! (i - off) else xs ! i)"
  by (auto simp: splice_at_def nth_append min_def)

lemma slice_splice_same [simp]:
  "off + length ys \<le> length xs \<Longrightarrow> n = length ys \<Longrightarrow> slice off n (splice_at off ys xs) = ys"
  by (simp add: slice_def splice_at_def)

lemma slice_splice_disjoint:
  assumes "off + length ys \<le> length xs" and "off' + n \<le> length xs"
    and "off' + n \<le> off \<or> off + length ys \<le> off'"
  shows "slice off' n (splice_at off ys xs) = slice off' n xs"
  by (rule nth_equalityI) (use assms in \<open>auto simp: nth_slice nth_splice_at\<close>)

lemma slice_all [simp]: "n = length xs \<Longrightarrow> slice 0 n xs = xs"
  by (simp add: slice_def)

lemma splice_at_all: "length ys = length xs \<Longrightarrow> splice_at 0 ys xs = ys"
  by (simp add: splice_at_def)

lemma splice_at_slice_id: "off + n \<le> length xs \<Longrightarrow> splice_at off (slice off n xs) xs = xs"
  by (simp add: splice_at_def slice_def add.commute flip: drop_drop)

subsection \<open>Little-endian layout of integers\<close>

definition enc16 :: "u16 \<Rightarrow> u8 list" where
  "enc16 w = [ucast w, ucast (drop_bit 8 w)]"

definition dec16 :: "u8 list \<Rightarrow> u16" where
  "dec16 bs = ucast (bs ! 0) OR push_bit 8 (ucast (bs ! 1))"

definition enc32 :: "u32 \<Rightarrow> u8 list" where
  "enc32 w = [ucast w, ucast (drop_bit 8 w), ucast (drop_bit 16 w), ucast (drop_bit 24 w)]"

definition dec32 :: "u8 list \<Rightarrow> u32" where
  "dec32 bs = ucast (bs ! 0) OR push_bit 8 (ucast (bs ! 1))
     OR push_bit 16 (ucast (bs ! 2)) OR push_bit 24 (ucast (bs ! 3))"

lemma length_enc16 [simp]: "length (enc16 w) = 2"
  by (simp add: enc16_def)

lemma length_enc32 [simp]: "length (enc32 w) = 4"
  by (simp add: enc32_def)

lemma dec_enc16 [simp, codec]: "dec16 (enc16 w) = w"
  by (rule bit_word_eqI) (auto simp: dec16_def enc16_def bit_simps)

lemma dec_enc32 [simp, codec]: "dec32 (enc32 w) = w"
proof (rule bit_word_eqI)
  fix n
  assume "n < LENGTH(32)"
  then show "bit (dec32 (enc32 w)) n \<longleftrightarrow> bit w n"
    by (cases "n < 8"; cases "n < 16"; cases "n < 24")
      (auto simp: dec32_def enc32_def bit_simps)
qed

end
