(* ===== verification/Params.thy ===== *)
theory Params
  imports Prelude
begin

section \<open>System parameters\<close>

text \<open>
  The constants of param.h, fs.h, mmu.h, memlayout.h, stat.h and fcntl.h that the other
  theories use. Sizes of tables and blocks are natural numbers, flag words and addresses
  keep their machine width.
\<close>

subsection \<open>Table sizes (param.h)\<close>

definition NPROC :: nat where [simp]: "NPROC = 64"
definition KSTACKSIZE :: u64 where [simp]: "KSTACKSIZE = 4096"
definition NCPU :: nat where [simp]: "NCPU = 8"
definition NOFILE :: nat where [simp]: "NOFILE = 16"
definition NFILE :: nat where [simp]: "NFILE = 100"
definition NINODE :: nat where [simp]: "NINODE = 50"
definition NDEV :: nat where [simp]: "NDEV = 10"
definition ROOTDEV :: nat where [simp]: "ROOTDEV = 1"
definition MAXARG :: nat where [simp]: "MAXARG = 32"
definition MAXOPBLOCKS :: nat where [simp]: "MAXOPBLOCKS = 10"
definition LOGSIZE :: nat where [simp]: "LOGSIZE = MAXOPBLOCKS * 3"
definition NBUF :: nat where [simp]: "NBUF = MAXOPBLOCKS * 3"
definition FSSIZE :: nat where [simp]: "FSSIZE = 1000"

subsection \<open>On-disk layout (fs.h)\<close>

definition ROOTINO :: nat where [simp]: "ROOTINO = 1"
definition BSIZE :: nat where [simp]: "BSIZE = 512"
definition NDIRECT :: nat where [simp]: "NDIRECT = 12"
definition NINDIRECT :: nat where [simp]: "NINDIRECT = BSIZE div 4"
definition MAXFILE :: nat where [simp]: "MAXFILE = NDIRECT + NINDIRECT"
definition DINODE_SIZE :: nat where [simp]: "DINODE_SIZE = 64"
definition IPB :: nat where [simp]: "IPB = BSIZE div DINODE_SIZE"
definition BPB :: nat where [simp]: "BPB = BSIZE * 8"
definition DIRSIZ :: nat where [simp]: "DIRSIZ = 14"
definition DIRENT_SIZE :: nat where [simp]: "DIRENT_SIZE = 2 + DIRSIZ"

subsection \<open>File types and open modes (stat.h, fcntl.h)\<close>

definition T_DIR :: u16 where [simp]: "T_DIR = 1"
definition T_FILE :: u16 where [simp]: "T_FILE = 2"
definition T_DEV :: u16 where [simp]: "T_DEV = 3"

definition O_RDONLY :: u32 where [simp]: "O_RDONLY = 0x000"
definition O_WRONLY :: u32 where [simp]: "O_WRONLY = 0x001"
definition O_RDWR :: u32 where [simp]: "O_RDWR = 0x002"
definition O_CREATE :: u32 where [simp]: "O_CREATE = 0x200"

subsection \<open>Memory layout (memlayout.h, mmu.h)\<close>

definition EXTMEM :: u64 where [simp]: "EXTMEM = 0x100000"
definition PHYSTOP :: u64 where [simp]: "PHYSTOP = 0xE000000"
definition KERNBASE :: u64 where [simp]: "KERNBASE = 0xFFFF800000000000"
definition PGSIZE :: u64 where [simp]: "PGSIZE = 4096"

definition V2P :: "u64 \<Rightarrow> u64" where
  "V2P a = a - KERNBASE"

definition P2V :: "u64 \<Rightarrow> u64" where
  "P2V a = a + KERNBASE"

definition PGROUNDUP :: "u64 \<Rightarrow> u64" where
  "PGROUNDUP sz = (sz + (PGSIZE - 1)) AND NOT (PGSIZE - 1)"

definition PGROUNDDOWN :: "u64 \<Rightarrow> u64" where
  "PGROUNDDOWN a = a AND NOT (PGSIZE - 1)"

lemma V2P_P2V [simp]: "V2P (P2V a) = a"
  by (simp add: V2P_def P2V_def)

lemma P2V_V2P [simp]: "P2V (V2P a) = a"
  by (simp add: V2P_def P2V_def)

subsection \<open>Rounding to pages\<close>

lemma page_down_eq: "(a :: addr_t) AND - 4096 = a div 4096 * 4096"
proof -
  have "a AND NOT (mask 12) = push_bit 12 (drop_bit 12 a)"
    by (rule bit_word_eqI) (auto simp: bit_simps)
  moreover have "(- 4096 :: addr_t) = NOT (mask 12)" by (simp add: mask_eq_exp_minus_1)
  moreover have "push_bit 12 (drop_bit 12 a) = a div 4096 * 4096"
    by (simp add: push_bit_eq_mult drop_bit_eq_div)
  ultimately show ?thesis by metis
qed

lemma unat_page_down: "unat (a AND - 4096 :: addr_t) = unat a div 4096 * 4096"
proof -
  have "unat a div 4096 * 4096 \<le> unat a" by simp
  then have lt: "unat a div 4096 * 4096 < 2 ^ 64"
    using unsigned_less [of a, where 'a = nat] by (simp only: len_num1 len_bit0) simp
  have "unat (a AND - 4096 :: addr_t) = unat (a div 4096) * 4096 mod 2 ^ 64"
    unfolding page_down_eq by (simp add: unat_word_ariths)
  also have "\<dots> = unat a div 4096 * 4096"
    using lt by (simp only: unat_div_distrib unat_numeral) simp
  finally show ?thesis .
qed

lemma unat_PGROUNDDOWN: "unat (PGROUNDDOWN a) = unat a div 4096 * 4096"
  using unat_page_down [of a] by (simp add: PGROUNDDOWN_def)

lemma unat_PGROUNDUP:
  assumes "unat a + 4095 < 2 ^ 64"
  shows "unat (PGROUNDUP a) = (unat a + 4095) div 4096 * 4096"
proof -
  have "unat (a + 4095) = unat a + 4095"
    using assms by (simp add: unat_add_lem [THEN iffD1])
  then show ?thesis
    using unat_page_down [of "a + 4095"] by (simp add: PGROUNDUP_def)
qed

end
