(* ===== verification/Strings.thy ===== *)
theory Strings
  imports Params
begin

section \<open>Memory and string routines (string.c, ulib.c)\<close>

text \<open>
  Memory is a function from 64-bit addresses to bytes; addresses wrap as pointers do. The
  block routines walk memory one byte at a time, as the loops of string.c do. A pointer that
  is only read through is given as its reader: \<open>p i\<close> is the byte \<open>p[i]\<close>, and advancing the
  pointer drops the first byte.
\<close>

type_synonym memory = "addr_t \<Rightarrow> u8"
type_synonym reader = "nat \<Rightarrow> u8"

definition adv :: "reader \<Rightarrow> reader" where
  "adv p = (\<lambda>i. p (Suc i))"

definition reader_of :: "u8 list \<Rightarrow> reader" where
  "reader_of xs = (\<lambda>i. if i < length xs then xs ! i else 0)"

subsection \<open>memset\<close>

fun stosb :: "memory \<Rightarrow> addr_t \<Rightarrow> u8 \<Rightarrow> nat \<Rightarrow> memory" where
  "stosb m a c 0 = m"
| "stosb m a c (Suc n) = stosb (m(a := c)) (a + 1) c n"

fun stosl :: "memory \<Rightarrow> addr_t \<Rightarrow> u32 \<Rightarrow> nat \<Rightarrow> memory" where
  "stosl m a w 0 = m"
| "stosl m a w (Suc n) =
     stosl (m(a := ucast w, a + 1 := ucast (drop_bit 8 w),
              a + 2 := ucast (drop_bit 16 w), a + 3 := ucast (drop_bit 24 w))) (a + 4) w n"

definition memset :: "memory \<Rightarrow> addr_t \<Rightarrow> u32 \<Rightarrow> u64 \<Rightarrow> memory" where
  "memset m dst c n =
     (if dst mod 4 = 0 \<and> n mod 4 = 0
      then let c = c AND 0xFF
           in stosl m dst (push_bit 24 c OR push_bit 16 c OR push_bit 8 c OR c) (unat (n div 4))
      else stosb m dst (ucast c) (unat n))"

subsection \<open>memcmp and memmove\<close>

fun memcmp :: "reader \<Rightarrow> reader \<Rightarrow> nat \<Rightarrow> int" where
  "memcmp s1 s2 0 = 0"
| "memcmp s1 s2 (Suc n) =
     (if s1 0 \<noteq> s2 0 then uint (s1 0) - uint (s2 0) else memcmp (adv s1) (adv s2) n)"

fun copy_fwd :: "memory \<Rightarrow> addr_t \<Rightarrow> addr_t \<Rightarrow> nat \<Rightarrow> memory" where
  "copy_fwd m d s 0 = m"
| "copy_fwd m d s (Suc n) = copy_fwd (m(d := m s)) (d + 1) (s + 1) n"

fun copy_bwd :: "memory \<Rightarrow> addr_t \<Rightarrow> addr_t \<Rightarrow> nat \<Rightarrow> memory" where
  "copy_bwd m d s 0 = m"
| "copy_bwd m d s (Suc n) = copy_bwd (m(d - 1 := m (s - 1))) (d - 1) (s - 1) n"

definition memmove :: "memory \<Rightarrow> addr_t \<Rightarrow> addr_t \<Rightarrow> u32 \<Rightarrow> memory" where
  "memmove m dst src n =
     (if src < dst \<and> src + ucast n > dst
      then copy_bwd m (dst + ucast n) (src + ucast n) (unat n)
      else copy_fwd m dst src (unat n))"

definition memcpy :: "memory \<Rightarrow> addr_t \<Rightarrow> addr_t \<Rightarrow> u32 \<Rightarrow> memory" where
  "memcpy m dst src n = memmove m dst src n"

text \<open>The user library's version (ulib.c) copies upwards only.\<close>

definition ulib_memmove :: "memory \<Rightarrow> addr_t \<Rightarrow> addr_t \<Rightarrow> int \<Rightarrow> memory" where
  "ulib_memmove m vdst vsrc n = copy_fwd m vdst vsrc (nat n)"

subsection \<open>Strings\<close>

fun strncmp :: "reader \<Rightarrow> reader \<Rightarrow> nat \<Rightarrow> int" where
  "strncmp p q 0 = 0"
| "strncmp p q (Suc n) =
     (if p 0 \<noteq> 0 \<and> p 0 = q 0 then strncmp (adv p) (adv q) n else uint (p 0) - uint (q 0))"

text \<open>\<open>strncpy\<close> gives the \<open>n\<close> bytes it stores at \<open>s\<close>: the copy loop, then the zero fill.\<close>

fun strncpy :: "reader \<Rightarrow> nat \<Rightarrow> u8 list" where
  "strncpy t 0 = []"
| "strncpy t (Suc n) = t 0 # (if t 0 \<noteq> 0 then strncpy (adv t) n else replicate n 0)"

text \<open>
  \<open>safestrcpy\<close> gives the bytes it stores at \<open>s\<close>. The loop may store \<open>n - 1\<close> bytes and stops
  after storing a zero; one zero is then stored at the place it has reached.
\<close>

fun safestrcpy_loop :: "reader \<Rightarrow> nat \<Rightarrow> u8 list" where
  "safestrcpy_loop t 0 = [0]"
| "safestrcpy_loop t (Suc n) = t 0 # (if t 0 \<noteq> 0 then safestrcpy_loop (adv t) n else [0])"

definition safestrcpy :: "reader \<Rightarrow> int \<Rightarrow> u8 list" where
  "safestrcpy t n = (if n \<le> 0 then [] else safestrcpy_loop t (nat (n - 1)))"

text \<open>\<open>strlen\<close> runs until it meets a zero byte; on memory without one it does not return.\<close>

partial_function (option) strlen_loop :: "reader \<Rightarrow> nat \<Rightarrow> nat option" where
  "strlen_loop s n = (if s n \<noteq> 0 then strlen_loop s (Suc n) else Some n)"

definition strlen :: "reader \<Rightarrow> nat option" where
  "strlen s = strlen_loop s 0"

subsection \<open>Block routines: what they store\<close>

lemma minus_Suc_word:
  fixes a d :: addr_t
  assumes "a \<noteq> d"
  shows "unat (a - d) = Suc (unat (a - (d + 1)))"
proof -
  from assms have "a - d \<noteq> 0" by simp
  then have "unat (a - d) = Suc (unat (a - d - 1))"
    by (metis Suc_pred' unat_gt_0 unat_minus_one)
  then show ?thesis by (simp add: algebra_simps)
qed

lemma stosb_apply:
  "n < 2 ^ 64 \<Longrightarrow> stosb m d c n a = (if unat (a - d) < n then c else m a)"
proof (induction n arbitrary: m d)
  case (Suc n)
  from Suc.prems have IH: "stosb (m(d := c)) (d + 1) c n a
      = (if unat (a - (d + 1)) < n then c else (m(d := c)) a)"
    by (intro Suc.IH) simp
  show ?case
  proof (cases "a = d")
    case True
    with Suc.prems IH show ?thesis
      by (simp add: unsigned_minus_1_eq_mask mask_eq_exp_minus_1)
  next
    case False
    with IH minus_Suc_word [OF False] show ?thesis by simp
  qed
qed simp

lemma stosl_eq_stosb:
  assumes "\<And>k. k < 4 \<Longrightarrow> ucast (drop_bit (8 * k) w) = c"
  shows "stosl m d w n = stosb m d c (4 * n)"
proof (induction n arbitrary: m d)
  case (Suc n)
  have b: "ucast w = c" "ucast (drop_bit 8 w) = c" "ucast (drop_bit 16 w) = c"
    "ucast (drop_bit 24 w) = c"
    using assms [of 0] assms [of 1] assms [of 2] assms [of 3] by simp_all
  have "4 * Suc n = Suc (Suc (Suc (Suc (4 * n))))" by simp
  then show ?case
    by (simp only: stosl.simps stosb.simps b Suc.IH) (simp add: add.assoc fun_upd_def)
qed simp

lemma memset_word_bytes:
  fixes c :: u32
  assumes "k < 4" and "w = (c AND 0xFF)"
  shows "ucast (drop_bit (8 * k) (push_bit 24 w OR push_bit 16 w OR push_bit 8 w OR w)) = (ucast c :: u8)"
proof (rule bit_word_eqI)
  fix n
  assume "n < LENGTH(8)"
  then have n: "n < 8" by simp
  have bw: "bit w i \<longleftrightarrow> i < 8 \<and> bit c i" for i
  proof -
    have "(0xFF :: u32) = mask 8" by (simp add: mask_eq_exp_minus_1)
    then show ?thesis unfolding assms(2) by (simp only: bit_and_iff bit_mask_iff) auto
  qed
  from assms(1) consider "k = 0" | "k = 1" | "k = 2" | "k = 3" by linarith
  then show "bit (ucast (drop_bit (8 * k) (push_bit 24 w OR push_bit 16 w OR push_bit 8 w OR w)) :: u8) n
      \<longleftrightarrow> bit (ucast c :: u8) n"
    using n by cases (auto simp: bit_simps bw)
qed

lemma memset_apply:
  "memset m dst c n a = (if a - dst < n then ucast c else m a)"
proof (cases "dst mod 4 = 0 \<and> n mod 4 = 0")
  case True
  define w where "w = c AND 0xFF"
  have "unat n mod 4 = 0"
  proof -
    have "unat (n mod 4) = 0" using True by simp
    then show ?thesis by (simp add: unat_mod_distrib)
  qed
  then have n4: "4 * unat (n div 4) = unat n"
    by (simp add: unat_div_distrib) presburger
  have "memset m dst c n = stosb m dst (ucast c) (4 * unat (n div 4))"
    using True stosl_eq_stosb [OF memset_word_bytes [OF _ w_def]]
    by (simp add: memset_def Let_def w_def)
  then show ?thesis
    using n4 unsigned_less [of n, where 'a = nat]
    by (simp add: stosb_apply word_less_nat_alt)
next
  case False
  then show ?thesis
    using unsigned_less [of n, where 'a = nat]
    by (auto simp: memset_def stosb_apply word_less_nat_alt)
qed

lemma copy_fwd_apply:
  assumes "n < 2 ^ 64" and "d = s \<or> n \<le> unat (d - s)"
  shows "copy_fwd m d s n a = (if unat (a - d) < n then m (s + (a - d)) else m a)"
  using assms
proof (induction n arbitrary: m d s)
  case (Suc n)
  let ?m = "m(d := m s)"
  have ds: "d + 1 - (s + 1) = d - s" by simp
  have IH: "copy_fwd ?m (d + 1) (s + 1) n a
      = (if unat (a - (d + 1)) < n then ?m (s + 1 + (a - (d + 1))) else ?m a)"
    using Suc.prems by (intro Suc.IH) (auto simp: ds)
  have addr: "s + 1 + (a - (d + 1)) = s + (a - d)" by simp
  show ?case
  proof (cases "a = d")
    case True
    then have "\<not> unat (a - (d + 1)) < n"
      using Suc.prems(1) by (simp add: unsigned_minus_1_eq_mask mask_eq_exp_minus_1)
    with True IH show ?thesis by simp
  next
    case False
    note u = minus_Suc_word [OF False]
    have "s + (a - d) \<noteq> d \<or> d = s" if "unat (a - d) < Suc n"
    proof (rule ccontr)
      assume "\<not> ?thesis"
      then have "s + (a - d) = d" and "d \<noteq> s" by auto
      then have "a - d = d - s" by (simp add: algebra_simps)
      with Suc.prems(2) \<open>d \<noteq> s\<close> that show False by simp
    qed
    with False IH u addr show ?thesis by auto
  qed
qed simp

lemma copy_bwd_apply:
  assumes "n < 2 ^ 64" and "d = s \<or> n \<le> unat (s - d)"
  shows "copy_bwd m (d + of_nat n) (s + of_nat n) n a
    = (if unat (a - d) < n then m (s + (a - d)) else m a)"
  using assms
proof (induction n arbitrary: m)
  case (Suc n)
  let ?x = "of_nat n :: addr_t"
  let ?m = "m(d + ?x := m (s + ?x))"
  have IH: "copy_bwd ?m (d + ?x) (s + ?x) n a
      = (if unat (a - d) < n then ?m (s + (a - d)) else ?m a)"
    using Suc.prems by (intro Suc.IH) auto
  have step: "copy_bwd m (d + of_nat (Suc n)) (s + of_nat (Suc n)) (Suc n) a
      = copy_bwd ?m (d + ?x) (s + ?x) n a"
    by (simp add: algebra_simps)
  have ux: "unat ?x = n" using Suc.prems(1) by (simp add: unat_of_nat)
  have at: "a = d + ?x \<longleftrightarrow> unat (a - d) = n"
  proof
    assume "unat (a - d) = n"
    then have "a - d = ?x" using ux by (simp add: word_unat_eq_iff)
    then show "a = d + ?x" by (simp add: algebra_simps)
  qed (simp add: ux)
  have "s + (a - d) \<noteq> d + ?x \<or> d = s" if "unat (a - d) < n"
  proof (rule ccontr)
    assume "\<not> ?thesis"
    then have eq: "s + (a - d) = d + ?x" and ne: "d \<noteq> s" by auto
    from eq have sd: "s - d = ?x - (a - d)" by (simp add: algebra_simps)
    have "a - d \<le> ?x" using that ux by (simp add: word_le_nat_alt)
    then have "unat (?x - (a - d)) = n - unat (a - d)"
      using ux by (simp only: unat_sub)
    then have "unat (s - d) = n - unat (a - d)" by (simp only: sd)
    with Suc.prems(2) ne show False by simp
  qed
  then show ?case using IH step at by (auto simp: less_Suc_eq)
qed simp

text \<open>
  C17. The kernel's \<open>memmove\<close> is a simultaneous copy even when the two ranges overlap: afterwards
  every byte of the destination holds what the source held before the call and no other byte
  has changed, as long as neither range runs past the end of the address space.
\<close>

theorem memmove_correct:
  assumes "unat src + unat n < 2 ^ 64" and "unat dst + unat n < 2 ^ 64"
  shows "memmove m dst src n a
    = (if a - dst < ucast n then m (src + (a - dst)) else m a)"
proof -
  have un: "unat (ucast n :: addr_t) = unat n"
    by transfer simp
  have n64: "unat n < 2 ^ 64"
    using unsigned_less [of n, where 'a = nat] by simp
  have of_n: "of_nat (unat n) = (ucast n :: addr_t)"
    by transfer simp
  have usum: "unat (src + ucast n) = unat src + unat n"
    using assms(1) un by (simp add: unat_add_lem [THEN iffD1])
  show ?thesis
  proof (cases "src < dst \<and> src + ucast n > dst")
    case True
    then have "unat n \<le> unat (src - dst)"
    proof -
      have "unat src < unat dst" using True by (simp add: word_less_nat_alt)
      then have "unat (src - dst) = 2 ^ 64 + unat src - unat dst"
        by (simp add: unat_sub_if_size word_size word_le_nat_alt)
      then show ?thesis using assms(2) by simp
    qed
    then have "copy_bwd m (dst + of_nat (unat n)) (src + of_nat (unat n)) (unat n) a
        = (if unat (a - dst) < unat n then m (src + (a - dst)) else m a)"
      using n64 by (intro copy_bwd_apply) auto
    with True show ?thesis
      by (simp add: memmove_def of_n word_less_nat_alt un)
  next
    case False
    have "dst = src \<or> unat n \<le> unat (dst - src)"
    proof (cases "unat dst < unat src")
      case True
      then have "unat (dst - src) = 2 ^ 64 + unat dst - unat src"
        by (simp add: unat_sub_if_size word_size word_le_nat_alt)
      then show ?thesis using assms(1) by linarith
    next
      case le: False
      then have "unat (dst - src) = unat dst - unat src"
        by (simp add: unat_sub_if_size word_le_nat_alt)
      moreover have "dst = src \<or> unat src + unat n \<le> unat dst"
        using False le usum by (auto simp: word_less_nat_alt word_unat_eq_iff not_less)
      ultimately show ?thesis by linarith
    qed
    then have "copy_fwd m dst src (unat n) a
        = (if unat (a - dst) < unat n then m (src + (a - dst)) else m a)"
      using n64 by (intro copy_fwd_apply) auto
    with False show ?thesis
      by (auto simp: memmove_def word_less_nat_alt un)
  qed
qed

theorem memmove_correct_witness:
  "memmove (\<lambda>a. ucast a) 0x1002 0x1000 4 0x1003 = 1"
  using memmove_correct [of "0x1000" 4 "0x1002" "\<lambda>a. ucast a" "0x1003"] by simp

text \<open>The user library copies upwards only, so an overlapping move to a higher address smears.\<close>

lemma ulib_memmove_smears: "ulib_memmove (\<lambda>a. ucast a) 1 0 2 2 = 0"
  by (simp add: ulib_memmove_def eval_nat_numeral)

lemma ulib_memmove_down:
  assumes "0 \<le> n" and "nat n < 2 ^ 64" and "unat vsrc + nat n < 2 ^ 64" and "vdst \<le> vsrc"
  shows "ulib_memmove m vdst vsrc n a
    = (if unat (a - vdst) < nat n then m (vsrc + (a - vdst)) else m a)"
proof -
  have "vdst = vsrc \<or> nat n \<le> unat (vdst - vsrc)"
  proof (cases "vdst = vsrc")
    case False
    with assms(4) have "unat vdst < unat vsrc"
      by (simp add: word_less_nat_alt [symmetric])
    then have "unat (vdst - vsrc) = 2 ^ 64 + unat vdst - unat vsrc"
      by (simp add: unat_sub_if_size word_size word_le_nat_alt)
    then show ?thesis using assms(3) by linarith
  qed simp
  then show ?thesis
    unfolding ulib_memmove_def using assms(2) by (intro copy_fwd_apply) auto
qed

subsection \<open>Strings up to their terminator\<close>

text \<open>The name held in an \<open>n\<close>-byte field: its bytes before the first zero, at most \<open>n\<close>.\<close>

definition cname :: "nat \<Rightarrow> reader \<Rightarrow> u8 list" where
  "cname n p = takeWhile (\<lambda>c. c \<noteq> 0) (map p [0..<n])"

lemma cname_0 [simp]: "cname 0 p = []"
  by (simp add: cname_def)

lemma cname_Suc: "cname (Suc n) p = (if p 0 = 0 then [] else p 0 # cname n (adv p))"
proof -
  have "map p [0..<Suc n] = p 0 # map (adv p) [0..<n]"
    by (simp add: adv_def map_upt_Suc del: upt_Suc)
  then show ?thesis by (simp add: cname_def del: upt_Suc)
qed

lemma reader_of_Cons [simp]: "reader_of (x # xs) 0 = x" "adv (reader_of (x # xs)) = reader_of xs"
  by (auto simp: reader_of_def adv_def)

lemma memcmp_eq_0: "memcmp p q n = 0 \<longleftrightarrow> (\<forall>i<n. p i = q i)"
proof (induction n arbitrary: p q)
  case (Suc n)
  have "memcmp p q (Suc n) = 0 \<longleftrightarrow> p 0 = q 0 \<and> memcmp (adv p) (adv q) n = 0"
    by (simp add: word_uint_eq_iff)
  also have "\<dots> \<longleftrightarrow> p 0 = q 0 \<and> (\<forall>i<n. p (Suc i) = q (Suc i))"
    by (simp add: Suc.IH adv_def)
  also have "\<dots> \<longleftrightarrow> (\<forall>i<Suc n. p i = q i)"
    by (auto simp: less_Suc_eq_0_disj)
  finally show ?case .
qed simp

lemma strncmp_eq_0: "strncmp p q n = 0 \<longleftrightarrow> cname n p = cname n q"
proof (induction p q n rule: strncmp.induct)
  case (2 p q n)
  then show ?case by (auto simp: cname_Suc word_uint_eq_iff)
qed simp

lemma length_strncpy [simp]: "length (strncpy t n) = n"
  by (induction t n rule: strncpy.induct) auto

lemma cname_zeros [simp]: "cname n (reader_of (replicate k 0)) = []"
  by (cases n) (auto simp: cname_Suc reader_of_def)

lemma cname_strncpy: "cname n (reader_of (strncpy t n)) = cname n t"
proof (induction t n rule: strncpy.induct)
  case (2 t n)
  then show ?case by (cases "t 0 = 0") (simp_all add: cname_Suc)
qed simp

text \<open>
  A name stored in a directory entry by \<open>strncpy\<close> always compares equal (\<open>strncmp\<close> over
  the same width) to the name it came from, also when it fills the field and has no terminator,
  and compares equal to another name exactly when the two agree up to their terminators or
  the width of the field.
\<close>

theorem strncmp_strncpy:
  "strncmp t (reader_of (strncpy t n)) n = 0
   \<and> (strncmp u (reader_of (strncpy t n)) n = 0 \<longleftrightarrow> cname n u = cname n t)"
  by (simp_all add: strncmp_eq_0 cname_strncpy)

lemma safestrcpy_loop_props:
  "length (safestrcpy_loop t n) \<le> Suc n"
  "cname (Suc n) (reader_of (safestrcpy_loop t n)) = cname n t"
  by (induction t n rule: safestrcpy_loop.induct) (auto simp: cname_Suc)

text \<open>
  C18. \<open>safestrcpy\<close> never stores more than \<open>n\<close> bytes, ends the copy with a zero byte, and the string
  it leaves is the source cut to \<open>n - 1\<close> bytes.
\<close>

theorem safestrcpy_terminates_string:
  assumes "0 < n"
  shows "int (length (safestrcpy t n)) \<le> n \<and> last (safestrcpy t n) = 0
    \<and> cname (nat n) (reader_of (safestrcpy t n)) = cname (nat (n - 1)) t"
proof (intro conjI)
  obtain k where k: "n = int (Suc k)"
    using assms by (metis Suc_pred' nat_0_iff not_less pos_int_cases)
  then have eq: "safestrcpy t n = safestrcpy_loop t k"
    by (simp add: safestrcpy_def)
  show "int (length (safestrcpy t n)) \<le> n"
    using safestrcpy_loop_props(1) [of t k] eq k by simp
  show "cname (nat n) (reader_of (safestrcpy t n)) = cname (nat (n - 1)) t"
    using safestrcpy_loop_props(2) [of k t] eq k by (simp add: nat_add_distrib)
  have "last (safestrcpy_loop t k) = 0"
  proof (induction t k rule: safestrcpy_loop.induct)
    case (2 t n)
    have "safestrcpy_loop u n \<noteq> []" for u by (cases n) auto
    with "2" show ?case by auto
  qed simp
  then show "last (safestrcpy t n) = 0" by (simp add: eq)
qed

theorem safestrcpy_terminates_string_witness:
  "int (length (safestrcpy (reader_of [97, 98, 99, 100, 0]) 3)) \<le> 3
   \<and> cname 3 (reader_of (safestrcpy (reader_of [97, 98, 99, 100, 0]) 3)) = [97, 98]"
  using safestrcpy_terminates_string [of 3 "reader_of [97, 98, 99, 100, 0]"]
  by (simp add: cname_def reader_of_def upt_rec)

lemma strlen_loop_Some:
  "(\<forall>i. n \<le> i \<and> i < n + k \<longrightarrow> s i \<noteq> 0) \<Longrightarrow> s (n + k) = 0 \<Longrightarrow> strlen_loop s n = Some (n + k)"
proof (induction k arbitrary: n)
  case 0
  then show ?case by (simp add: strlen_loop.simps)
next
  case (Suc k)
  from Suc.prems(1) have "s n \<noteq> 0" by simp
  moreover have "strlen_loop s (Suc n) = Some (Suc n + k)"
    by (rule Suc.IH) (use Suc.prems in auto)
  ultimately show ?case by (subst strlen_loop.simps) simp
qed

lemma strlen_Some: "s k = 0 \<Longrightarrow> (\<And>i. i < k \<Longrightarrow> s i \<noteq> 0) \<Longrightarrow> strlen s = Some k"
  using strlen_loop_Some [of 0 k s] by (simp add: strlen_def)

end
