(* ===== verification/Kalloc.thy ===== *)
theory Kalloc
  imports Strings
begin

section \<open>Physical page allocator (kalloc.c)\<close>

text \<open>
  The allocator keeps its free pages on a list whose links are stored in the free pages
  themselves, so the state is the memory and the head of the list. The critical sections
  guarded by \<open>kmem.lock\<close> are single steps here. The linker symbol \<open>end\<close> is the field
  \<open>kend\<close>, which no routine writes.
\<close>

subsection \<open>64-bit loads and stores\<close>

definition load64 :: "memory \<Rightarrow> addr_t \<Rightarrow> u64" where
  "load64 m a =
     ucast (m a) OR push_bit 8 (ucast (m (a + 1))) OR push_bit 16 (ucast (m (a + 2)))
     OR push_bit 24 (ucast (m (a + 3))) OR push_bit 32 (ucast (m (a + 4)))
     OR push_bit 40 (ucast (m (a + 5))) OR push_bit 48 (ucast (m (a + 6)))
     OR push_bit 56 (ucast (m (a + 7)))"

definition store64 :: "memory \<Rightarrow> addr_t \<Rightarrow> u64 \<Rightarrow> memory" where
  "store64 m a v = m(a := ucast v, a + 1 := ucast (drop_bit 8 v),
     a + 2 := ucast (drop_bit 16 v), a + 3 := ucast (drop_bit 24 v),
     a + 4 := ucast (drop_bit 32 v), a + 5 := ucast (drop_bit 40 v),
     a + 6 := ucast (drop_bit 48 v), a + 7 := ucast (drop_bit 56 v))"

subsection \<open>The allocator\<close>

record kmem_st =
  mem :: memory
  kend :: addr_t
  use_lock :: bool
  freelist :: addr_t

definition kfree :: "addr_t \<Rightarrow> ('z kmem_st_scheme) \<Rightarrow> (unit, 'z kmem_st_scheme) result" where
  "kfree v s =
     (if v mod PGSIZE \<noteq> 0 \<or> v < kend s \<or> V2P v \<ge> PHYSTOP then Panic ''kfree''
      else let m = memset (mem s) v 1 PGSIZE
           in Ok () (s\<lparr>mem := store64 m v (freelist s), freelist := v\<rparr>))"

definition kalloc :: "('z kmem_st_scheme) \<Rightarrow> (addr_t, 'z kmem_st_scheme) result" where
  "kalloc s =
     (let r = freelist s
      in if r \<noteq> 0 then Ok r (s\<lparr>freelist := load64 (mem s) r\<rparr>) else Panic ''Out of memory!'')"

text \<open>
  The loop of \<open>freerange\<close> spends one unit of fuel per page. \<open>freerange\<close> gives it one unit
  more than there are pages between the two addresses, so the loop always leaves through its
  own test when the range does not wrap.
\<close>

fun freerange_loop :: "nat \<Rightarrow> addr_t \<Rightarrow> addr_t \<Rightarrow> ('z kmem_st_scheme) \<Rightarrow> (unit, 'z kmem_st_scheme) result" where
  "freerange_loop 0 p vend s = Stuck"
| "freerange_loop (Suc fuel) p vend s =
     (if p + PGSIZE \<le> vend
      then bindR (kfree p s) (\<lambda>_ s. freerange_loop fuel (p + PGSIZE) vend s)
      else Ok () s)"

definition freerange :: "addr_t \<Rightarrow> addr_t \<Rightarrow> ('z kmem_st_scheme) \<Rightarrow> (unit, 'z kmem_st_scheme) result" where
  "freerange vstart vend s =
     (let p = PGROUNDUP vstart in freerange_loop (Suc (unat ((vend - p) div PGSIZE))) p vend s)"

definition kinit1 :: "addr_t \<Rightarrow> addr_t \<Rightarrow> ('z kmem_st_scheme) \<Rightarrow> (unit, 'z kmem_st_scheme) result" where
  "kinit1 vstart vend s = freerange vstart vend (s\<lparr>use_lock := False, freelist := 0\<rparr>)"

definition kinit2 :: "('z kmem_st_scheme) \<Rightarrow> ('z kmem_st_scheme)" where
  "kinit2 s = s\<lparr>use_lock := True\<rparr>"

subsection \<open>Loads and stores\<close>

lemma bit_byte:
  "k + 8 \<le> 64 \<Longrightarrow> bit (push_bit k (ucast (b :: u8)) :: u64) n = (k \<le> n \<and> n < k + 8 \<and> bit b (n - k))"
  using bit_imp_le_length [of b "n - k"] by (auto simp: bit_simps)

lemma bit_byte0: "bit (ucast (b :: u8) :: u64) n = (n < 8 \<and> bit b n)"
  using bit_imp_le_length [of b n] by (auto simp: bit_simps)

lemma bit_load64_byte:
  assumes r: "r < 8" and q: "q < 8"
  shows "bit (load64 m a) (8 * q + r) = bit (m (a + of_nat q)) r"
proof -
  from q have "q = 0 \<or> q = 1 \<or> q = 2 \<or> q = 3 \<or> q = 4 \<or> q = 5 \<or> q = 6 \<or> q = 7" by linarith
  then show ?thesis
    using r by (elim disjE; hypsubst) (simp_all add: load64_def bit_or_iff bit_byte bit_byte0)
qed

lemma bit_load64:
  "n < 64 \<Longrightarrow> bit (load64 m a) n = bit (m (a + of_nat (n div 8))) (n mod 8)"
  using bit_load64_byte [of "n mod 8" "n div 8"] by simp

lemma word_less_8_cases:
  fixes d :: addr_t
  assumes "d < 8"
  shows "d \<in> {0, 1, 2, 3, 4, 5, 6, 7}"
proof -
  define k where "k = unat d"
  then have d: "d = of_nat k" by simp
  have "k < 8" using assms by (simp add: k_def word_less_nat_alt)
  then have "k = 0 \<or> k = 1 \<or> k = 2 \<or> k = 3 \<or> k = 4 \<or> k = 5 \<or> k = 6 \<or> k = 7" by linarith
  then show ?thesis unfolding d by (elim disjE) simp_all
qed

lemma store64_apply:
  "store64 m a v x =
     (if x - a < 8 then ucast (drop_bit (8 * unat (x - a)) v) else m x)"
proof -
  define d where "d = x - a"
  have x: "x = a + d" by (simp add: d_def)
  have c: "a + d = a + k \<longleftrightarrow> d = k" for k by simp
  show ?thesis
  proof (cases "d < 8")
    case True
    then consider "d = 0" | "d = 1" | "d = 2" | "d = 3" | "d = 4" | "d = 5" | "d = 6" | "d = 7"
      by (auto dest: word_less_8_cases)
    then show ?thesis by cases (simp_all add: store64_def x)
  next
    case False
    then have "d \<noteq> 0" "d \<noteq> 1" "d \<noteq> 2" "d \<noteq> 3" "d \<noteq> 4" "d \<noteq> 5" "d \<noteq> 6" "d \<noteq> 7"
      by auto
    with False show ?thesis by (simp add: store64_def x)
  qed
qed

lemma load64_store64_same [simp]: "load64 (store64 m a v) a = v"
proof (rule bit_word_eqI)
  fix n
  assume "n < LENGTH(64)"
  then have n: "n < 64" by simp
  then have q: "n div 8 < 8" by simp
  have u: "unat (of_nat (n div 8) :: addr_t) = n div 8"
    using q by (simp add: unat_of_nat)
  then have lt: "(of_nat (n div 8) :: addr_t) < 8" using q by (simp add: word_less_nat_alt)
  show "bit (load64 (store64 m a v) a) n = bit v n"
    using n u lt by (simp add: bit_load64 store64_apply bit_simps)
qed

lemma load64_cong:
  assumes "\<And>k. k < 8 \<Longrightarrow> m (a + k) = m' (a + k)"
  shows "load64 m a = load64 m' a"
  using assms [of 0] assms [of 1] assms [of 2] assms [of 3] assms [of 4] assms [of 5]
    assms [of 6] assms [of 7]
  by (simp add: load64_def)

subsection \<open>Pages\<close>

definition page_of :: "addr_t \<Rightarrow> addr_t set" where
  "page_of p = {a. a - p < PGSIZE}"

definition usable_page :: "addr_t \<Rightarrow> addr_t \<Rightarrow> bool" where
  "usable_page e p \<longleftrightarrow> p mod PGSIZE = 0 \<and> e \<le> p \<and> V2P p < PHYSTOP \<and> p \<noteq> 0"

lemma aligned_unat: "(p :: addr_t) mod 4096 = 0 \<longleftrightarrow> unat p mod 4096 = 0"
  by (simp add: word_unat_eq_iff unat_mod_distrib)

lemma page_disjoint:
  assumes p: "p mod PGSIZE = 0" and q: "q mod PGSIZE = 0" and ne: "p \<noteq> q"
  shows "page_of p \<inter> page_of q = {}"
proof (rule ccontr)
  assume "page_of p \<inter> page_of q \<noteq> {}"
  then obtain a where a: "a - p < 4096" "a - q < 4096" by (auto simp: page_of_def)
  have "unat p mod 4096 = 0" "unat q mod 4096 = 0" using p q by (simp_all add: aligned_unat)
  then obtain i j where i: "unat p = 4096 * i" and j: "unat q = 4096 * j"
    by (auto simp: mod_eq_0_iff_dvd elim!: dvdE)
  have big: "4096 * k + 4096 \<le> 2 ^ 64" if "unat x = 4096 * k" for x :: addr_t and k
  proof -
    have "4096 * k < 4096 * 2 ^ 52" using that unsigned_less [of x, where 'a = nat] by simp
    then have "Suc k \<le> 2 ^ 52" by (simp only: mult_less_cancel1) simp
    then have "4096 * Suc k \<le> 4096 * 2 ^ 52" by (rule mult_le_mono2)
    then show ?thesis by simp
  qed
  have range: "unat x \<le> unat a \<and> unat a < unat x + 4096"
    if "a - x < 4096" and "unat x = 4096 * k" for x k
  proof -
    have s: "unat (a - x) < 4096" using that(1) by (simp add: word_less_nat_alt)
    have "unat (x + (a - x)) = unat x + unat (a - x)"
      by (rule unat_add_lem [THEN iffD1]) (use s big [OF that(2)] that(2) in simp)
    with s show ?thesis by simp
  qed
  have "i < Suc j" and "j < Suc i"
    using range [OF a(1) i] range [OF a(2) j] i j by linarith+
  then have "unat p = unat q" using i j by simp
  with ne show False by (simp add: word_unat_eq_iff)
qed

subsection \<open>The free list\<close>

text \<open>\<open>flist m p ps\<close>: from \<open>p\<close> the links in memory lead through the pages \<open>ps\<close> and end in 0.\<close>

fun flist :: "memory \<Rightarrow> addr_t \<Rightarrow> addr_t list \<Rightarrow> bool" where
  "flist m p [] \<longleftrightarrow> p = 0"
| "flist m p (x # xs) \<longleftrightarrow> p = x \<and> flist m (load64 m x) xs"

definition free_rep :: "('z kmem_st_scheme) \<Rightarrow> addr_t list \<Rightarrow> bool" where
  "free_rep s ps \<longleftrightarrow> flist (mem s) (freelist s) ps \<and> distinct ps \<and> (\<forall>p\<in>set ps. usable_page (kend s) p)"

lemma flist_frame:
  assumes "flist m p xs" and "\<And>x k. x \<in> set xs \<Longrightarrow> k < 8 \<Longrightarrow> m' (x + k) = m (x + k)"
  shows "flist m' p xs"
  using assms
proof (induction xs arbitrary: p)
  case (Cons x xs)
  have "load64 m' x = load64 m x"
    by (rule load64_cong) (use Cons.prems(2) in auto)
  with Cons show ?case by auto
qed simp

lemma word_lt_8_page: "(k :: addr_t) < 8 \<Longrightarrow> k < 4096"
  by (rule less_trans [of k 8 4096]) simp_all

lemma kfree_mem:
  assumes "kfree v s = Ok () s'"
  shows "a \<notin> page_of v \<Longrightarrow> mem s' a = mem s a"
proof -
  assume "a \<notin> page_of v"
  then have far: "\<not> a - v < 4096" by (simp add: page_of_def)
  then have "\<not> a - v < 8" using word_lt_8_page by blast
  with far show ?thesis
    using assms by (auto simp: kfree_def Let_def store64_apply memset_apply split: if_splits)
qed

lemma kfree_fields:
  assumes "kfree v s = Ok () s'"
  shows "kend s' = kend s" and "freelist s' = v" and "load64 (mem s') v = freelist s"
  using assms by (auto simp: kfree_def Let_def split: if_splits)

lemma kfree_ok:
  assumes "usable_page (kend s) v"
  shows "\<exists>s'. kfree v s = Ok () s'"
  using assms by (auto simp: kfree_def usable_page_def Let_def not_less not_le)

lemma free_rep_kfree:
  assumes rep: "free_rep s ps" and v: "usable_page (kend s) v" "v \<notin> set ps"
  shows "wp (kfree v s) (\<lambda>_ s'. free_rep s' (v # ps) \<and> (\<forall>a. a \<notin> page_of v \<longrightarrow> mem s' a = mem s a))"
proof -
  obtain s' where s': "kfree v s = Ok () s'" using kfree_ok [OF v(1)] by blast
  have "flist (mem s') (freelist s) ps"
  proof (rule flist_frame)
    show "flist (mem s) (freelist s) ps" using rep by (simp add: free_rep_def)
    fix x k
    assume x: "x \<in> set ps" and k: "(k :: addr_t) < 8"
    have "page_of x \<inter> page_of v = {}"
      using rep v x by (intro page_disjoint) (auto simp: free_rep_def usable_page_def)
    moreover have "x + k \<in> page_of x" using word_lt_8_page [OF k] by (simp add: page_of_def)
    ultimately show "mem s' (x + k) = mem s (x + k)" using kfree_mem [OF s'] by blast
  qed
  then have "free_rep s' (v # ps)"
    using rep v kfree_fields [OF s'] by (auto simp: free_rep_def)
  then show ?thesis using kfree_mem [OF s'] by (simp add: s')
qed

lemma free_rep_kalloc:
  assumes "free_rep s (p # ps)"
  shows "wp (kalloc s) (\<lambda>r s'. r = p \<and> free_rep s' ps \<and> mem s' = mem s)"
  using assms by (auto simp: kalloc_def Let_def free_rep_def usable_page_def)

lemma free_rep_kalloc_empty: "free_rep s [] \<Longrightarrow> kalloc s = Panic ''Out of memory!''"
  by (simp add: kalloc_def free_rep_def)

subsection \<open>The allocator's contract\<close>

text \<open>Taking \<open>n\<close> pages one after the other, as the page-table code does.\<close>

fun alloc_n :: "('s \<Rightarrow> (addr_t, 's) result) \<Rightarrow> nat \<Rightarrow> 's \<Rightarrow> (addr_t list, 's) result" where
  "alloc_n alloc 0 s = Ok [] s"
| "alloc_n alloc (Suc n) s =
     bindR (alloc s) (\<lambda>p s. bindR (alloc_n alloc n s) (\<lambda>ps s. Ok (p # ps) s))"

locale page_allocator =
  fixes alloc :: "'s \<Rightarrow> (addr_t, 's) result"
    and free :: "addr_t \<Rightarrow> 's \<Rightarrow> (unit, 's) result"
    and rep :: "'s \<Rightarrow> addr_t list \<Rightarrow> bool"
    and usable :: "'s \<Rightarrow> addr_t \<Rightarrow> bool"
    and contents :: "'s \<Rightarrow> memory"
  assumes alloc_Cons: "rep s (p # ps) \<Longrightarrow>
      wp (alloc s) (\<lambda>r s'. r = p \<and> rep s' ps \<and> contents s' = contents s \<and> usable s' = usable s)"
    and alloc_Nil: "rep s [] \<Longrightarrow> \<exists>msg. alloc s = Panic msg"
    and free_Cons: "rep s ps \<Longrightarrow> usable s v \<Longrightarrow> v \<notin> set ps \<Longrightarrow>
      wp (free v s) (\<lambda>_ s'. rep s' (v # ps) \<and> usable s' = usable s
        \<and> (\<forall>a. a \<notin> page_of v \<longrightarrow> contents s' a = contents s a))"
    and rep_distinct: "rep s ps \<Longrightarrow> distinct ps"
    and rep_usable: "rep s ps \<Longrightarrow> p \<in> set ps \<Longrightarrow> usable s p"
begin

lemma alloc_n_pages:
  "rep s ps \<Longrightarrow> n \<le> length ps \<Longrightarrow>
     wp (alloc_n alloc n s) (\<lambda>rs s'. rs = take n ps \<and> rep s' (drop n ps)
       \<and> contents s' = contents s \<and> usable s' = usable s)"
proof (induction n arbitrary: s ps)
  case (Suc n)
  then obtain p qs where ps: "ps = p # qs" by (cases ps) auto
  obtain s1 where s1: "alloc s = Ok p s1" "rep s1 qs" "contents s1 = contents s" "usable s1 = usable s"
    using alloc_Cons [of s p qs] Suc.prems ps by (auto elim: wpE)
  have "wp (alloc_n alloc n s1) (\<lambda>rs s'. rs = take n qs \<and> rep s' (drop n qs)
      \<and> contents s' = contents s1 \<and> usable s' = usable s1)"
    using Suc.prems ps s1(2) by (intro Suc.IH) simp_all
  then show ?case using s1 ps by (auto elim: wpE)
qed simp

text \<open>Freeing a page and asking for one gives that page back (the list is a stack).\<close>

lemma free_then_alloc:
  assumes "rep s ps" and "usable s v" and "v \<notin> set ps"
  shows "wp (bindR (free v s) (\<lambda>_ s. alloc s)) (\<lambda>r s'. r = v \<and> rep s' ps)"
proof -
  obtain s1 where "free v s = Ok () s1" "rep s1 (v # ps)"
    using free_Cons [OF assms] by (auto elim: wpE)
  then show ?thesis using alloc_Cons [of s1 v ps] by (auto elim: wpE)
qed

lemma alloc_n_distinct:
  assumes "rep s ps" and "n \<le> length ps"
  shows "wp (alloc_n alloc n s) (\<lambda>rs s'. length rs = n \<and> distinct rs \<and> (\<forall>r\<in>set rs. usable s r)
    \<and> (\<exists>qs. rep s' qs \<and> set qs \<inter> set rs = {} \<and> set qs \<union> set rs = set ps))"
proof (rule wp_mono [OF alloc_n_pages [OF assms]])
  fix rs s'
  assume a: "rs = take n ps \<and> rep s' (drop n ps) \<and> contents s' = contents s \<and> usable s' = usable s"
  have d: "distinct ps" using assms(1) by (rule rep_distinct)
  then have "set (drop n ps) \<inter> set (take n ps) = {}"
    using set_take_disj_set_drop_if_distinct [of ps n n] by auto
  moreover have "set (drop n ps) \<union> set (take n ps) = set ps"
    by (metis append_take_drop_id set_append sup_commute)
  moreover have "\<forall>r\<in>set (take n ps). usable s r"
    using rep_usable [OF assms(1)] by (auto dest: in_set_takeD)
  ultimately show "length rs = n \<and> distinct rs \<and> (\<forall>r\<in>set rs. usable s r)
      \<and> (\<exists>qs. rep s' qs \<and> set qs \<inter> set rs = {} \<and> set qs \<union> set rs = set ps)"
    using a d assms(2) by (auto intro!: exI [of _ "drop n ps"])
qed

end

interpretation kmem: page_allocator kalloc kfree free_rep "\<lambda>s. usable_page (kend s)" mem
proof
  fix s :: "'a kmem_st_scheme" and p ps
  assume "free_rep s (p # ps)"
  then show "wp (kalloc s) (\<lambda>r s'. r = p \<and> free_rep s' ps \<and> mem s' = mem s
      \<and> usable_page (kend s') = usable_page (kend s))"
    by (auto simp: kalloc_def Let_def free_rep_def usable_page_def)
next
  fix s :: "'a kmem_st_scheme" and ps v
  assume a: "free_rep s ps" "usable_page (kend s) v" "v \<notin> set ps"
  then show "wp (kfree v s) (\<lambda>_ s'. free_rep s' (v # ps) \<and> usable_page (kend s') = usable_page (kend s)
      \<and> (\<forall>a. a \<notin> page_of v \<longrightarrow> mem s' a = mem s a))"
    using free_rep_kfree [OF a] by (auto elim!: wpE simp: kfree_fields)
next
  fix s :: "'a kmem_st_scheme"
  assume "free_rep s []"
  then show "\<exists>msg. kalloc s = Panic msg" using free_rep_kalloc_empty by blast
qed (auto simp: free_rep_def)

subsection \<open>Properties\<close>


text \<open>Boot: \<open>kinit1\<close> on the range from \<open>end\<close> to the top of memory.\<close>

definition page_run :: "addr_t \<Rightarrow> nat \<Rightarrow> addr_t list" where
  "page_run p n = map (\<lambda>i. p + of_nat i * 4096) [0..<n]"

lemma page_run_Suc: "page_run p (Suc n) = p # page_run (p + 4096) n"
proof -
  have "[0..<Suc n] = 0 # map Suc [0..<n]" by (simp only: upt_conv_Cons map_Suc_upt zero_less_Suc)
  then show ?thesis by (simp add: page_run_def algebra_simps o_def del: upt_Suc)
qed

lemma freerange_loop_frees:
  assumes "free_rep s ps" and "n < fuel"
    and "\<And>i. i < n \<Longrightarrow> usable_page (kend s) (p + of_nat i * 4096) \<and> p + of_nat i * 4096 \<notin> set ps"
    and "distinct (page_run p n)"
    and "unat p + 4096 * n \<le> unat vend" and "unat vend < unat p + 4096 * n + 4096"
    and "unat vend + 4096 < 2 ^ 64"
  shows "wp (freerange_loop fuel p vend s) (\<lambda>_ s'. free_rep s' (rev (page_run p n) @ ps))"
  using assms
proof (induction n arbitrary: fuel p s ps)
  case 0
  then obtain f where f: "fuel = Suc f" by (cases fuel) auto
  have "unat (p + 4096) = unat p + 4096"
    using 0 by (simp add: unat_add_lem [THEN iffD1])
  then have "\<not> p + 4096 \<le> vend" using 0 by (simp add: word_le_nat_alt)
  with 0 f show ?case by (simp add: page_run_def)
next
  case (Suc n)
  then obtain f where f: "fuel = Suc f" by (cases fuel) auto
  have up: "unat (p + 4096) = unat p + 4096"
    using Suc.prems by (simp add: unat_add_lem [THEN iffD1])
  then have go: "p + 4096 \<le> vend" using Suc.prems by (simp add: word_le_nat_alt)
  have sh: "p + 4096 + of_nat i * 4096 = p + of_nat (Suc i) * 4096" for i
    by (simp add: algebra_simps)
  have p: "usable_page (kend s) p" "p \<notin> set ps" using Suc.prems(3) [of 0] by simp_all
  obtain s1 where s1: "kfree p s = Ok () s1" "free_rep s1 (p # ps)"
    using free_rep_kfree [OF Suc.prems(1) p] by (auto elim: wpE)
  have "wp (freerange_loop f (p + 4096) vend s1) (\<lambda>_ s'. free_rep s' (rev (page_run (p + 4096) n) @ p # ps))"
  proof (rule Suc.IH)
    fix i
    assume i: "i < n"
    have "p + of_nat (Suc i) * 4096 \<noteq> p"
      using Suc.prems(4) i by (auto simp: page_run_Suc) (auto simp: page_run_def algebra_simps)
    then show "usable_page (kend s1) (p + 4096 + of_nat i * 4096) \<and> p + 4096 + of_nat i * 4096 \<notin> set (p # ps)"
      using Suc.prems(3) [of "Suc i"] i kfree_fields(1) [OF s1(1)] unfolding sh by simp
  qed (use Suc.prems s1 up f in \<open>auto simp: page_run_Suc\<close>)
  with f go s1 show ?case by (simp add: page_run_Suc)
qed

lemma unat_page_run_nth:
  fixes p :: addr_t
  assumes "unat p + 4096 * n < 2 ^ 64" and "i < n"
  shows "unat (p + of_nat i * 4096) = unat p + 4096 * i"
proof -
  have a: "4096 * i < 2 ^ 64" "unat p + 4096 * i < 2 ^ 64" using assms by linarith+
  have "(of_nat i * 4096 :: addr_t) = of_nat (4096 * i)" by simp
  then have "unat (of_nat i * 4096 :: addr_t) = 4096 * i"
    using unat_of_nat_small [OF a(1)] by (simp only:)
  then show ?thesis using unat_add_small [of p "of_nat i * 4096"] a(2) by (simp only:)
qed

lemma distinct_page_run:
  assumes "unat p + 4096 * n < 2 ^ 64"
  shows "distinct (page_run p n)"
proof -
  have "inj_on (\<lambda>i. p + of_nat i * 4096) {0..<n}"
  proof (rule inj_onI)
    fix i j
    assume ij: "i \<in> {0..<n}" "j \<in> {0..<n}" and eq: "p + of_nat i * 4096 = p + of_nat j * 4096"
    have "unat p + 4096 * i = unat (p + of_nat i * 4096)"
      using unat_page_run_nth [OF assms, of i] ij by simp
    also have "\<dots> = unat p + 4096 * j"
      unfolding eq using unat_page_run_nth [OF assms, of j] ij by simp
    finally show "i = j" by simp
  qed
  then show ?thesis by (simp add: page_run_def distinct_map)
qed

text \<open>Page numbers: the first page at or above \<open>e\<close>, and the number of \<open>P2V(PHYSTOP)\<close>'s page.\<close>

definition first_page :: "addr_t \<Rightarrow> nat" where
  "first_page e = (unat e + 4095) div 4096"

definition top_page :: nat where
  "top_page = 0xFFFF80000E000"

lemma unat_top: "unat (P2V PHYSTOP) = 4096 * top_page"
  by (simp add: P2V_def top_page_def)

lemma unat_KERNBASE: "unat KERNBASE = 0xFFFF800000000000"
  by simp

lemma first_page_bounds:
  assumes "e \<le> P2V PHYSTOP"
  shows "unat (PGROUNDUP e) = 4096 * first_page e" and "unat e \<le> 4096 * first_page e"
    and "first_page e \<le> top_page"
proof -
  have e: "unat e \<le> 4096 * top_page"
    using assms by (simp only: word_le_nat_alt unat_top)
  then have "unat e + 4095 < 2 ^ 64" by (simp add: top_page_def)
  then show "unat (PGROUNDUP e) = 4096 * first_page e"
    by (simp only: unat_PGROUNDUP first_page_def mult.commute)
  show "unat e \<le> 4096 * first_page e" unfolding first_page_def by linarith
  have "(unat e + 4095) div 4096 \<le> (4096 * top_page + 4095) div 4096"
    using e by (intro div_le_mono) simp
  then show "first_page e \<le> top_page" by (simp add: first_page_def)
qed

lemma V2P_below:
  assumes "KERNBASE \<le> x"
  shows "V2P x < PHYSTOP \<longleftrightarrow> unat x < 4096 * top_page"
proof -
  have "unat KERNBASE \<le> unat x" using assms by (simp only: word_le_nat_alt)
  then have "unat (V2P x) = unat x - unat KERNBASE"
    unfolding V2P_def by (rule unat_sub_small)
  moreover have "0xFFFF800000000000 \<le> unat x"
    using \<open>unat KERNBASE \<le> unat x\<close> by (simp only: unat_KERNBASE)
  ultimately show ?thesis
    by (simp only: word_less_nat_alt unat_KERNBASE) (simp add: top_page_def, linarith)
qed

lemma usable_page_iff:
  assumes "KERNBASE \<le> e" and "e \<le> P2V PHYSTOP"
  shows "usable_page e x \<longleftrightarrow> (\<exists>r. unat x = 4096 * r \<and> first_page e \<le> r \<and> r < top_page)"
proof
  assume u: "usable_page e x"
  then obtain r where r: "unat x = 4096 * r"
    by (auto simp: usable_page_def aligned_unat mod_eq_0_iff_dvd elim!: dvdE)
  have "unat e \<le> 4096 * r" using u r by (simp add: usable_page_def word_le_nat_alt)
  then have "(unat e + 4095) div 4096 \<le> (4096 * r + 4095) div 4096"
    by (intro div_le_mono) simp
  moreover have "r < top_page"
    using u r assms V2P_below [of x] by (auto simp: usable_page_def)
  ultimately show "\<exists>r. unat x = 4096 * r \<and> first_page e \<le> r \<and> r < top_page"
    using r by (intro exI [of _ r]) (simp add: first_page_def)
next
  assume "\<exists>r. unat x = 4096 * r \<and> first_page e \<le> r \<and> r < top_page"
  then obtain r where r: "unat x = 4096 * r" "first_page e \<le> r" "r < top_page" by blast
  have "unat e \<le> unat x" using first_page_bounds(2) [OF assms(2)] r by linarith
  then have ex: "e \<le> x" by (simp only: word_le_nat_alt)
  with assms have "KERNBASE \<le> x" by (rule_tac order_trans)
  then have "V2P x < PHYSTOP" and "x \<noteq> 0" using V2P_below r by (simp, auto)
  then show "usable_page e x" using ex r by (simp add: usable_page_def aligned_unat)
qed

lemma page_run_usable:
  assumes "KERNBASE \<le> e" and "e \<le> P2V PHYSTOP"
    and "n = top_page - first_page e"
  shows "set (page_run (PGROUNDUP e) n) = {p. usable_page e p}"
    and "unat (PGROUNDUP e) + 4096 * n = 4096 * top_page"
proof -
  note b = first_page_bounds [OF assms(2)]
  show sum: "unat (PGROUNDUP e) + 4096 * n = 4096 * top_page"
    using b assms(3) by (simp add: diff_mult_distrib2)
  then have bn: "unat (PGROUNDUP e) + 4096 * n < 2 ^ 64" by (simp add: top_page_def)
  have nth: "unat (PGROUNDUP e + of_nat i * 4096) = 4096 * (first_page e + i)" if "i < n" for i
    using unat_page_run_nth [OF bn that] b(1) by simp
  show "set (page_run (PGROUNDUP e) n) = {p. usable_page e p}"
  proof (intro equalityI subsetI)
    fix x assume "x \<in> set (page_run (PGROUNDUP e) n)"
    then obtain i where "i < n" "x = PGROUNDUP e + of_nat i * 4096" by (auto simp: page_run_def)
    then show "x \<in> {p. usable_page e p}"
      using nth [of i] assms(3)
      by (auto simp: usable_page_iff [OF assms(1,2)] intro!: exI [of _ "first_page e + i"])
  next
    fix x assume "x \<in> {p. usable_page e p}"
    then obtain r where r: "unat x = 4096 * r" "first_page e \<le> r" "r < top_page"
      by (auto simp: usable_page_iff [OF assms(1,2)])
    then have i: "r - first_page e < n" using assms(3) by simp
    then have "x = PGROUNDUP e + of_nat (r - first_page e) * 4096"
      using nth [OF i] r by (simp add: word_unat_eq_iff)
    then show "x \<in> set (page_run (PGROUNDUP e) n)" using i by (auto simp: page_run_def)
  qed
qed


subsection \<open>Witnesses\<close>

definition kmem_boot :: "addr_t \<Rightarrow> kmem_st" where
  "kmem_boot e = \<lparr>mem = (\<lambda>_. 0), kend = e, use_lock = False, freelist = 0\<rparr>"


definition kmem_two :: kmem_st where
  "kmem_two = kmem_boot (P2V 0x200000)\<lparr>mem := store64 (\<lambda>_. 0) (P2V 0x201000) (P2V 0x202000),
     freelist := P2V 0x201000\<rparr>"

lemma kmem_two_pages: "free_rep kmem_two [P2V 0x201000, P2V 0x202000]"
  by (simp add: free_rep_def kmem_two_def kmem_boot_def usable_page_def P2V_def V2P_def)
    (simp add: load64_def store64_def)


end
