(* ===== verification/Vm.thy ===== *)
theory Vm
  imports Kalloc
begin

section \<open>Page tables (vm.c, mmu.h)\<close>

text \<open>
  The four-level page tables of x86-64, in the byte memory of the allocator: an entry is a 64-bit
  word at an address, a table is a page. The kernel's direct map makes every physical page
  addressable at \<open>P2V\<close>, so table pages are read and written through it. A null pointer is
  address 0.
\<close>

unbundle bit_operations_syntax

record vm_st = kmem_st +
  kpml4 :: addr_t
  kpdpt :: addr_t
  cr3 :: u64
  tss_rsp0 :: u64

subsection \<open>Entries and indices (mmu.h)\<close>

definition PTE_P :: u64 where [simp]: "PTE_P = 0x001"
definition PTE_W :: u64 where [simp]: "PTE_W = 0x002"
definition PTE_U :: u64 where [simp]: "PTE_U = 0x004"
definition PTE_PWT :: u64 where [simp]: "PTE_PWT = 0x008"
definition PTE_PCD :: u64 where [simp]: "PTE_PCD = 0x010"
definition PTE_PS :: u64 where [simp]: "PTE_PS = 0x080"

definition PTE_ADDR :: "u64 \<Rightarrow> u64" where
  "PTE_ADDR pte = pte AND NOT 0xFFF"

definition PTE_FLAGS :: "u64 \<Rightarrow> u64" where
  "PTE_FLAGS pte = pte AND 0xFFF"

definition PMX :: "addr_t \<Rightarrow> u64" where
  "PMX va = drop_bit 39 va AND 0x1FF"

definition PDPX :: "addr_t \<Rightarrow> u64" where
  "PDPX va = drop_bit 30 va AND 0x1FF"

definition PDX :: "addr_t \<Rightarrow> u64" where
  "PDX va = drop_bit 21 va AND 0x1FF"

definition PTX :: "addr_t \<Rightarrow> u64" where
  "PTX va = drop_bit 12 va AND 0x1FF"

definition NPDENTRIES :: nat where [simp]: "NPDENTRIES = 512"

definition entry :: "addr_t \<Rightarrow> u64 \<Rightarrow> addr_t" where
  "entry tab idx = tab + 8 * idx"

text \<open>Bytes of memory as a list.\<close>

definition peek :: "memory \<Rightarrow> addr_t \<Rightarrow> nat \<Rightarrow> u8 list" where
  "peek m a n = map (\<lambda>i. m (a + of_nat i)) [0..<n]"

fun poke :: "memory \<Rightarrow> addr_t \<Rightarrow> u8 list \<Rightarrow> memory" where
  "poke m a [] = m"
| "poke m a (b # bs) = poke (m(a := b)) (a + 1) bs"

definition store_pte :: "addr_t \<Rightarrow> u64 \<Rightarrow> 'z kmem_st_scheme \<Rightarrow> 'z kmem_st_scheme" where
  "store_pte a v s = s\<lparr>mem := store64 (mem s) a v\<rparr>"

definition zero_page :: "addr_t \<Rightarrow> 'z kmem_st_scheme \<Rightarrow> 'z kmem_st_scheme" where
  "zero_page p s = s\<lparr>mem := memset (mem s) p 0 PGSIZE\<rparr>"

subsection \<open>Walking\<close>

text \<open>
  One level of \<open>walkpgdir\<close>: the table the entry at \<open>e\<close> points to, allocated if it is missing and
  \<open>alloc\<close> is set.
\<close>

definition walk_level :: "addr_t \<Rightarrow> bool \<Rightarrow> 'z kmem_st_scheme \<Rightarrow> (addr_t, 'z kmem_st_scheme) result" where
  "walk_level e alloc s =
     (let pte = load64 (mem s) e in
      if pte AND PTE_P \<noteq> 0 then Ok (P2V (PTE_ADDR pte)) s
      else if \<not> alloc then Ok 0 s
      else bindR (kalloc s) (\<lambda>p s.
             if p = 0 then Ok 0 s
             else Ok p (store_pte e (V2P p OR PTE_P OR PTE_W OR PTE_U) (zero_page p s))))"

definition walkpgdir :: "addr_t \<Rightarrow> addr_t \<Rightarrow> bool \<Rightarrow> 'z kmem_st_scheme \<Rightarrow> (addr_t, 'z kmem_st_scheme) result" where
  "walkpgdir pml4 va alloc s =
     bindR (walk_level (entry pml4 (PMX va)) alloc s) (\<lambda>pdp s.
     if pdp = 0 then Ok 0 s else
     bindR (walk_level (entry pdp (PDPX va)) alloc s) (\<lambda>pd s.
     if pd = 0 then Ok 0 s else
     bindR (walk_level (entry pd (PDX va)) alloc s) (\<lambda>pgtab s.
     if pgtab = 0 then Ok 0 s else Ok (entry pgtab (PTX va)) s)))"

text \<open>
  The loop of \<open>mappages\<close> from page \<open>a\<close>, with \<open>n\<close> pages to go after it. Pages are counted in 64-bit
  arithmetic, as the code's test \<open>a == last\<close> does.
\<close>

fun mappages_loop :: "nat \<Rightarrow> addr_t \<Rightarrow> addr_t \<Rightarrow> addr_t \<Rightarrow> u64 \<Rightarrow> 'z kmem_st_scheme \<Rightarrow> (int, 'z kmem_st_scheme) result" where
  "mappages_loop 0 pgdir a pa perm s =
     bindR (walkpgdir pgdir a True s) (\<lambda>pte s.
       if pte = 0 then Ok (-1) s
       else if load64 (mem s) pte AND PTE_P \<noteq> 0 then Panic ''remap''
       else Ok 0 (store_pte pte (pa OR perm OR PTE_P) s))"
| "mappages_loop (Suc n) pgdir a pa perm s =
     bindR (walkpgdir pgdir a True s) (\<lambda>pte s.
       if pte = 0 then Ok (-1) s
       else if load64 (mem s) pte AND PTE_P \<noteq> 0 then Panic ''remap''
       else mappages_loop n pgdir (a + PGSIZE) (pa + PGSIZE) perm (store_pte pte (pa OR perm OR PTE_P) s))"

definition mappages :: "addr_t \<Rightarrow> addr_t \<Rightarrow> u64 \<Rightarrow> u64 \<Rightarrow> u64 \<Rightarrow> 'z kmem_st_scheme \<Rightarrow> (int, 'z kmem_st_scheme) result" where
  "mappages pgdir va sz pa perm s =
     (let a = PGROUNDDOWN va; last = PGROUNDDOWN (va + sz - 1)
      in mappages_loop (unat ((last - a) div PGSIZE)) pgdir a pa perm s)"

subsection \<open>Kernel address spaces\<close>

definition setupkvm :: "'z vm_st_scheme \<Rightarrow> (addr_t, 'z vm_st_scheme) result" where
  "setupkvm s =
     bindR (kalloc s) (\<lambda>pml4 s.
       let s = zero_page pml4 s in
       Ok pml4 (store_pte (entry pml4 256) (V2P (kpdpt s) OR PTE_P OR PTE_W) s))"

definition switchkvm :: "'z vm_st_scheme \<Rightarrow> 'z vm_st_scheme" where
  "switchkvm s = s\<lparr>cr3 := V2P (kpml4 s)\<rparr>"

definition kvmalloc :: "'z vm_st_scheme \<Rightarrow> (unit, 'z vm_st_scheme) result" where
  "kvmalloc s =
     bindR (kalloc s) (\<lambda>p s. let s = zero_page p (s\<lparr>kpml4 := p\<rparr>) in
     bindR (kalloc s) (\<lambda>q s.
       let s = zero_page q (s\<lparr>kpdpt := q\<rparr>);
           s = store_pte (entry (kpml4 s) (PMX KERNBASE)) (V2P (kpdpt s) OR PTE_P OR PTE_W) s;
           s = store_pte (entry (kpdpt s) 0) (0 OR PTE_PS OR PTE_P OR PTE_W) s;
           s = store_pte (entry (kpdpt s) 3) (0xC0000000 OR PTE_PS OR PTE_P OR PTE_W OR PTE_PWT OR PTE_PCD) s
       in Ok () (switchkvm s)))"

subsection \<open>User memory\<close>

definition inituvm :: "addr_t \<Rightarrow> u8 list \<Rightarrow> 'z kmem_st_scheme \<Rightarrow> (unit, 'z kmem_st_scheme) result" where
  "inituvm pgdir init s =
     (if length init \<ge> 4096 then Panic ''inituvm: more than a page''
      else bindR (kalloc s) (\<lambda>p s.
           bindR (mappages pgdir PGSIZE PGSIZE (V2P p) (PTE_W OR PTE_U) (zero_page p s)) (\<lambda>_ s.
           Ok () (s\<lparr>mem := poke (mem s) p init\<rparr>))))"

text \<open>The page addresses \<open>a, a + PGSIZE, ...\<close> below \<open>e\<close>.\<close>

definition page_range :: "addr_t \<Rightarrow> addr_t \<Rightarrow> addr_t list" where
  "page_range a e = map (\<lambda>k. a + of_nat k * PGSIZE) [0..<(unat e - unat a + 4095) div 4096]"

definition dealloc_page :: "addr_t \<Rightarrow> addr_t \<Rightarrow> 'z kmem_st_scheme \<Rightarrow> (unit, 'z kmem_st_scheme) result" where
  "dealloc_page pgdir a s =
     bindR (walkpgdir pgdir a False s) (\<lambda>pte s.
       let e = load64 (mem s) pte in
       if pte \<noteq> 0 \<and> e AND PTE_P \<noteq> 0
       then if PTE_ADDR e = 0 then Panic ''kfree''
            else bindR (kfree (P2V (PTE_ADDR e)) s) (\<lambda>_ s. Ok () (store_pte pte 0 s))
       else Ok () s)"

definition deallocuvm :: "addr_t \<Rightarrow> u64 \<Rightarrow> u64 \<Rightarrow> 'z kmem_st_scheme \<Rightarrow> (u64, 'z kmem_st_scheme) result" where
  "deallocuvm pgdir oldsz newsz s =
     (if newsz \<ge> oldsz then Ok oldsz s
      else bindR (for_each (dealloc_page pgdir) (page_range (PGROUNDUP newsz) oldsz) s) (\<lambda>_ s. Ok newsz s))"

fun allocuvm_pages :: "addr_t \<Rightarrow> u64 \<Rightarrow> u64 \<Rightarrow> addr_t list \<Rightarrow> 'z kmem_st_scheme \<Rightarrow> (u64, 'z kmem_st_scheme) result" where
  "allocuvm_pages pgdir oldsz newsz [] s = Ok newsz s"
| "allocuvm_pages pgdir oldsz newsz (a # as) s =
     bindR (kalloc s) (\<lambda>p s.
       if p = 0 then bindR (deallocuvm pgdir newsz oldsz s) (\<lambda>_ s. Ok 0 s)
       else bindR (mappages pgdir a PGSIZE (V2P p) (PTE_W OR PTE_U) (zero_page p s)) (\<lambda>r s.
         if r < 0
         then bindR (deallocuvm pgdir newsz oldsz s) (\<lambda>_ s. bindR (kfree p s) (\<lambda>_ s. Ok 0 s))
         else allocuvm_pages pgdir oldsz newsz as s))"

definition allocuvm :: "addr_t \<Rightarrow> u64 \<Rightarrow> u64 \<Rightarrow> 'z kmem_st_scheme \<Rightarrow> (u64, 'z kmem_st_scheme) result" where
  "allocuvm pgdir oldsz newsz s =
     (if newsz \<ge> KERNBASE then Ok 0 s
      else if newsz < oldsz then Ok oldsz s
      else allocuvm_pages pgdir oldsz newsz (page_range (PGROUNDUP oldsz) newsz) s)"

text \<open>\<open>freevm\<close>, a loop over the present entries of a table for each level, leaves first.\<close>

definition freevm_entry :: "addr_t \<Rightarrow> (addr_t \<Rightarrow> 'z kmem_st_scheme \<Rightarrow> (unit, 'z kmem_st_scheme) result) \<Rightarrow> nat \<Rightarrow>
    'z kmem_st_scheme \<Rightarrow> (unit, 'z kmem_st_scheme) result" where
  "freevm_entry tab f i s =
     (let e = load64 (mem s) (entry tab (of_nat i)) in
      if e AND PTE_P \<noteq> 0 then f (P2V (PTE_ADDR e)) s else Ok () s)"

definition freevm_pt :: "addr_t \<Rightarrow> 'z kmem_st_scheme \<Rightarrow> (unit, 'z kmem_st_scheme) result" where
  "freevm_pt pt s = bindR (for_each (freevm_entry pt kfree) [0..<NPDENTRIES] s) (\<lambda>_ s. kfree pt s)"

definition freevm_pd :: "addr_t \<Rightarrow> 'z kmem_st_scheme \<Rightarrow> (unit, 'z kmem_st_scheme) result" where
  "freevm_pd pd s = bindR (for_each (freevm_entry pd freevm_pt) [0..<NPDENTRIES] s) (\<lambda>_ s. kfree pd s)"

definition freevm_pdp :: "addr_t \<Rightarrow> 'z kmem_st_scheme \<Rightarrow> (unit, 'z kmem_st_scheme) result" where
  "freevm_pdp pdp s = bindR (for_each (freevm_entry pdp freevm_pd) [0..<NPDENTRIES] s) (\<lambda>_ s. kfree pdp s)"

definition freevm :: "addr_t \<Rightarrow> 'z kmem_st_scheme \<Rightarrow> (unit, 'z kmem_st_scheme) result" where
  "freevm pml4 s =
     (if pml4 = 0 then Panic ''freevm: no pgdir''
      else bindR (for_each (freevm_entry pml4 freevm_pdp) [0..<NPDENTRIES div 2] s) (\<lambda>_ s. kfree pml4 s))"

definition clearpteu :: "addr_t \<Rightarrow> addr_t \<Rightarrow> 'z kmem_st_scheme \<Rightarrow> (unit, 'z kmem_st_scheme) result" where
  "clearpteu pgdir uva s =
     bindR (walkpgdir pgdir uva False s) (\<lambda>pte s.
       if pte = 0 then Panic ''clearpteu''
       else Ok () (store_pte pte (load64 (mem s) pte AND NOT PTE_U) s))"

fun copyuvm_pages :: "addr_t \<Rightarrow> addr_t \<Rightarrow> addr_t list \<Rightarrow> 'z kmem_st_scheme \<Rightarrow> (addr_t, 'z kmem_st_scheme) result" where
  "copyuvm_pages pgdir d [] s = Ok d s"
| "copyuvm_pages pgdir d (i # is) s =
     bindR (walkpgdir pgdir i False s) (\<lambda>pte s.
       if pte = 0 then Panic ''copyuvm: pte should exist''
       else let e = load64 (mem s) pte in
       if e AND PTE_P = 0 then Panic ''copyuvm: page not present''
       else bindR (kalloc s) (\<lambda>p s.
         if p = 0 then bindR (freevm d s) (\<lambda>_ s. Ok 0 s)
         else let s = s\<lparr>mem := memmove (mem s) p (P2V (PTE_ADDR e)) (ucast PGSIZE)\<rparr> in
         bindR (mappages d i PGSIZE (V2P p) (PTE_FLAGS e) s) (\<lambda>r s.
           if r < 0 then bindR (freevm d s) (\<lambda>_ s. Ok 0 s)
           else copyuvm_pages pgdir d is s)))"

text \<open>The size parameter of \<open>copyuvm\<close> is a \<open>uint\<close>: the upper half of the process size is lost.\<close>

definition copyuvm :: "addr_t \<Rightarrow> u32 \<Rightarrow> 'z vm_st_scheme \<Rightarrow> (addr_t, 'z vm_st_scheme) result" where
  "copyuvm pgdir sz s =
     bindR (setupkvm s) (\<lambda>d s.
       if d = 0 then Ok 0 s else copyuvm_pages pgdir d (page_range PGSIZE (ucast sz)) s)"

text \<open>\<open>uva2ka\<close> reads the entry without testing the pointer: a missing table is a kernel page fault.\<close>

definition uva2ka :: "addr_t \<Rightarrow> addr_t \<Rightarrow> 'z kmem_st_scheme \<Rightarrow> (addr_t, 'z kmem_st_scheme) result" where
  "uva2ka pgdir uva s =
     bindR (walkpgdir pgdir uva False s) (\<lambda>pte s.
       if pte = 0 then Panic ''trap''
       else let e = load64 (mem s) pte in
       if e AND PTE_P = 0 then Ok 0 s
       else if e AND PTE_U = 0 then Ok 0 s
       else Ok (P2V (PTE_ADDR e)) s)"

lemma page_off_bound: "unat (va - PGROUNDDOWN va) < 4096"
proof -
  have le: "unat (PGROUNDDOWN va) \<le> unat va" by (simp add: unat_PGROUNDDOWN)
  have "unat (va - PGROUNDDOWN va) = unat va - unat (PGROUNDDOWN va)" using le by (rule unat_sub_small)
  also have "\<dots> = unat va mod 4096" by (simp add: unat_PGROUNDDOWN minus_div_mult_eq_mod)
  finally show ?thesis by simp
qed

function copyout :: "addr_t \<Rightarrow> addr_t \<Rightarrow> u8 list \<Rightarrow> 'z kmem_st_scheme \<Rightarrow> (int, 'z kmem_st_scheme) result" where
  "copyout pgdir va buf s =
     (if buf = [] then Ok 0 s
      else let va0 = PGROUNDDOWN va in
      bindR (uva2ka pgdir va0 s) (\<lambda>pa0 s.
        if pa0 = 0 then Ok (-1) s
        else let n = min (4096 - unat (va - va0)) (length buf) in
             copyout pgdir (va0 + PGSIZE) (drop n buf)
               (s\<lparr>mem := poke (mem s) (pa0 + (va - va0)) (take n buf)\<rparr>)))"
  by pat_completeness auto
termination
  by (relation "measure (\<lambda>(pgdir, va, buf, s). length buf)")
    (use page_off_bound in \<open>auto simp: Suc_le_eq\<close>)

declare copyout.simps [simp del]

definition vm_boot :: vm_st where
  "vm_boot = kmem_st.extend kmem_two (vm_st.fields 0 0 0 0)"

end
