(* ===== verification/Sched.thy ===== *)
theory Sched
  imports Vm
begin

section \<open>Processes and scheduling (proc.h, proc.c)\<close>

text \<open>
  The process table and the routines that move processes between their states: sleeping,
  waking, yielding, the scheduler's choice and \<open>kill\<close>. The state is that of one CPU:
  \<open>curproc\<close> is the per-CPU variable \<open>proc\<close>. A routine that holds \<open>ptable.lock\<close> from start
  to end is one step. \<open>sched\<close> hands the CPU to the scheduler, so a routine that calls it ends
  there: \<open>sleep\<close> gives the outcome \<open>Sleeps\<close> with the state the scheduler sees.
\<close>

subsection \<open>Data\<close>

record trapframe =
  tf_rax :: u64
  tf_rbx :: u64
  tf_rcx :: u64
  tf_rdx :: u64
  tf_rbp :: u64
  tf_rsi :: u64
  tf_rdi :: u64
  tf_r8 :: u64
  tf_r9 :: u64
  tf_r10 :: u64
  tf_r11 :: u64
  tf_r12 :: u64
  tf_r13 :: u64
  tf_r14 :: u64
  tf_r15 :: u64
  tf_trapno :: u64
  tf_err :: u64
  tf_rip :: u64
  tf_cs :: u64
  tf_rflags :: u64
  tf_rsp :: u64
  tf_ss :: u64

text \<open>
  Saved registers of a kernel context. The only code address that the C code stores in one is
  \<open>forkret\<close>; the others are return addresses that \<open>swtch\<close> pushes.
\<close>

datatype ktext = ForkretText | ReturnText u64

record kcontext =
  c_r15 :: u64
  c_r14 :: u64
  c_r13 :: u64
  c_r12 :: u64
  c_rbx :: u64
  c_rbp :: u64
  c_rip :: ktext

datatype procstate = UNUSED | EMBRYO | SLEEPING | RUNNABLE | RUNNING | ZOMBIE

text \<open>
  Pointers to table entries (parent, open files, current directory) are their indices,
  with None for the null pointer.
\<close>

record proc =
  p_sz :: u64
  p_pgdir :: addr_t
  p_kstack :: addr_t
  p_state :: procstate
  p_pid :: int
  p_parent :: "nat option"
  p_tf :: trapframe
  p_context :: kcontext
  p_chan :: "chan option"
  p_killed :: bool
  p_ofile :: "nat \<Rightarrow> nat option"
  p_cwd :: "nat option"
  p_name :: "u8 list"

record sched_st = vm_st +
  ptable :: "nat \<Rightarrow> proc"
  nextpid :: int
  initproc :: "nat option"
  curproc :: "nat option"

definition upd_proc :: "nat \<Rightarrow> (proc \<Rightarrow> proc) \<Rightarrow> 'z sched_st_scheme \<Rightarrow> 'z sched_st_scheme" where
  "upd_proc i f s = s\<lparr>ptable := (ptable s)(i := f (ptable s i))\<rparr>"

subsection \<open>Sleep and wakeup\<close>

definition sleep :: "chan \<Rightarrow> 'z sched_st_scheme \<Rightarrow> ('a, 'z sched_st_scheme) result" where
  "sleep chan s =
     (case curproc s of
        None \<Rightarrow> Panic ''sleep''
      | Some p \<Rightarrow> Sleeps chan (upd_proc p (\<lambda>q. q\<lparr>p_chan := Some chan, p_state := SLEEPING\<rparr>) s))"

text \<open>What \<open>sleep\<close> does when the scheduler has switched back to it.\<close>

definition sleep_return :: "'z sched_st_scheme \<Rightarrow> 'z sched_st_scheme" where
  "sleep_return s =
     (case curproc s of None \<Rightarrow> s | Some p \<Rightarrow> upd_proc p (\<lambda>q. q\<lparr>p_chan := None\<rparr>) s)"

definition wakeup1 :: "chan \<Rightarrow> 'z sched_st_scheme \<Rightarrow> 'z sched_st_scheme" where
  "wakeup1 chan s =
     s\<lparr>ptable := (\<lambda>i. let p = ptable s i
        in if i < NPROC \<and> p_state p = SLEEPING \<and> p_chan p = Some chan
           then p\<lparr>p_state := RUNNABLE\<rparr> else p)\<rparr>"

definition wakeup :: "chan \<Rightarrow> 'z sched_st_scheme \<Rightarrow> 'z sched_st_scheme" where
  "wakeup chan s = wakeup1 chan s"

subsection \<open>Kill\<close>

definition kill :: "int \<Rightarrow> 'z sched_st_scheme \<Rightarrow> int \<times> 'z sched_st_scheme" where
  "kill pid s =
     (case first_slot NPROC (\<lambda>i. p_pid (ptable s i) = pid) of
        None \<Rightarrow> (-1, s)
      | Some i \<Rightarrow>
          (0, upd_proc i (\<lambda>p. let p = p\<lparr>p_killed := True\<rparr>
                               in if p_state p = SLEEPING then p\<lparr>p_state := RUNNABLE\<rparr> else p) s))"

subsection \<open>Yield and the scheduler\<close>

text \<open>\<open>yield\<close> up to the switch into the scheduler.\<close>

definition yield :: "'z sched_st_scheme \<Rightarrow> 'z sched_st_scheme" where
  "yield s =
     (case curproc s of None \<Rightarrow> s | Some p \<Rightarrow> upd_proc p (\<lambda>q. q\<lparr>p_state := RUNNABLE\<rparr>) s)"

text \<open>\<open>switchuvm\<close>: the kernel stack for traps and the page table of process \<open>i\<close>.\<close>

definition switchuvm :: "nat \<Rightarrow> 'z sched_st_scheme \<Rightarrow> (unit, 'z sched_st_scheme) result" where
  "switchuvm i s =
     (let p = ptable s i in
      if p_pgdir p = 0 then Panic ''switchuvm: no pgdir''
      else Ok () (s\<lparr>tss_rsp0 := p_kstack p + KSTACKSIZE, cr3 := V2P (p_pgdir p)\<rparr>))"

text \<open>
  One turn of the scheduler's scan from table position \<open>k\<close>: the first runnable process at or
  after \<open>k\<close> becomes the running one, up to \<open>swtch\<close>. None: the scan ends without one.
\<close>

definition scheduler_from :: "nat \<Rightarrow> 'z sched_st_scheme \<Rightarrow> (nat option, 'z sched_st_scheme) result" where
  "scheduler_from k s =
     (case first_slot NPROC (\<lambda>i. k \<le> i \<and> p_state (ptable s i) = RUNNABLE) of
        None \<Rightarrow> Ok None s
      | Some i \<Rightarrow>
          bindR (switchuvm i (s\<lparr>curproc := Some i\<rparr>)) (\<lambda>_ s.
            Ok (Some i) (upd_proc i (\<lambda>p. p\<lparr>p_state := RUNNING\<rparr>) s)))"

text \<open>What the scheduler does when a process has switched back to it.\<close>

definition scheduler_return :: "'z sched_st_scheme \<Rightarrow> 'z sched_st_scheme" where
  "scheduler_return s = (switchkvm s)\<lparr>curproc := None\<rparr>"

subsection \<open>Frame facts\<close>

lemma upd_proc_simps [simp]:
  "ptable (upd_proc i f s) = (ptable s)(i := f (ptable s i))"
  "nextpid (upd_proc i f s) = nextpid s"
  "initproc (upd_proc i f s) = initproc s"
  "curproc (upd_proc i f s) = curproc s"
  "mem (upd_proc i f s) = mem s"
  "kend (upd_proc i f s) = kend s"
  "freelist (upd_proc i f s) = freelist s"
  "sched_st.more (upd_proc i f s) = sched_st.more s"
  by (simp_all add: upd_proc_def)

lemma wakeup_simps [simp]:
  "nextpid (wakeup c s) = nextpid s"
  "initproc (wakeup c s) = initproc s"
  "curproc (wakeup c s) = curproc s"
  "mem (wakeup c s) = mem s"
  "kend (wakeup c s) = kend s"
  "freelist (wakeup c s) = freelist s"
  "sched_st.more (wakeup c s) = sched_st.more s"
  by (simp_all add: wakeup_def wakeup1_def)

lemma ptable_wakeup:
  "ptable (wakeup c s) i =
     (if i < NPROC \<and> p_state (ptable s i) = SLEEPING \<and> p_chan (ptable s i) = Some c
      then (ptable s i)\<lparr>p_state := RUNNABLE\<rparr> else ptable s i)"
  by (simp add: wakeup_def wakeup1_def Let_def)

text \<open>A routine that only wakes processes up changes nothing of a process but its state.\<close>

definition woken :: "'z sched_st_scheme \<Rightarrow> 'z sched_st_scheme \<Rightarrow> bool" where
  "woken s s' \<longleftrightarrow> (\<forall>i. ptable s' i = (ptable s i)\<lparr>p_state := p_state (ptable s' i)\<rparr>)"

lemma woken_eqI: "ptable s' = ptable s \<Longrightarrow> woken s s'"
  by (simp add: woken_def)

lemma woken_trans: "woken s t \<Longrightarrow> woken t u \<Longrightarrow> woken s u"
  unfolding woken_def by (metis (no_types, lifting) proc.surjective proc.update_convs(4))

lemma woken_wakeup: "woken s (wakeup c s)"
  by (simp add: woken_def ptable_wakeup)

subsection \<open>A process table for examples\<close>

text \<open>All slots zero but the first, in which process 1 is running.\<close>

definition zero_tf :: trapframe where
  "zero_tf = \<lparr>tf_rax = 0, tf_rbx = 0, tf_rcx = 0, tf_rdx = 0, tf_rbp = 0, tf_rsi = 0, tf_rdi = 0,
     tf_r8 = 0, tf_r9 = 0, tf_r10 = 0, tf_r11 = 0, tf_r12 = 0, tf_r13 = 0, tf_r14 = 0, tf_r15 = 0,
     tf_trapno = 0, tf_err = 0, tf_rip = 0, tf_cs = 0, tf_rflags = 0, tf_rsp = 0, tf_ss = 0\<rparr>"

definition zero_context :: kcontext where
  "zero_context = \<lparr>c_r15 = 0, c_r14 = 0, c_r13 = 0, c_r12 = 0, c_rbx = 0, c_rbp = 0, c_rip = ReturnText 0\<rparr>"

definition zero_proc :: proc where
  "zero_proc = \<lparr>p_sz = 0, p_pgdir = 0, p_kstack = 0, p_state = UNUSED, p_pid = 0, p_parent = None,
     p_tf = zero_tf, p_context = zero_context, p_chan = None, p_killed = False, p_ofile = (\<lambda>_. None), p_cwd = None,
     p_name = replicate 16 0\<rparr>"

definition sched_boot :: sched_st where
  "sched_boot = vm_st.extend vm_boot
     (sched_st.fields ((\<lambda>_. zero_proc)(0 := zero_proc\<lparr>p_state := RUNNING, p_pid := 1\<rparr>)) 2 (Some 0) (Some 0))"

lemma sched_boot_simps [simp]:
  "ptable sched_boot = (\<lambda>_. zero_proc)(0 := zero_proc\<lparr>p_state := RUNNING, p_pid := 1\<rparr>)"
  "nextpid sched_boot = 2" "initproc sched_boot = Some 0" "curproc sched_boot = Some 0"
  by (simp_all add: sched_boot_def vm_boot_def kmem_st.defs vm_st.defs sched_st.defs)

end
