(* ===== verification/Sleeplock.thy ===== *)
theory Sleeplock
  imports Sched
begin

section \<open>Sleep locks (sleeplock.c)\<close>

text \<open>
  A sleep lock lives inside the object it protects, so each routine takes the lock's channel
  (its address), a function that reads it and one that updates it. The spin lock \<open>lk->lk\<close>
  only makes each routine atomic.
\<close>

record sleeplock =
  sl_locked :: bool
  sl_pid :: int

definition initsleeplock :: sleeplock where
  "initsleeplock = \<lparr>sl_locked = False, sl_pid = 0\<rparr>"

text \<open>
  Taking a held lock puts the caller to sleep on the lock; it tries again when woken. The
  holder's pid is read through \<open>proc\<close>: with no current process that is a kernel page fault,
  which ends in \<open>panic("trap")\<close>.
\<close>

definition acquiresleep ::
  "chan \<Rightarrow> ('z sched_st_scheme \<Rightarrow> sleeplock) \<Rightarrow>
   ((sleeplock \<Rightarrow> sleeplock) \<Rightarrow> 'z sched_st_scheme \<Rightarrow> 'z sched_st_scheme) \<Rightarrow>
   'z sched_st_scheme \<Rightarrow> (unit, 'z sched_st_scheme) result" where
  "acquiresleep ch get upd s =
     (if sl_locked (get s) then sleep ch s
      else case curproc s of
             None \<Rightarrow> Panic ''trap''
           | Some p \<Rightarrow> Ok () (upd (\<lambda>l. l\<lparr>sl_locked := True, sl_pid := p_pid (ptable s p)\<rparr>) s))"

definition releasesleep ::
  "chan \<Rightarrow> ((sleeplock \<Rightarrow> sleeplock) \<Rightarrow> 'z sched_st_scheme \<Rightarrow> 'z sched_st_scheme) \<Rightarrow>
   'z sched_st_scheme \<Rightarrow> 'z sched_st_scheme" where
  "releasesleep ch upd s = wakeup ch (upd (\<lambda>l. l\<lparr>sl_locked := False, sl_pid := 0\<rparr>) s)"

definition holdingsleep :: "('z sched_st_scheme \<Rightarrow> sleeplock) \<Rightarrow> 'z sched_st_scheme \<Rightarrow> bool" where
  "holdingsleep get s = sl_locked (get s)"

end
