(* ===== verification/Bio.thy ===== *)
theory Bio
  imports Sleeplock
begin

section \<open>Buffer cache and in-memory disk (buf.h, bio.c, memide.c)\<close>

text \<open>
  The cache is an array of \<open>NBUF\<close> buffers on a doubly linked ring, most recently used first.
  The ring is kept in the \<open>prev\<close> and \<open>next\<close> fields as in the source: buffers are named by their
  array index and index \<open>NBUF\<close> is \<open>bcache.head\<close>. The disk is memide.c's memory disk, by
  blocks. The ghost field \<open>dwrites\<close> records the writes that reached the disk, oldest first;
  nothing reads it.
\<close>

subsection \<open>Data\<close>

text \<open>The two bits of \<open>flags\<close> are two fields.\<close>

record buf =
  b_valid :: bool
  b_dirty :: bool
  b_dev :: nat
  b_blockno :: nat
  b_lock :: sleeplock
  b_refcnt :: nat
  b_prev :: nat
  b_next :: nat
  b_data :: "u8 list"

record bio_st = sched_st +
  bufs :: "nat \<Rightarrow> buf"
  disk :: "nat \<Rightarrow> u8 list"
  disksize :: nat
  dwrites :: "(nat \<times> u8 list) list"

definition HEAD :: nat where
  "HEAD = NBUF"

definition upd_buf :: "nat \<Rightarrow> (buf \<Rightarrow> buf) \<Rightarrow> 'z bio_st_scheme \<Rightarrow> 'z bio_st_scheme" where
  "upd_buf i f s = s\<lparr>bufs := (bufs s)(i := f (bufs s i))\<rparr>"

definition upd_block :: "nat \<Rightarrow> (sleeplock \<Rightarrow> sleeplock) \<Rightarrow> 'z bio_st_scheme \<Rightarrow> 'z bio_st_scheme" where
  "upd_block i f = upd_buf i (\<lambda>b. b\<lparr>b_lock := f (b_lock b)\<rparr>)"

text \<open>Assignments to the links of a buffer.\<close>

definition set_next :: "nat \<Rightarrow> nat \<Rightarrow> 'z bio_st_scheme \<Rightarrow> 'z bio_st_scheme" where
  "set_next i v = upd_buf i (\<lambda>b. b\<lparr>b_next := v\<rparr>)"

definition set_prev :: "nat \<Rightarrow> nat \<Rightarrow> 'z bio_st_scheme \<Rightarrow> 'z bio_st_scheme" where
  "set_prev i v = upd_buf i (\<lambda>b. b\<lparr>b_prev := v\<rparr>)"

subsection \<open>binit\<close>

definition binit_step :: "nat \<Rightarrow> 'z bio_st_scheme \<Rightarrow> 'z bio_st_scheme" where
  "binit_step b s =
     (let s = set_next b (b_next (bufs s HEAD)) s;
          s = set_prev b HEAD s;
          s = upd_block b (\<lambda>_. initsleeplock) s;
          s = set_prev (b_next (bufs s HEAD)) b s
      in set_next HEAD b s)"

definition binit :: "'z bio_st_scheme \<Rightarrow> 'z bio_st_scheme" where
  "binit s = fold binit_step [0..<NBUF] (set_next HEAD HEAD (set_prev HEAD HEAD s))"

subsection \<open>The disk driver (memide.c)\<close>

definition iderw :: "nat \<Rightarrow> 'z bio_st_scheme \<Rightarrow> (unit, 'z bio_st_scheme) result" where
  "iderw b s =
     (let bf = bufs s b in
      if \<not> holdingsleep (\<lambda>s. b_lock (bufs s b)) s then Panic ''iderw: buf not locked''
      else if b_valid bf \<and> \<not> b_dirty bf then Panic ''iderw: nothing to do''
      else if b_dev bf \<noteq> 1 then Panic ''iderw: request not for disk 1''
      else if b_blockno bf \<ge> disksize s then Panic ''iderw: block out of range''
      else if b_dirty bf
      then Ok () (upd_buf b (\<lambda>x. x\<lparr>b_dirty := False, b_valid := True\<rparr>)
                   (s\<lparr>disk := (disk s)(b_blockno bf := b_data bf),
                      dwrites := dwrites s @ [(b_blockno bf, b_data bf)]\<rparr>))
      else Ok () (upd_buf b (\<lambda>x. x\<lparr>b_data := disk s (b_blockno bf), b_valid := True\<rparr>) s))"

subsection \<open>bget, bread, bwrite, brelse\<close>

text \<open>
  A walk along the ring from buffer \<open>b\<close> by \<open>nx\<close> up to the head: the first buffer satisfying
  \<open>P\<close>, or none. One unit of fuel per buffer; running out of it is the outcome None.
\<close>

fun bscan :: "nat \<Rightarrow> (nat \<Rightarrow> nat) \<Rightarrow> (nat \<Rightarrow> bool) \<Rightarrow> nat \<Rightarrow> nat option option" where
  "bscan 0 nx P b = None"
| "bscan (Suc fuel) nx P b =
     (if b = HEAD then Some None
      else if P b then Some (Some b)
      else bscan fuel nx P (nx b))"

definition bacquire :: "nat \<Rightarrow> 'z bio_st_scheme \<Rightarrow> (nat, 'z bio_st_scheme) result" where
  "bacquire b s =
     bindR (acquiresleep (BufLockChan b) (\<lambda>s. b_lock (bufs s b)) (upd_block b) s) (\<lambda>_ s. Ok b s)"

definition bget :: "nat \<Rightarrow> nat \<Rightarrow> 'z bio_st_scheme \<Rightarrow> (nat, 'z bio_st_scheme) result" where
  "bget dev blockno s =
     (case bscan (Suc NBUF) (\<lambda>i. b_next (bufs s i))
             (\<lambda>i. b_dev (bufs s i) = dev \<and> b_blockno (bufs s i) = blockno)
             (b_next (bufs s HEAD)) of
        None \<Rightarrow> Stuck
      | Some (Some b) \<Rightarrow> bacquire b (upd_buf b (\<lambda>x. x\<lparr>b_refcnt := b_refcnt x + 1\<rparr>) s)
      | Some None \<Rightarrow>
          (case bscan (Suc NBUF) (\<lambda>i. b_prev (bufs s i))
                  (\<lambda>i. b_refcnt (bufs s i) = 0 \<and> \<not> b_dirty (bufs s i))
                  (b_prev (bufs s HEAD)) of
             None \<Rightarrow> Stuck
           | Some (Some b) \<Rightarrow>
               bacquire b (upd_buf b (\<lambda>x. x\<lparr>b_dev := dev, b_blockno := blockno,
                                           b_valid := False, b_dirty := False, b_refcnt := 1\<rparr>) s)
           | Some None \<Rightarrow> Panic ''bget: no buffers''))"

definition bread :: "nat \<Rightarrow> nat \<Rightarrow> 'z bio_st_scheme \<Rightarrow> (nat, 'z bio_st_scheme) result" where
  "bread dev blockno s =
     bindR (bget dev blockno s) (\<lambda>b s.
       if \<not> b_valid (bufs s b) then bindR (iderw b s) (\<lambda>_ s. Ok b s) else Ok b s)"

definition bwrite :: "nat \<Rightarrow> 'z bio_st_scheme \<Rightarrow> (unit, 'z bio_st_scheme) result" where
  "bwrite b s =
     (if \<not> holdingsleep (\<lambda>s. b_lock (bufs s b)) s then Panic ''bwrite''
      else iderw b (upd_buf b (\<lambda>x. x\<lparr>b_dirty := True\<rparr>) s))"

text \<open>Taking buffer \<open>b\<close> out of the ring and putting it behind the head.\<close>

definition move_to_front :: "nat \<Rightarrow> 'z bio_st_scheme \<Rightarrow> 'z bio_st_scheme" where
  "move_to_front b s =
     (let s = set_prev (b_next (bufs s b)) (b_prev (bufs s b)) s;
          s = set_next (b_prev (bufs s b)) (b_next (bufs s b)) s;
          s = set_next b (b_next (bufs s HEAD)) s;
          s = set_prev b HEAD s;
          s = set_prev (b_next (bufs s HEAD)) b s
      in set_next HEAD b s)"

definition brelse :: "nat \<Rightarrow> 'z bio_st_scheme \<Rightarrow> (unit, 'z bio_st_scheme) result" where
  "brelse b s =
     (if \<not> holdingsleep (\<lambda>s. b_lock (bufs s b)) s then Panic ''brelse''
      else let s = releasesleep (BufLockChan b) (upd_block b) s;
               s = upd_buf b (\<lambda>x. x\<lparr>b_refcnt := b_refcnt x - 1\<rparr>) s
           in Ok () (if b_refcnt (bufs s b) = 0 then move_to_front b s else s))"

text \<open>Changing the bytes of a buffer one holds: \<open>memmove(bp->data + off, src, n)\<close> and the like.\<close>

definition set_data :: "nat \<Rightarrow> u8 list \<Rightarrow> 'z bio_st_scheme \<Rightarrow> 'z bio_st_scheme" where
  "set_data b d s = upd_buf b (\<lambda>x. x\<lparr>b_data := d\<rparr>) s"

subsection \<open>The ring\<close>

text \<open>\<open>linked f x ys z\<close>: following \<open>f\<close> from \<open>x\<close> visits \<open>ys\<close> and then \<open>z\<close>.\<close>

fun linked :: "(nat \<Rightarrow> nat) \<Rightarrow> nat \<Rightarrow> nat list \<Rightarrow> nat \<Rightarrow> bool" where
  "linked f x [] z \<longleftrightarrow> f x = z"
| "linked f x (y # ys) z \<longleftrightarrow> f x = y \<and> linked f y ys z"

definition ring :: "(nat \<Rightarrow> nat) \<Rightarrow> (nat \<Rightarrow> nat) \<Rightarrow> nat list \<Rightarrow> bool" where
  "ring nx pv xs \<longleftrightarrow> linked nx HEAD xs HEAD \<and> linked pv HEAD (rev xs) HEAD \<and> distinct (HEAD # xs)"

lemma linked_append_Cons:
  "linked f x (ys @ y # zs) z \<longleftrightarrow> linked f x ys y \<and> linked f y zs z"
  by (induction ys arbitrary: x) auto

lemma linked_frame: "u \<notin> set (x # ys) \<Longrightarrow> linked (f(u := v)) x ys z = linked f x ys z"
  by (induction ys arbitrary: x) auto

lemma linked_retarget:
  "linked f x ys z \<Longrightarrow> distinct (x # ys) \<Longrightarrow> linked (f(last (x # ys) := w)) x ys w"
proof (induction ys arbitrary: x)
  case (Cons y ys)
  then have "last (x # y # ys) \<noteq> x" by (metis distinct.simps(2) last_ConsR last_in_set list.discI)
  with Cons show ?case by simp
qed simp

lemma linked_first: "linked f x ys z \<Longrightarrow> f x = hd (ys @ [z])"
  by (cases ys) auto

lemma linked_last: "linked f x ys z \<Longrightarrow> f (last (x # ys)) = z"
  by (induction ys arbitrary: x) auto

lemma linked_glue: "linked f x ys (hd (zs @ [z])) \<Longrightarrow> zs = [] \<or> linked f (hd zs) (tl zs) z \<Longrightarrow> linked f x (ys @ zs) z"
  by (cases zs) (auto simp: linked_append_Cons)

lemma linked_unlink:
  assumes l: "linked f h (as @ b # cs) h" and d: "distinct (h # as @ b # cs)"
  shows "linked (f(last (h # as) := f b)) h (as @ cs) h"
proof (rule linked_glue)
  let ?u = "last (h # as)"
  have la: "linked f h as b" and lb: "linked f b cs h" using l by (simp_all add: linked_append_Cons)
  have fb: "f b = hd (cs @ [h])" using linked_first [OF lb] .
  have "linked (f(?u := f b)) h as (f b)" using la d by (intro linked_retarget) auto
  then show "linked (f(?u := f b)) h as (hd (cs @ [h]))" using fb by simp
  show "cs = [] \<or> linked (f(?u := f b)) (hd cs) (tl cs) h"
  proof (cases cs)
    case (Cons c cs')
    have "?u \<in> set (h # as)" by (rule last_in_set) simp
    then have "?u \<notin> set (c # cs')" using d Cons by auto
    then show ?thesis using lb Cons by (simp add: linked_frame)
  qed simp
qed

lemma linked_push: "linked f h xs h \<Longrightarrow> b \<notin> set (h # xs) \<Longrightarrow> distinct (h # xs) \<Longrightarrow>
    linked (f(b := f h, h := b)) h (b # xs) h"
  by (cases xs) (auto simp: linked_frame)

lemma linked_snoc:
  assumes "linked g h ys h" and "b \<notin> set (h # ys)" and "distinct (h # ys)"
  shows "linked (g(b := h, last (h # ys) := b)) h (ys @ [b]) h"
proof -
  let ?l = "last (h # ys)"
  have "?l \<in> set (h # ys)" by (rule last_in_set) simp
  then have "b \<noteq> ?l" using assms(2) by blast
  have "linked (g(b := h)) h ys h" using assms by (simp add: linked_frame)
  then have "linked (g(b := h, ?l := b)) h ys b" using assms(3) by (rule linked_retarget)
  then show ?thesis using \<open>b \<noteq> ?l\<close> by (simp add: linked_append_Cons)
qed

lemma bscan_linked:
  "linked nx x xs HEAD \<Longrightarrow> HEAD \<notin> set xs \<Longrightarrow> length xs < fuel \<Longrightarrow>
     bscan fuel nx P (nx x) = Some (find P xs)"
proof (induction xs arbitrary: x fuel)
  case Nil
  then show ?case by (cases fuel) auto
next
  case (Cons y xs)
  then show ?case by (cases fuel) auto
qed

lemma ring_unlink:
  assumes "ring nx pv (as @ b # cs)"
  shows "ring (nx(pv b := nx b)) (pv(nx b := pv b)) (as @ cs)"
    and "pv b = last (HEAD # as)" and "nx b = hd (cs @ [HEAD])"
proof -
  have n: "linked nx HEAD (as @ b # cs) HEAD" and p: "linked pv HEAD (rev cs @ b # rev as) HEAD"
    and d: "distinct (HEAD # as @ b # cs)" using assms by (simp_all add: ring_def)
  have lp: "linked pv b (rev as) HEAD" and ln: "linked nx b cs HEAD"
    using n p by (simp_all add: linked_append_Cons)
  show pb: "pv b = last (HEAD # as)"
    using linked_first [OF lp] by (cases as rule: rev_cases) auto
  show nb: "nx b = hd (cs @ [HEAD])" using linked_first [OF ln] .
  have nb': "nx b = last (HEAD # rev cs)" using nb by (cases cs) auto
  have "linked (nx(pv b := nx b)) HEAD (as @ cs) HEAD"
    using linked_unlink [OF n d] pb by simp
  moreover have "linked (pv(nx b := pv b)) HEAD (rev cs @ rev as) HEAD"
    using linked_unlink [OF p] d nb' by (simp add: Int_commute)
  ultimately show "ring (nx(pv b := nx b)) (pv(nx b := pv b)) (as @ cs)"
    using d by (simp add: ring_def)
qed

lemma ring_push:
  assumes "ring nx pv xs" and "b \<notin> set (HEAD # xs)"
  shows "ring (nx(b := nx HEAD, HEAD := b)) (pv(b := HEAD, nx HEAD := b)) (b # xs)"
proof -
  have n: "linked nx HEAD xs HEAD" and p: "linked pv HEAD (rev xs) HEAD"
    and d: "distinct (HEAD # xs)" using assms(1) by (simp_all add: ring_def)
  have nh: "nx HEAD = last (HEAD # rev xs)" using linked_first [OF n] by (cases xs) auto
  have "linked (pv(b := HEAD, last (HEAD # rev xs) := b)) HEAD (rev xs @ [b]) HEAD"
    using p assms(2) d by (intro linked_snoc) auto
  then show ?thesis
    using linked_push [OF n assms(2) d] assms(2) d nh by (simp add: ring_def)
qed

subsection \<open>What each primitive step changes\<close>

abbreviation nxt :: "'z bio_st_scheme \<Rightarrow> nat \<Rightarrow> nat" where
  "nxt s \<equiv> \<lambda>i. b_next (bufs s i)"

abbreviation prv :: "'z bio_st_scheme \<Rightarrow> nat \<Rightarrow> nat" where
  "prv s \<equiv> \<lambda>i. b_prev (bufs s i)"

text \<open>The content of a buffer, its place in the ring apart.\<close>

definition bcore :: "buf \<Rightarrow> buf" where
  "bcore b = b\<lparr>b_prev := 0, b_next := 0\<rparr>"

lemma bcore_eqD:
  assumes "bcore b = bcore c"
  shows "b_valid b = b_valid c" "b_dirty b = b_dirty c" "b_dev b = b_dev c"
    "b_blockno b = b_blockno c" "b_lock b = b_lock c" "b_refcnt b = b_refcnt c" "b_data b = b_data c"
  using assms by (cases b; cases c; simp add: bcore_def)+

lemma upd_buf_simps [simp]:
  "bufs (upd_buf i f s) = (bufs s)(i := f (bufs s i))"
  "disk (upd_buf i f s) = disk s"
  "disksize (upd_buf i f s) = disksize s"
  "dwrites (upd_buf i f s) = dwrites s"
  "curproc (upd_buf i f s) = curproc s"
  "ptable (upd_buf i f s) = ptable s"
  "bio_st.more (upd_buf i f s) = bio_st.more s"
  by (simp_all add: upd_buf_def)

lemma link_set [simp]:
  "b_next (bufs (set_next i v s) j) = (if j = i then v else b_next (bufs s j))"
  "b_next (bufs (set_prev i v s) j) = b_next (bufs s j)"
  "b_next (bufs (upd_block i f s) j) = b_next (bufs s j)"
  "b_prev (bufs (set_prev i v s) j) = (if j = i then v else b_prev (bufs s j))"
  "b_prev (bufs (set_next i v s) j) = b_prev (bufs s j)"
  "b_prev (bufs (upd_block i f s) j) = b_prev (bufs s j)"
  by (auto simp: set_next_def set_prev_def upd_block_def)

lemma core_set [simp]:
  "bcore (bufs (set_next i v s) j) = bcore (bufs s j)"
  "bcore (bufs (set_prev i v s) j) = bcore (bufs s j)"
  by (simp_all add: set_next_def set_prev_def bcore_def)

lemma move_to_front_core: "bcore (bufs (move_to_front b s) j) = bcore (bufs s j)"
  by (simp only: move_to_front_def Let_def core_set)

lemma move_to_front_ring:
  assumes "ring (nxt s) (prv s) (as @ b # cs)"
  shows "ring (nxt (move_to_front b s)) (prv (move_to_front b s)) (b # as @ cs)"
proof -
  define n where "n = nxt s"
  define p where "p = prv s"
  let ?n1 = "n(p b := n b)" and ?p1 = "p(n b := p b)"
  note r = assms [folded n_def p_def]
  note u = ring_unlink [OF r]
  have b: "b \<notin> set (HEAD # as @ cs)" using assms by (auto simp: ring_def)
  have nb: "n b \<noteq> b" using u(3) b by (cases cs) auto
  have pb: "p b \<noteq> b" using u(2) b by (cases as rule: rev_cases) auto
  have "nxt (move_to_front b s) = ?n1(b := ?n1 HEAD, HEAD := b)"
    and "prv (move_to_front b s) = ?p1(b := HEAD, ?n1 HEAD := b)"
    using b nb pb by (simp_all add: move_to_front_def Let_def n_def p_def fun_eq_iff)
  then show ?thesis using ring_push [OF u(1) b] by simp
qed

lemma binit_step_ring:
  assumes "ring (nxt s) (prv s) xs" and "b \<notin> set (HEAD # xs)"
  shows "ring (nxt (binit_step b s)) (prv (binit_step b s)) (b # xs)"
proof -
  have "nxt (binit_step b s) = (nxt s)(b := nxt s HEAD, HEAD := b)"
    and "prv (binit_step b s) = (prv s)(b := HEAD, nxt s HEAD := b)"
    using assms(2) by (simp_all add: binit_step_def Let_def fun_eq_iff)
  then show ?thesis using ring_push [OF assms] by simp
qed

subsection \<open>The cache as its clients see it\<close>

text \<open>
  \<open>bview s n\<close> is the current content of block \<open>n\<close>: that of the valid buffer caching it, or
  the disk's. \<open>held\<close> are the blocks some buffer of which is locked, \<open>pinned\<close> those waiting in
  a dirty buffer for the log to write them.
\<close>

definition bview :: "'z bio_st_scheme \<Rightarrow> nat \<Rightarrow> u8 list" where
  "bview s n =
     (case first_slot NBUF (\<lambda>i. b_valid (bufs s i) \<and> b_blockno (bufs s i) = n) of
        Some i \<Rightarrow> b_data (bufs s i) | None \<Rightarrow> disk s n)"

definition held :: "'z bio_st_scheme \<Rightarrow> nat set" where
  "held s = (\<lambda>i. b_blockno (bufs s i)) ` {i. i < NBUF \<and> sl_locked (b_lock (bufs s i))}"

definition pinned :: "'z bio_st_scheme \<Rightarrow> nat set" where
  "pinned s = (\<lambda>i. b_blockno (bufs s i)) ` {i. i < NBUF \<and> b_dirty (bufs s i)}"

definition holds :: "'z bio_st_scheme \<Rightarrow> nat \<Rightarrow> nat \<Rightarrow> bool" where
  "holds s b n \<longleftrightarrow> b < NBUF \<and> sl_locked (b_lock (bufs s b)) \<and> b_blockno (bufs s b) = n"

text \<open>
  The invariant between cache operations when no process is inside one: a buffer is
  referenced exactly while locked, valid exactly when it belongs to the disk, and a clean
  buffer nobody holds has the disk's content.
\<close>

definition buf_ok :: "'z bio_st_scheme \<Rightarrow> buf \<Rightarrow> bool" where
  "buf_ok s b \<longleftrightarrow>
     length (b_data b) = BSIZE \<and>
     b_refcnt b = (if sl_locked (b_lock b) then 1 else 0) \<and>
     (b_valid b \<longleftrightarrow> b_dev b = 1) \<and>
     (b_dirty b \<or> sl_locked (b_lock b) \<longrightarrow> b_valid b) \<and>
     (b_valid b \<longrightarrow> b_blockno b < disksize s) \<and>
     (b_valid b \<and> \<not> b_dirty b \<and> \<not> sl_locked (b_lock b) \<longrightarrow> b_data b = disk s (b_blockno b))"

definition bcache_ok :: "'z bio_st_scheme \<Rightarrow> bool" where
  "bcache_ok s \<longleftrightarrow>
     (\<exists>xs. ring (nxt s) (prv s) xs \<and> set xs = {0..<NBUF}) \<and>
     (\<forall>i<NBUF. buf_ok s (bufs s i)) \<and>
     (\<forall>i<NBUF. \<forall>j<NBUF. b_valid (bufs s i) \<and> b_valid (bufs s j) \<and>
        b_blockno (bufs s i) = b_blockno (bufs s j) \<longrightarrow> i = j) \<and>
     (\<forall>n. length (disk s n) = BSIZE)"

text \<open>What cache operations leave alone: everything but the cache, the disk and wakeups.\<close>

definition bframe :: "'z bio_st_scheme \<Rightarrow> 'z bio_st_scheme \<Rightarrow> bool" where
  "bframe s s' \<longleftrightarrow> woken s s' \<and>
     (\<exists>pt bf d w. s' = s\<lparr>ptable := pt, bufs := bf, disk := d, dwrites := w\<rparr>)"

lemma bframeD:
  assumes "bframe s s'"
  shows "curproc s' = curproc s" "disksize s' = disksize s" "bio_st.more s' = bio_st.more s" "woken s s'"
    "mem s' = mem s" "kend s' = kend s" "use_lock s' = use_lock s" "freelist s' = freelist s"
    "nextpid s' = nextpid s" "initproc s' = initproc s"
  using assms unfolding bframe_def by auto

lemma bframe_refl [simp]: "bframe s s"
proof -
  have "s = s\<lparr>ptable := ptable s, bufs := bufs s, disk := disk s, dwrites := dwrites s\<rparr>" by simp
  then show ?thesis unfolding bframe_def by (blast intro: woken_eqI)
qed

lemma bframe_trans:
  assumes "bframe s t" and "bframe t u"
  shows "bframe s u"
proof -
  have "woken s u" using assms by (blast intro: woken_trans dest: bframeD(4))
  moreover have "\<exists>pt bf d w. u = t\<lparr>ptable := pt, bufs := bf, disk := d, dwrites := w\<rparr>"
    using assms(2) by (simp only: bframe_def)
  then obtain pt bf d w where "u = t\<lparr>ptable := pt, bufs := bf, disk := d, dwrites := w\<rparr>" by blast
  moreover have "\<exists>pt bf d w. t = s\<lparr>ptable := pt, bufs := bf, disk := d, dwrites := w\<rparr>"
    using assms(1) by (simp only: bframe_def)
  then obtain pt' bf' d' w' where "t = s\<lparr>ptable := pt', bufs := bf', disk := d', dwrites := w'\<rparr>"
    by blast
  ultimately have "woken s u" "u = s\<lparr>ptable := pt, bufs := bf, disk := d, dwrites := w\<rparr>" by simp_all
  then show ?thesis unfolding bframe_def by blast
qed

lemma bframe_bufs [simp]: "bframe s (s\<lparr>bufs := bf\<rparr>)"
proof -
  have "s\<lparr>bufs := bf\<rparr> = s\<lparr>ptable := ptable s, bufs := bf, disk := disk s, dwrites := dwrites s\<rparr>" by simp
  moreover have "woken s (s\<lparr>bufs := bf\<rparr>)" by (rule woken_eqI) simp
  ultimately show ?thesis unfolding bframe_def by blast
qed

subsection \<open>Reading the view\<close>

lemma bcache_okD:
  assumes "bcache_ok s"
  shows "i < NBUF \<Longrightarrow> buf_ok s (bufs s i)"
    and "i < NBUF \<Longrightarrow> j < NBUF \<Longrightarrow> b_valid (bufs s i) \<Longrightarrow> b_valid (bufs s j) \<Longrightarrow>
         b_blockno (bufs s i) = b_blockno (bufs s j) \<Longrightarrow> i = j"
    and "length (disk s n) = BSIZE"
    and "\<exists>xs. ring (nxt s) (prv s) xs \<and> set xs = {0..<NBUF}"
  using assms unfolding bcache_ok_def by blast+

lemma buf_okD:
  assumes "buf_ok s b"
  shows "length (b_data b) = BSIZE"
    and "b_refcnt b = (if sl_locked (b_lock b) then 1 else 0)"
    and "b_valid b \<longleftrightarrow> b_dev b = 1"
    and "sl_locked (b_lock b) \<Longrightarrow> b_valid b"
    and "b_dirty b \<Longrightarrow> b_valid b"
    and "b_valid b \<Longrightarrow> b_blockno b < disksize s"
    and "b_valid b \<Longrightarrow> \<not> b_dirty b \<Longrightarrow> \<not> sl_locked (b_lock b) \<Longrightarrow> b_data b = disk s (b_blockno b)"
  using assms unfolding buf_ok_def by blast+

lemma buf_ok_disk:
  "buf_ok s b \<Longrightarrow> disksize t = disksize s \<Longrightarrow>
   (b_valid b \<Longrightarrow> disk t (b_blockno b) = disk s (b_blockno b)) \<Longrightarrow> buf_ok t b"
  unfolding buf_ok_def by (cases "b_valid b") auto

lemma buf_ok_cong: "disk t = disk s \<Longrightarrow> disksize t = disksize s \<Longrightarrow> buf_ok t b = buf_ok s b"
  by (simp add: buf_ok_def)

lemma bview_cached:
  "bcache_ok s \<Longrightarrow> i < NBUF \<Longrightarrow> b_valid (bufs s i) \<Longrightarrow> bview s (b_blockno (bufs s i)) = b_data (bufs s i)"
proof -
  assume ok: "bcache_ok s" and i: "i < NBUF" and v: "b_valid (bufs s i)"
  let ?P = "\<lambda>j. b_valid (bufs s j) \<and> b_blockno (bufs s j) = b_blockno (bufs s i)"
  obtain j where j: "first_slot NBUF ?P = Some j"
    using first_slot_exists [of i NBUF ?P] i v by auto
  then have "j < NBUF \<and> ?P j" by (simp only: first_slot_Some)
  then have "j = i" using bcache_okD(2) [OF ok, of j i] i v by auto
  then show ?thesis using j by (simp add: bview_def)
qed

lemma bview_uncached:
  "(\<And>i. i < NBUF \<Longrightarrow> b_valid (bufs s i) \<Longrightarrow> b_blockno (bufs s i) \<noteq> n) \<Longrightarrow> bview s n = disk s n"
proof -
  assume u: "\<And>i. i < NBUF \<Longrightarrow> b_valid (bufs s i) \<Longrightarrow> b_blockno (bufs s i) \<noteq> n"
  have "first_slot NBUF (\<lambda>i. b_valid (bufs s i) \<and> b_blockno (bufs s i) = n) = None"
    unfolding first_slot_None using u by blast
  then show ?thesis by (simp add: bview_def)
qed

lemma length_bview: "bcache_ok s \<Longrightarrow> length (bview s n) = BSIZE"
proof -
  assume ok: "bcache_ok s"
  show ?thesis
  proof (cases "\<exists>i<NBUF. b_valid (bufs s i) \<and> b_blockno (bufs s i) = n")
    case True
    then obtain i where "i < NBUF" "b_valid (bufs s i)" "b_blockno (bufs s i) = n" by blast
    then show ?thesis using bview_cached [OF ok] buf_okD(1) [OF bcache_okD(1) [OF ok]] by metis
  next
    case False
    then have "bview s n = disk s n" by (intro bview_uncached) auto
    then show ?thesis using bcache_okD(3) [OF ok] by simp
  qed
qed

lemma mem_held: "m \<in> held s \<longleftrightarrow> (\<exists>i<NBUF. sl_locked (b_lock (bufs s i)) \<and> b_blockno (bufs s i) = m)"
  by (auto simp: held_def)

lemma mem_pinned: "m \<in> pinned s \<longleftrightarrow> (\<exists>i<NBUF. b_dirty (bufs s i) \<and> b_blockno (bufs s i) = m)"
  by (auto simp: pinned_def)

lemma ex_slot_upd:
  "b < n \<Longrightarrow> (\<exists>i<n. P ((f(b := v)) i)) \<longleftrightarrow> P v \<or> (\<exists>i<n. i \<noteq> b \<and> P (f i))"
  by (metis fun_upd_apply)

lemma holds_view: "bcache_ok s \<Longrightarrow> holds s b n \<Longrightarrow> b_data (bufs s b) = bview s n"
  unfolding holds_def using bview_cached [of s b] buf_okD(4) [OF bcache_okD(1) [of s b]] by metis

lemma holds_held: "holds s b n \<Longrightarrow> n \<in> held s"
  by (auto simp: holds_def held_def)

lemma holds_unique: "bcache_ok s \<Longrightarrow> holds s b n \<Longrightarrow> holds s c n \<Longrightarrow> b = c"
  unfolding holds_def using bcache_okD(1,2) buf_okD(4) by blast

lemma held_pinned_bound:
  assumes ok: "bcache_ok s" and "n \<in> held s \<union> pinned s"
  shows "n < disksize s"
proof -
  obtain i where "i < NBUF" "b_blockno (bufs s i) = n" "b_dirty (bufs s i) \<or> sl_locked (b_lock (bufs s i))"
    using assms(2) by (auto simp: held_def pinned_def)
  then show ?thesis using buf_okD(4,5,6) [OF bcache_okD(1) [OF ok, of i]] by blast
qed

text \<open>
  Replacing buffer \<open>b\<close> by one that caches block \<open>n\<close>, locked: what \<open>bread\<close> does to the array,
  whether it found the block cached or took over a free buffer.
\<close>

lemma bread_replace:
  assumes ok: "bcache_ok s" and b: "b < NBUF" and n: "n < disksize s"
    and nb: "b_next nb = b_next (bufs s b)" "b_prev nb = b_prev (bufs s b)" "b_refcnt nb = 1"
      "sl_locked (b_lock nb)" "b_valid nb" "b_dev nb = 1" "b_blockno nb = n" "b_data nb = bview s n"
      "b_dirty nb = b_dirty (bufs s b)"
    and old: "\<not> sl_locked (b_lock (bufs s b))" "b_dirty (bufs s b) \<Longrightarrow> b_blockno (bufs s b) = n"
    and uniq: "\<And>j. j < NBUF \<Longrightarrow> b_valid (bufs s j) \<Longrightarrow> b_blockno (bufs s j) = n \<Longrightarrow> j = b"
  shows "bcache_ok (s\<lparr>bufs := (bufs s)(b := nb)\<rparr>)" (is "bcache_ok ?t")
    and "bview (s\<lparr>bufs := (bufs s)(b := nb)\<rparr>) = bview s"
    and "held (s\<lparr>bufs := (bufs s)(b := nb)\<rparr>) = insert n (held s)"
    and "pinned (s\<lparr>bufs := (bufs s)(b := nb)\<rparr>) = pinned s"
proof -
  have bt: "bufs ?t = (bufs s)(b := nb)" by simp
  have links: "nxt ?t = nxt s" "prv ?t = prv s" using nb(1,2) by (auto simp: fun_eq_iff)
  have bok: "buf_ok ?t (bufs ?t i)" if "i < NBUF" for i
  proof (cases "i = b")
    case True
    then show ?thesis using n nb length_bview [OF ok, of n] by (simp add: buf_ok_def)
  next
    case False
    then show ?thesis using bcache_okD(1) [OF ok that] by (simp add: buf_ok_cong [of ?t s])
  qed
  have "i = j" if "i < NBUF" "j < NBUF" "b_valid (bufs ?t i)" "b_valid (bufs ?t j)"
    "b_blockno (bufs ?t i) = b_blockno (bufs ?t j)" for i j
    using that uniq bcache_okD(2) [OF ok] nb(7) unfolding bt by (metis fun_upd_apply)
  then show ok': "bcache_ok ?t"
    unfolding bcache_ok_def links using bcache_okD(3,4) [OF ok] bok by simp
  show "bview ?t = bview s"
  proof
    fix m
    show "bview ?t m = bview s m"
    proof (cases "\<exists>i<NBUF. i \<noteq> b \<and> b_valid (bufs s i) \<and> b_blockno (bufs s i) = m")
      case True
      then obtain i where "i < NBUF" "i \<noteq> b" "b_valid (bufs s i)" "b_blockno (bufs s i) = m" by blast
      then show ?thesis using bview_cached [OF ok', of i] bview_cached [OF ok, of i] by simp
    next
      case False
      show ?thesis
      proof (cases "m = n")
        case True
        then show ?thesis using bview_cached [OF ok', of b] b nb by simp
      next
        case mn: False
        have "bview ?t m = disk ?t m"
          by (rule bview_uncached) (use False nb(7) mn in \<open>auto simp only: bt fun_upd_apply split: if_splits\<close>)
        moreover have "bview s m = disk s m"
        proof (cases "b_valid (bufs s b) \<and> b_blockno (bufs s b) = m")
          case True
          then show ?thesis
            using bview_cached [OF ok b] buf_okD(7) [OF bcache_okD(1) [OF ok b]] old mn by metis
        next
          case nb: False
          then show ?thesis using False by (intro bview_uncached) blast
        qed
        ultimately show ?thesis by simp
      qed
    qed
  qed
  have "m \<in> held ?t \<longleftrightarrow> m = n \<or> m \<in> held s" for m
    unfolding mem_held bt
    by (subst ex_slot_upd [OF b]) (use nb old in blast)
  then show "held ?t = insert n (held s)" by blast
  have "m \<in> pinned ?t \<longleftrightarrow> m \<in> pinned s" for m
    unfolding mem_pinned bt
    by (subst ex_slot_upd [OF b]) (use b nb(7,9) old(2) in metis)
  then show "pinned ?t = pinned s" by blast
qed

subsection \<open>bget and bread\<close>

lemma ring_scan:
  assumes r: "ring nx pv xs" and xs: "set xs = {0..<NBUF}"
  shows "bscan (Suc NBUF) nx P (nx HEAD) = Some (find P xs)"
    and "bscan (Suc NBUF) pv P (pv HEAD) = Some (find P (rev xs))"
proof -
  have "length xs = NBUF" using r xs distinct_card [of xs] by (simp add: ring_def)
  then show "bscan (Suc NBUF) nx P (nx HEAD) = Some (find P xs)"
    and "bscan (Suc NBUF) pv P (pv HEAD) = Some (find P (rev xs))"
    using r by (auto simp only: ring_def intro!: bscan_linked) (auto simp: xs HEAD_def)
qed

lemma find_SomeD: "find P xs = Some x \<Longrightarrow> x \<in> set xs \<and> P x"
  by (induction xs) (auto split: if_splits)

lemma bget_spec:
  assumes "ring (nxt s) (prv s) xs" and "set xs = {0..<NBUF}"
  shows "bget dev n s =
    (case find (\<lambda>i. b_dev (bufs s i) = dev \<and> b_blockno (bufs s i) = n) xs of
       Some b \<Rightarrow> bacquire b (upd_buf b (\<lambda>x. x\<lparr>b_refcnt := b_refcnt x + 1\<rparr>) s)
     | None \<Rightarrow>
         (case find (\<lambda>i. b_refcnt (bufs s i) = 0 \<and> \<not> b_dirty (bufs s i)) (rev xs) of
            Some b \<Rightarrow> bacquire b (upd_buf b (\<lambda>x. x\<lparr>b_dev := dev, b_blockno := n,
                        b_valid := False, b_dirty := False, b_refcnt := 1\<rparr>) s)
          | None \<Rightarrow> Panic ''bget: no buffers''))"
  unfolding bget_def ring_scan [OF assms] by (simp split: option.splits)

lemma bacquire_ok:
  assumes "\<not> sl_locked (b_lock (bufs s b))" and "curproc s = Some p"
  shows "bacquire b s = Ok b (upd_buf b (\<lambda>x. x\<lparr>b_lock :=
           (b_lock x)\<lparr>sl_locked := True, sl_pid := p_pid (ptable s p)\<rparr>\<rparr>) s)"
  using assms by (simp add: bacquire_def acquiresleep_def upd_block_def)

lemma upd_buf_twice: "upd_buf b f (upd_buf b g s) = upd_buf b (\<lambda>x. f (g x)) s"
  by (simp add: upd_buf_def)

lemma evictable_exists:
  assumes ok: "bcache_ok s" and c: "card (insert n (held s \<union> pinned s)) \<le> NBUF"
    and un: "\<And>i. i < NBUF \<Longrightarrow> b_valid (bufs s i) \<Longrightarrow> b_blockno (bufs s i) \<noteq> n"
  shows "\<exists>i<NBUF. b_refcnt (bufs s i) = 0 \<and> \<not> b_dirty (bufs s i)"
proof (rule ccontr)
  assume "\<not> ?thesis"
  then have busy: "sl_locked (b_lock (bufs s i)) \<or> b_dirty (bufs s i)" if "i < NBUF" for i
    using that buf_okD(2) [OF bcache_okD(1) [OF ok that]] by (auto split: if_splits)
  then have v: "b_valid (bufs s i)" if "i < NBUF" for i
    using that buf_okD(4,5) [OF bcache_okD(1) [OF ok that]] by blast
  let ?f = "\<lambda>i. b_blockno (bufs s i)"
  have inj: "inj_on ?f {0..<NBUF}"
    by (rule inj_onI) (use v bcache_okD(2) [OF ok] in \<open>simp only: atLeastLessThan_iff\<close>)
  have sub: "?f ` {0..<NBUF} \<subseteq> held s \<union> pinned s"
    using busy by (auto simp only: mem_held mem_pinned Un_iff atLeastLessThan_iff) blast+
  have fin: "finite (held s \<union> pinned s)" by (simp add: held_def pinned_def)
  have "?f i \<noteq> n" if "i < NBUF" for i using un [OF that v [OF that]] .
  then have "n \<notin> ?f ` {0..<NBUF}" by fastforce
  then have "Suc NBUF = card (insert n (?f ` {0..<NBUF}))"
    using card_image [OF inj] by simp
  also have "\<dots> \<le> card (insert n (held s \<union> pinned s))"
    by (rule card_mono) (use sub fin in auto)
  finally show False using c by simp
qed

text \<open>What a client gets from reading block \<open>n\<close>: the buffer, locked, with the block's content.\<close>

definition bread_post :: "'z bio_st_scheme \<Rightarrow> nat \<Rightarrow> nat \<Rightarrow> 'z bio_st_scheme \<Rightarrow> bool" where
  "bread_post s n b s' \<longleftrightarrow>
     bcache_ok s' \<and> holds s' b n \<and> b_data (bufs s' b) = bview s n \<and> bview s' = bview s \<and>
     held s' = insert n (held s) \<and> pinned s' = pinned s \<and>
     disk s' = disk s \<and> dwrites s' = dwrites s \<and> bframe s s' \<and>
     (\<forall>c m. holds s c m \<longrightarrow> holds s' c m \<and> b_data (bufs s' c) = b_data (bufs s c))"

lemma bread_replace_post:
  assumes "bcache_ok s" "b < NBUF" "n < disksize s"
    and "b_next nb = b_next (bufs s b)" "b_prev nb = b_prev (bufs s b)" "b_refcnt nb = 1"
      "sl_locked (b_lock nb)" "b_valid nb" "b_dev nb = 1" "b_blockno nb = n" "b_data nb = bview s n"
      "b_dirty nb = b_dirty (bufs s b)"
    and "\<not> sl_locked (b_lock (bufs s b))" "b_dirty (bufs s b) \<Longrightarrow> b_blockno (bufs s b) = n"
    and "\<And>j. j < NBUF \<Longrightarrow> b_valid (bufs s j) \<Longrightarrow> b_blockno (bufs s j) = n \<Longrightarrow> j = b"
  shows "bread_post s n b (upd_buf b (\<lambda>_. nb) s)"
proof -
  have e: "upd_buf b (\<lambda>_. nb) s = s\<lparr>bufs := (bufs s)(b := nb)\<rparr>" by (simp add: upd_buf_def)
  have "holds (upd_buf b (\<lambda>_. nb) s) b n" using assms by (simp add: holds_def)
  moreover have "bufs (upd_buf b (\<lambda>_. nb) s) c = bufs s c" if "holds s c m" for c m
    using assms(13) that by (auto simp: holds_def)
  then have "holds s c m \<longrightarrow> holds (upd_buf b (\<lambda>_. nb) s) c m \<and>
      b_data (bufs (upd_buf b (\<lambda>_. nb) s) c) = b_data (bufs s c)" for c m
    by (auto simp only: holds_def)
  moreover have "bframe s (upd_buf b (\<lambda>_. nb) s)" "disk (upd_buf b (\<lambda>_. nb) s) = disk s"
    "dwrites (upd_buf b (\<lambda>_. nb) s) = dwrites s" by (simp_all add: e)
  moreover have "b_data (bufs (upd_buf b (\<lambda>_. nb) s) b) = bview s n" using assms(11) by simp
  ultimately show ?thesis
    unfolding bread_post_def using bread_replace [OF assms, folded e] by blast
qed

lemma bread_hit:
  assumes ok: "bcache_ok s" and b: "b < NBUF" and m: "b_dev (bufs s b) = 1" "b_blockno (bufs s b) = n"
    and n: "n \<notin> held s" and p: "curproc s = Some p"
  shows "wp (bacquire b (upd_buf b (\<lambda>x. x\<lparr>b_refcnt := b_refcnt x + 1\<rparr>) s))
           (\<lambda>c s'. c = b \<and> b_valid (bufs s' b) \<and> bread_post s n b s')"
proof -
  note bo = bcache_okD(1) [OF ok b]
  have v: "b_valid (bufs s b)" using buf_okD(3) [OF bo] m by simp
  have nl: "\<not> sl_locked (b_lock (bufs s b))" using n b m by (auto simp: mem_held)
  let ?nb = "(bufs s b)\<lparr>b_refcnt := 1, b_lock := (b_lock (bufs s b))\<lparr>sl_locked := True,
              sl_pid := p_pid (ptable s p)\<rparr>\<rparr>"
  have "bread_post s n b (upd_buf b (\<lambda>_. ?nb) s)"
  proof (rule bread_replace_post [OF ok b])
    show "n < disksize s" using buf_okD(6) [OF bo v] m by simp
    show "b_data ?nb = bview s n" using bview_cached [OF ok b v] m by simp
    show "j = b" if "j < NBUF" "b_valid (bufs s j)" "b_blockno (bufs s j) = n" for j
      using bcache_okD(2) [OF ok that(1) b that(2) v] that(3) m by simp
  qed (use m v nl in simp_all)
  moreover have "b_refcnt (bufs s b) = 0" using buf_okD(2) [OF bo] nl by simp
  then have "upd_buf b (\<lambda>x. x\<lparr>b_lock := (b_lock x)\<lparr>sl_locked := True, sl_pid := p_pid (ptable s p)\<rparr>\<rparr>)
      (upd_buf b (\<lambda>x. x\<lparr>b_refcnt := b_refcnt x + 1\<rparr>) s) = upd_buf b (\<lambda>_. ?nb) s"
    by (simp add: upd_buf_def)
  ultimately show ?thesis using nl p v by (simp add: bacquire_ok)
qed

lemma bread_miss:
  assumes ok: "bcache_ok s" and b: "b < NBUF" and ev: "b_refcnt (bufs s b) = 0" "\<not> b_dirty (bufs s b)"
    and un: "\<And>i. i < NBUF \<Longrightarrow> b_valid (bufs s i) \<Longrightarrow> b_blockno (bufs s i) \<noteq> n"
    and n: "n < disksize s" and p: "curproc s = Some p"
  shows "wp (bindR (bacquire b (upd_buf b (\<lambda>x. x\<lparr>b_dev := 1, b_blockno := n,
                b_valid := False, b_dirty := False, b_refcnt := 1\<rparr>) s))
              (\<lambda>b s. if \<not> b_valid (bufs s b) then bindR (iderw b s) (\<lambda>_ s. Ok b s) else Ok b s))
           (\<lambda>c s'. c = b \<and> bread_post s n b s')"
proof -
  have nl: "\<not> sl_locked (b_lock (bufs s b))"
    using buf_okD(2) [OF bcache_okD(1) [OF ok b]] ev(1) by (auto split: if_splits)
  let ?l = "(b_lock (bufs s b))\<lparr>sl_locked := True, sl_pid := p_pid (ptable s p)\<rparr>"
  let ?nb = "(bufs s b)\<lparr>b_dev := 1, b_blockno := n, b_dirty := False, b_refcnt := 1,
              b_lock := ?l, b_data := disk s n, b_valid := True\<rparr>"
  have "bread_post s n b (upd_buf b (\<lambda>_. ?nb) s)"
  proof (rule bread_replace_post [OF ok b n])
    show "b_data ?nb = bview s n" using bview_uncached [of s n] un by simp
    show "j = b" if "j < NBUF" "b_valid (bufs s j)" "b_blockno (bufs s j) = n" for j
      using un that by blast
  qed (use nl ev in simp_all)
  then show ?thesis
    using nl p n by (simp add: bacquire_ok iderw_def holdingsleep_def upd_buf_def Let_def)
qed

lemma bread_ok:
  assumes ok: "bcache_ok s" and n: "n < disksize s" "n \<notin> held s"
    and c: "card (insert n (held s \<union> pinned s)) \<le> NBUF" and p: "curproc s \<noteq> None"
  shows "wp (bread 1 n s) (\<lambda>b s'. bread_post s n b s')"
proof -
  obtain q where q: "curproc s = Some q" using p by blast
  obtain xs where r: "ring (nxt s) (prv s) xs" "set xs = {0..<NBUF}" using bcache_okD(4) [OF ok] by blast
  let ?M = "\<lambda>i. b_dev (bufs s i) = 1 \<and> b_blockno (bufs s i) = n"
  let ?E = "\<lambda>i. b_refcnt (bufs s i) = 0 \<and> \<not> b_dirty (bufs s i)"
  show ?thesis
  proof (cases "find ?M xs")
    case (Some b)
    then have b: "b < NBUF" "?M b" using r(2) find_SomeD [OF Some] by auto
    have "wp (bget 1 n s) (\<lambda>c s'. c = b \<and> b_valid (bufs s' b) \<and> bread_post s n b s')"
      unfolding bget_spec [OF r] using Some bread_hit [OF ok b(1) _ _ n(2) q] b(2) by simp
    then show ?thesis unfolding bread_def wp_bind by (rule wp_mono) simp
  next
    case None
    have un: "b_blockno (bufs s i) \<noteq> n" if "i < NBUF" "b_valid (bufs s i)" for i
      using None that r(2) buf_okD(3) [OF bcache_okD(1) [OF ok that(1)]] by (auto simp: find_None_iff)
    have "find ?E (rev xs) \<noteq> None"
      using evictable_exists [OF ok c un] r(2) by (auto simp: find_None_iff)
    then obtain b where f: "find ?E (rev xs) = Some b" by blast
    then have b: "b < NBUF" "?E b" using r(2) find_SomeD [OF f] by auto
    show ?thesis
      unfolding bread_def bget_spec [OF r] using None f
        bread_miss [OF ok b(1) _ _ un n(1) q] b(2) by (auto elim!: wp_mono)
  qed
qed

subsection \<open>bwrite, brelse and changing a held buffer\<close>

text \<open>
  The laws for changing a buffer one holds. Each rests on one frame fact: replacing held buffer
  \<open>b\<close> by \<open>nb\<close>, still caching the same block, moves the view at that block only.
\<close>

lemma bheld_replace:
  assumes ok: "bcache_ok s" and h: "holds s b n"
    and nb: "b_next nb = b_next (bufs s b)" "b_prev nb = b_prev (bufs s b)" "b_refcnt nb = 1"
      "sl_locked (b_lock nb)" "b_valid nb" "b_dev nb = 1" "b_blockno nb = n" "length (b_data nb) = BSIZE"
    and d: "\<And>m. m \<noteq> n \<Longrightarrow> d m = disk s m" "length (d n) = BSIZE"
    and t: "t = s\<lparr>bufs := (bufs s)(b := nb), disk := d, dwrites := w\<rparr>"
  shows "bcache_ok t" and "bview t = (bview s)(n := b_data nb)" and "holds t b n"
    and "held t = held s" and "pinned t = (if b_dirty nb then insert n (pinned s) else pinned s - {n})"
    and "\<And>c m. c \<noteq> b \<Longrightarrow> holds s c m \<Longrightarrow> bufs t c = bufs s c \<and> holds t c m"
proof -
  have b: "b < NBUF" and hb: "sl_locked (b_lock (bufs s b))" "b_blockno (bufs s b) = n"
    using h by (simp_all only: holds_def)
  note bo = bcache_okD(1) [OF ok b]
  have v: "b_valid (bufs s b)" using buf_okD(4) [OF bo hb(1)] .
  have n: "n < disksize s" using buf_okD(6) [OF bo v] hb(2) by simp
  have bt: "bufs t = (bufs s)(b := nb)" "disk t = d" "disksize t = disksize s" using t by simp_all
  have links: "nxt t = nxt s" "prv t = prv s" using nb(1,2) by (auto simp: fun_eq_iff bt)
  have other: "b_blockno (bufs s i) \<noteq> n" if "i < NBUF" "b_valid (bufs s i)" "i \<noteq> b" for i
    using bcache_okD(2) [OF ok that(1) b that(2) v] that(3) hb(2) by metis
  have bok: "buf_ok t (bufs t i)" if i: "i < NBUF" for i
  proof (cases "i = b")
    case True
    then show ?thesis using n nb by (simp add: buf_ok_def bt)
  next
    case False
    have "buf_ok t (bufs s i)"
      by (rule buf_ok_disk [OF bcache_okD(1) [OF ok i]]) (use False other [OF i] d(1) bt in simp_all)
    then show ?thesis using False bt(1) by simp
  qed
  have "i = j" if "i < NBUF" "j < NBUF" "b_valid (bufs t i)" "b_valid (bufs t j)"
    "b_blockno (bufs t i) = b_blockno (bufs t j)" for i j
    using that other bcache_okD(2) [OF ok] nb(7) unfolding bt by (metis fun_upd_apply)
  moreover have "length (disk t m) = BSIZE" for m
    using d bcache_okD(3) [OF ok] unfolding bt by metis
  ultimately show ok': "bcache_ok t"
    unfolding bcache_ok_def links using bcache_okD(4) [OF ok] bok by blast
  show "holds t b n" using b nb by (simp add: holds_def bt)
  show "bview t = (bview s)(n := b_data nb)"
  proof
    fix m
    show "bview t m = ((bview s)(n := b_data nb)) m"
    proof (cases "m = n")
      case True
      then show ?thesis using bview_cached [OF ok' b] nb by (simp add: bt)
    next
      case mn: False
      show ?thesis
      proof (cases "\<exists>i<NBUF. i \<noteq> b \<and> b_valid (bufs s i) \<and> b_blockno (bufs s i) = m")
        case True
        then obtain i where "i < NBUF" "i \<noteq> b" "b_valid (bufs s i)" "b_blockno (bufs s i) = m" by blast
        then show ?thesis using bview_cached [OF ok', of i] bview_cached [OF ok, of i] mn by (simp add: bt)
      next
        case False
        have "bview t m = disk t m"
          by (rule bview_uncached) (use False nb(7) mn in \<open>auto simp only: bt fun_upd_apply split: if_splits\<close>)
        moreover have "bview s m = disk s m"
          by (rule bview_uncached) (use False hb(2) mn in blast)
        ultimately show ?thesis using mn d(1) bt(2) by simp
      qed
    qed
  qed
  have "m \<in> held t \<longleftrightarrow> m \<in> held s" for m
    unfolding mem_held bt by (subst ex_slot_upd [OF b]) (use b nb(4,7) hb in metis)
  then show "held t = held s" by blast
  have "m \<in> pinned t \<longleftrightarrow> (m = n \<and> b_dirty nb) \<or> (m \<noteq> n \<and> m \<in> pinned s)" for m
    unfolding mem_pinned bt
    by (subst ex_slot_upd [OF b])
      (use b nb(7) hb(2) other buf_okD(5) [OF bcache_okD(1) [OF ok]] in metis)
  then show "pinned t = (if b_dirty nb then insert n (pinned s) else pinned s - {n})" by auto
  show "bufs t c = bufs s c \<and> holds t c m" if "c \<noteq> b" "holds s c m" for c m
    using that by (simp add: holds_def bt)
qed

lemma bview_clean:
  assumes ok: "bcache_ok s" and "n \<notin> held s" "n \<notin> pinned s"
  shows "disk s n = bview s n"
proof (cases "\<exists>i<NBUF. b_valid (bufs s i) \<and> b_blockno (bufs s i) = n")
  case True
  then obtain i where i: "i < NBUF" "b_valid (bufs s i)" "b_blockno (bufs s i) = n" by blast
  then have "\<not> b_dirty (bufs s i)" "\<not> sl_locked (b_lock (bufs s i))"
    using assms(2,3) unfolding mem_held mem_pinned by blast+
  then show ?thesis using buf_okD(7) [OF bcache_okD(1) [OF ok i(1)] i(2)] bview_cached [OF ok i(1,2)] i(3) by simp
next
  case False
  then show ?thesis by (subst bview_uncached) auto
qed

lemma holds_pinned: "bcache_ok s \<Longrightarrow> holds s b n \<Longrightarrow> n \<in> pinned s \<longleftrightarrow> b_dirty (bufs s b)"
  unfolding mem_pinned holds_def using bcache_okD(1,2) buf_okD(4,5) by metis

lemma bheldD:
  assumes "bcache_ok s" and "holds s b n"
  shows "b < NBUF" "sl_locked (b_lock (bufs s b))" "b_blockno (bufs s b) = n" "b_refcnt (bufs s b) = 1"
    "b_valid (bufs s b)" "b_dev (bufs s b) = 1" "length (b_data (bufs s b)) = BSIZE" "n < disksize s"
proof -
  show h: "b < NBUF" "sl_locked (b_lock (bufs s b))" "b_blockno (bufs s b) = n"
    using assms(2) by (simp_all only: holds_def)
  note bo = bcache_okD(1) [OF assms(1) h(1)]
  show "b_refcnt (bufs s b) = 1" using buf_okD(2) [OF bo] h(2) by simp
  show v: "b_valid (bufs s b)" using buf_okD(4) [OF bo h(2)] .
  show "b_dev (bufs s b) = 1" using buf_okD(3) [OF bo] v by simp
  show "length (b_data (bufs s b)) = BSIZE" using buf_okD(1) [OF bo] .
  show "n < disksize s" using buf_okD(6) [OF bo v] h(3) by simp
qed

lemma set_data_ok:
  assumes ok: "bcache_ok s" and h: "holds s b n" and d: "length d = BSIZE"
  shows "bcache_ok (set_data b d s)" "bview (set_data b d s) = (bview s)(n := d)" "holds (set_data b d s) b n"
    "held (set_data b d s) = held s" "pinned (set_data b d s) = pinned s" "bframe s (set_data b d s)"
    "\<And>c m. c \<noteq> b \<Longrightarrow> holds s c m \<Longrightarrow> bufs (set_data b d s) c = bufs s c \<and> holds (set_data b d s) c m"
    "bufs (set_data b d s) b = (bufs s b)\<lparr>b_data := d\<rparr>"
proof -
  have t: "set_data b d s = s\<lparr>bufs := (bufs s)(b := (bufs s b)\<lparr>b_data := d\<rparr>), disk := disk s, dwrites := dwrites s\<rparr>"
    by (simp add: set_data_def upd_buf_def)
  note B = bheldD [OF ok h]
  note R = bheld_replace [OF ok h _ _ _ _ _ _ _ _ _ _ t]
  show "bcache_ok (set_data b d s)" "holds (set_data b d s) b n" "held (set_data b d s) = held s"
    using B d bcache_okD(3) [OF ok] by (simp_all add: R)
  have "bview (set_data b d s) = (bview s)(n := b_data ((bufs s b)\<lparr>b_data := d\<rparr>))"
    by (rule R(2)) (use B d bcache_okD(3) [OF ok] in simp_all)
  then show "bview (set_data b d s) = (bview s)(n := d)" by simp
  have "pinned (set_data b d s) = (if b_dirty ((bufs s b)\<lparr>b_data := d\<rparr>) then insert n (pinned s) else pinned s - {n})"
    by (rule R(5)) (use B d bcache_okD(3) [OF ok] in simp_all)
  then show "pinned (set_data b d s) = pinned s" using holds_pinned [OF ok h] by auto
  show "bframe s (set_data b d s)" by (simp add: set_data_def upd_buf_def)
  show "bufs (set_data b d s) b = (bufs s b)\<lparr>b_data := d\<rparr>" by (simp add: set_data_def)
  show "bufs (set_data b d s) c = bufs s c \<and> holds (set_data b d s) c m" if "c \<noteq> b" "holds s c m" for c m
    using that by (simp add: set_data_def holds_def)
qed

text \<open>\<open>bp->flags |= B_DIRTY\<close> in \<open>log_write\<close>.\<close>

definition set_dirty :: "nat \<Rightarrow> 'z bio_st_scheme \<Rightarrow> 'z bio_st_scheme" where
  "set_dirty b s = upd_buf b (\<lambda>x. x\<lparr>b_dirty := True\<rparr>) s"

lemma set_dirty_ok:
  assumes ok: "bcache_ok s" and h: "holds s b n"
  shows "bcache_ok (set_dirty b s)" "bview (set_dirty b s) = bview s" "holds (set_dirty b s) b n"
    "held (set_dirty b s) = held s" "pinned (set_dirty b s) = insert n (pinned s)" "bframe s (set_dirty b s)"
    "\<And>c m. holds s c m \<Longrightarrow> holds (set_dirty b s) c m"
proof -
  have t: "set_dirty b s = s\<lparr>bufs := (bufs s)(b := (bufs s b)\<lparr>b_dirty := True\<rparr>), disk := disk s, dwrites := dwrites s\<rparr>"
    by (simp add: set_dirty_def upd_buf_def)
  note B = bheldD [OF ok h]
  note R = bheld_replace [OF ok h _ _ _ _ _ _ _ _ _ _ t]
  show "bcache_ok (set_dirty b s)" "holds (set_dirty b s) b n" "held (set_dirty b s) = held s"
    using B bcache_okD(3) [OF ok] by (simp_all add: R)
  have "bview (set_dirty b s) = (bview s)(n := b_data ((bufs s b)\<lparr>b_dirty := True\<rparr>))"
    by (rule R(2)) (use B bcache_okD(3) [OF ok] in simp_all)
  then show "bview (set_dirty b s) = bview s" using holds_view [OF ok h] by auto
  have "pinned (set_dirty b s) = (if b_dirty ((bufs s b)\<lparr>b_dirty := True\<rparr>) then insert n (pinned s) else pinned s - {n})"
    by (rule R(5)) (use B bcache_okD(3) [OF ok] in simp_all)
  then show "pinned (set_dirty b s) = insert n (pinned s)" by simp
  show "bframe s (set_dirty b s)" by (simp add: set_dirty_def upd_buf_def)
  show "holds (set_dirty b s) c m" if "holds s c m" for c m
    using that by (auto simp: set_dirty_def holds_def)
qed

definition bwrite_post :: "'z bio_st_scheme \<Rightarrow> nat \<Rightarrow> nat \<Rightarrow> 'z bio_st_scheme \<Rightarrow> bool" where
  "bwrite_post s b n t \<longleftrightarrow>
     bcache_ok t \<and> bview t = bview s \<and> disk t = (disk s)(n := bview s n) \<and>
     dwrites t = dwrites s @ [(n, bview s n)] \<and> holds t b n \<and> held t = held s \<and>
     pinned t = pinned s - {n} \<and> bframe s t \<and> (\<forall>c m. holds s c m \<longrightarrow> holds t c m \<and> b_data (bufs t c) = b_data (bufs s c))"

lemma bwrite_ok:
  assumes ok: "bcache_ok s" and h: "holds s b n"
  shows "wp (bwrite b s) (\<lambda>_ t. bwrite_post s b n t)"
proof -
  note B = bheldD [OF ok h] and V = holds_view [OF ok h]
  let ?nb = "(bufs s b)\<lparr>b_dirty := False, b_valid := True\<rparr>"
  define t where "t = s\<lparr>bufs := (bufs s)(b := ?nb), disk := (disk s)(n := bview s n),
                        dwrites := dwrites s @ [(n, bview s n)]\<rparr>"
  have run: "bwrite b s = Ok () t"
    using B V by (simp add: bwrite_def iderw_def holdingsleep_def upd_buf_def t_def)
  note R = bheld_replace [OF ok h _ _ _ _ _ _ _ _ _ _ t_def]
  have "bcache_ok t" "holds t b n" "held t = held s"
    using B length_bview [OF ok, of n] by (simp_all add: R)
  moreover have "bview t = (bview s)(n := b_data ?nb)"
    by (rule R(2)) (use B length_bview [OF ok, of n] in simp_all)
  then have "bview t = bview s" using V by auto
  moreover have "pinned t = (if b_dirty ?nb then insert n (pinned s) else pinned s - {n})"
    by (rule R(5)) (use B length_bview [OF ok, of n] in simp_all)
  then have "pinned t = pinned s - {n}" by simp
  moreover have "bframe s t"
    unfolding bframe_def by (rule conjI, rule woken_eqI, simp add: t_def)
      (rule exI [of _ "ptable s"], auto simp: t_def)
  moreover have "holds t c m \<and> b_data (bufs t c) = b_data (bufs s c)" if "holds s c m" for c m
    using that by (auto simp: t_def holds_def)
  ultimately have "bwrite_post s b n t" by (simp add: bwrite_post_def t_def)
  then show ?thesis by (simp add: run)
qed

text \<open>Everything but the ring depends on the content of the buffers only.\<close>

lemma same_core:
  assumes "\<And>i. bcore (bufs t i) = bcore (bufs u i)" and "disk t = disk u" and "disksize t = disksize u"
  shows "bview t = bview u" "held t = held u" "pinned t = pinned u" "holds t = holds u"
    "buf_ok t (bufs t i) \<longleftrightarrow> buf_ok u (bufs u i)"
  by (simp_all add: bview_def held_def pinned_def holds_def buf_ok_def fun_eq_iff
        bcore_eqD [OF assms(1)] assms(2,3) cong: option.case_cong)

lemma move_to_front_frame [simp]:
  "disk (move_to_front b s) = disk s" "disksize (move_to_front b s) = disksize s"
  "dwrites (move_to_front b s) = dwrites s" "ptable (move_to_front b s) = ptable s"
  by (simp_all add: move_to_front_def Let_def set_next_def set_prev_def)

lemma move_to_front_frame': "move_to_front b s = s\<lparr>bufs := bufs (move_to_front b s)\<rparr>"
  by (simp add: move_to_front_def Let_def set_next_def set_prev_def upd_buf_def)

lemma move_to_front_ok:
  assumes ok: "bcache_ok s" and b: "b < NBUF"
  shows "bcache_ok (move_to_front b s)"
proof -
  obtain xs where r: "ring (nxt s) (prv s) xs" "set xs = {0..<NBUF}" using bcache_okD(4) [OF ok] by blast
  then have "b \<in> set xs" using b by simp
  then obtain as cs where xs: "xs = as @ b # cs" by (meson split_list)
  then have "ring (nxt (move_to_front b s)) (prv (move_to_front b s)) (b # as @ cs)"
    using move_to_front_ring r(1) by blast
  moreover have "set (b # as @ cs) = {0..<NBUF}" using r(2) xs by auto
  moreover note C = same_core [OF move_to_front_core [of b s] move_to_front_frame(1,2)]
    and E = bcore_eqD [OF move_to_front_core [of b s]]
  ultimately show ?thesis
    using bcache_okD(1,2,3) [OF ok] unfolding bcache_ok_def C(5) E move_to_front_frame by blast
qed

lemma bufs_wakeup [simp]:
  "bufs (wakeup c s) = bufs s" "disk (wakeup c s) = disk s" "disksize (wakeup c s) = disksize s"
  "dwrites (wakeup c s) = dwrites s"
  by (simp_all add: wakeup_def wakeup1_def)

definition brelse_post :: "'z bio_st_scheme \<Rightarrow> nat \<Rightarrow> nat \<Rightarrow> 'z bio_st_scheme \<Rightarrow> bool" where
  "brelse_post s b n t \<longleftrightarrow>
     bcache_ok t \<and> bview t = bview s \<and> disk t = disk s \<and> dwrites t = dwrites s \<and>
     held t = held s - {n} \<and> pinned t = pinned s \<and> bframe s t \<and>
     (\<forall>c m. c \<noteq> b \<longrightarrow> holds s c m \<longrightarrow> holds t c m \<and> b_data (bufs t c) = b_data (bufs s c))"

lemma bunlock:
  assumes ok: "bcache_ok s" and h: "holds s b n" and c: "n \<in> pinned s \<or> disk s n = bview s n"
    and ub: "b_next ub = b_next (bufs s b)" "b_prev ub = b_prev (bufs s b)" "b_refcnt ub = 0"
      "\<not> sl_locked (b_lock ub)" "b_valid ub = b_valid (bufs s b)" "b_dev ub = b_dev (bufs s b)"
      "b_blockno ub = n" "b_data ub = b_data (bufs s b)" "b_dirty ub = b_dirty (bufs s b)"
    and t: "bufs t = (bufs s)(b := ub)" "disk t = disk s" "disksize t = disksize s"
  shows "bcache_ok t" "bview t = bview s" "held t = held s - {n}" "pinned t = pinned s"
    "\<And>c m. c \<noteq> b \<Longrightarrow> holds s c m \<Longrightarrow> holds t c m \<and> b_data (bufs t c) = b_data (bufs s c)"
proof -
  note B = bheldD [OF ok h]
  have links: "nxt t = nxt s" "prv t = prv s" using ub(1,2) by (auto simp: fun_eq_iff t)
  have same: "b_valid (bufs t i) = b_valid (bufs s i)" "b_blockno (bufs t i) = b_blockno (bufs s i)"
    "b_data (bufs t i) = b_data (bufs s i)" "b_dirty (bufs t i) = b_dirty (bufs s i)" for i
    using ub B(3) by (simp_all add: t)
  have bok: "buf_ok t (bufs t i)" if i: "i < NBUF" for i
  proof (cases "i = b")
    case True
    have "b_data ub = disk s n" if "\<not> b_dirty (bufs s b)"
      using that c holds_pinned [OF ok h] holds_view [OF ok h] ub(8) by auto
    then show ?thesis using True B ub by (simp add: buf_ok_def t)
  next
    case False
    then show ?thesis using bcache_okD(1) [OF ok i] t by (simp add: buf_ok_cong [of t s])
  qed
  show "bcache_ok t"
    unfolding bcache_ok_def links same t(2) using bcache_okD(2,3,4) [OF ok] bok by blast
  show "bview t = bview s" "pinned t = pinned s"
    by (simp_all add: bview_def pinned_def same t(2) fun_eq_iff cong: option.case_cong)
  have "m \<in> held t \<longleftrightarrow> m \<in> held s \<and> m \<noteq> n" for m
    unfolding mem_held t(1)
    by (subst ex_slot_upd [OF B(1)])
      (use B(1-3,5) ub(4) bcache_okD(2) [OF ok] buf_okD(4) [OF bcache_okD(1) [OF ok]] in metis)
  then show "held t = held s - {n}" by blast
  show "holds t c m \<and> b_data (bufs t c) = b_data (bufs s c)" if "c \<noteq> b" "holds s c m" for c m
    using that by (simp add: holds_def t)
qed

lemma brelse_ok:
  assumes ok: "bcache_ok s" and h: "holds s b n" and c: "n \<in> pinned s \<or> disk s n = bview s n"
  shows "wp (brelse b s) (\<lambda>_ t. brelse_post s b n t)"
proof -
  note B = bheldD [OF ok h]
  define u where "u = upd_buf b (\<lambda>x. x\<lparr>b_refcnt := b_refcnt x - 1\<rparr>) (releasesleep (BufLockChan b) (upd_block b) s)"
  let ?ub = "(bufs s b)\<lparr>b_lock := (b_lock (bufs s b))\<lparr>sl_locked := False, sl_pid := 0\<rparr>, b_refcnt := 0\<rparr>"
  have bu: "bufs u = (bufs s)(b := ?ub)" and du: "disk u = disk s" "disksize u = disksize s" "dwrites u = dwrites s"
    using B by (simp_all add: u_def releasesleep_def upd_block_def fun_eq_iff)
  have U: "bcache_ok u" "bview u = bview s" "held u = held s - {n}" "pinned u = pinned s"
    "\<And>c m. c \<noteq> b \<Longrightarrow> holds s c m \<Longrightarrow> holds u c m \<and> b_data (bufs u c) = b_data (bufs s c)"
    by (rule bunlock [OF ok h c _ _ _ _ _ _ _ _ _ bu du(1,2)]; use B in simp)+
  have run: "brelse b s = Ok () (move_to_front b u)"
    unfolding brelse_def holdingsleep_def Let_def u_def [symmetric] using B bu by simp
  have fu: "bframe s u"
    unfolding bframe_def
  proof (intro conjI exI)
    show "u = s\<lparr>ptable := ptable u, bufs := bufs u, disk := disk s, dwrites := dwrites s\<rparr>"
      by (simp add: u_def releasesleep_def upd_block_def upd_buf_def wakeup_def wakeup1_def)
    have "ptable u = ptable (wakeup (BufLockChan b) s)"
      by (simp add: u_def releasesleep_def upd_block_def upd_buf_def wakeup_def wakeup1_def)
    then show "woken s u" using woken_wakeup [of s] by (simp add: woken_def)
  qed
  have fm: "bframe u (move_to_front b u)"
    by (subst move_to_front_frame') (rule bframe_bufs)
  note C = same_core [OF move_to_front_core [of b u] move_to_front_frame(1,2)]
    and E = bcore_eqD [OF move_to_front_core [of b u]]
  have "brelse_post s b n (move_to_front b u)"
    unfolding brelse_post_def C E move_to_front_frame U(2-4) du
    using move_to_front_ok [OF U(1) B(1)] U(5) bframe_trans [OF fu fm] by blast
  then show ?thesis by (simp add: run)
qed

subsection \<open>The cache after binit\<close>

lemma binit_core:
  "bufs (binit_step b s) j = (bufs s j)\<lparr>b_next := nxt (binit_step b s) j, b_prev := prv (binit_step b s) j,
     b_lock := (if j = b then initsleeplock else b_lock (bufs s j))\<rparr>"
  by (simp add: binit_step_def Let_def set_next_def set_prev_def upd_block_def)

lemma binit_step_frame [simp]:
  "disk (binit_step b s) = disk s" "disksize (binit_step b s) = disksize s"
  by (simp_all add: binit_step_def Let_def set_next_def set_prev_def upd_block_def)

text \<open>The state of the cache variables before \<open>binit\<close>: C's zero-initialised storage.\<close>

definition zero_buf :: buf where
  "zero_buf = \<lparr>b_valid = False, b_dirty = False, b_dev = 0, b_blockno = 0, b_lock = initsleeplock,
     b_refcnt = 0, b_prev = 0, b_next = 0, b_data = replicate BSIZE 0\<rparr>"

definition bcore_zero :: "'z bio_st_scheme \<Rightarrow> bool" where
  "bcore_zero s \<longleftrightarrow> (\<forall>i. bcore (bufs s i) = bcore zero_buf)"

lemma binit_loop:
  assumes "k \<le> NBUF" and "bcore_zero s" and "ring (nxt s) (prv s) []"
  shows "ring (nxt (fold binit_step [0..<k] s)) (prv (fold binit_step [0..<k] s)) (rev [0..<k]) \<and>
     bcore_zero (fold binit_step [0..<k] s) \<and> disk (fold binit_step [0..<k] s) = disk s \<and>
     disksize (fold binit_step [0..<k] s) = disksize s"
  using assms
proof (induction k)
  case (Suc k)
  let ?t = "fold binit_step [0..<k] s"
  have IH: "ring (nxt ?t) (prv ?t) (rev [0..<k])" "bcore_zero ?t" "disk ?t = disk s" "disksize ?t = disksize s"
    using Suc by simp_all
  have "ring (nxt (binit_step k ?t)) (prv (binit_step k ?t)) (k # rev [0..<k])"
    by (rule binit_step_ring [OF IH(1)]) (use Suc.prems(1) in \<open>simp add: HEAD_def\<close>)
  moreover have "bcore (bufs (binit_step k ?t) j) = bcore zero_buf" for j
  proof -
    have "bcore (bufs ?t j) = bcore zero_buf" using IH(2) by (simp add: bcore_zero_def)
    note c = bcore_eqD [OF this]
    have "b_lock (bufs (binit_step k ?t) j) = b_lock zero_buf"
      using c(5) by (subst binit_core) (simp add: zero_buf_def)
    then show ?thesis using c by (subst binit_core) (simp add: bcore_def zero_buf_def)
  qed
  ultimately show ?case using IH(3,4) by (simp add: bcore_zero_def)
qed simp

lemma binit_ok:
  assumes "bcore_zero s" and "\<And>n. length (disk s n) = BSIZE"
  shows "bcache_ok (binit s)" "bview (binit s) = disk s" "held (binit s) = {}" "pinned (binit s) = {}"
    "disk (binit s) = disk s" "disksize (binit s) = disksize s"
proof -
  let ?s = "set_next HEAD HEAD (set_prev HEAD HEAD s)"
  have z: "bcore_zero ?s" using assms(1) by (simp add: bcore_zero_def)
  have r: "ring (nxt ?s) (prv ?s) []" by (simp add: ring_def)
  have d: "disk ?s = disk s" "disksize ?s = disksize s" by (simp_all add: set_next_def set_prev_def)
  note L = binit_loop [OF order_refl z r, folded binit_def]
  have c: "bcore (bufs (binit s) i) = bcore zero_buf" for i using L by (simp add: bcore_zero_def)
  note E = bcore_eqD [OF c]
  show D: "disk (binit s) = disk s" "disksize (binit s) = disksize s" using L d by simp_all
  show "held (binit s) = {}" "pinned (binit s) = {}"
    by (auto simp: held_def pinned_def E zero_buf_def initsleeplock_def)
  show "bview (binit s) = disk s"
    using bview_uncached [of "binit s"] D by (auto simp: E zero_buf_def)
  have "\<exists>xs. ring (nxt (binit s)) (prv (binit s)) xs \<and> set xs = {0..<NBUF}"
    using L by (metis set_rev set_upt)
  then show "bcache_ok (binit s)"
    unfolding bcache_ok_def
    by (simp add: buf_ok_def E zero_buf_def initsleeplock_def D assms(2))
qed

subsection \<open>What a cache operation leaves alone, whenever it returns\<close>

lemma bframe_upd_buf [simp]: "bframe s (upd_buf b f s)"
  by (simp add: upd_buf_def)

lemma bframe_disk: "bframe s (s\<lparr>disk := d, dwrites := w\<rparr>)"
proof -
  have "s\<lparr>disk := d, dwrites := w\<rparr> = s\<lparr>ptable := ptable s, bufs := bufs s, disk := d, dwrites := w\<rparr>" by simp
  moreover have "woken s (s\<lparr>disk := d, dwrites := w\<rparr>)" by (rule woken_eqI) simp
  ultimately show ?thesis unfolding bframe_def by blast
qed

lemma bframe_wakeup: "bframe s (wakeup c s)"
proof -
  have "wakeup c s = s\<lparr>ptable := ptable (wakeup c s), bufs := bufs s, disk := disk s, dwrites := dwrites s\<rparr>"
    by (simp add: wakeup_def wakeup1_def)
  then show ?thesis unfolding bframe_def using woken_wakeup by blast
qed

lemma bacquire_frame: "bacquire b s = Ok c t \<Longrightarrow> bframe s t"
  by (auto simp: bacquire_def acquiresleep_def bindR_eq_Ok sleep_def upd_block_def
      split: if_splits option.splits)

lemma bget_frame: "bget dev n s = Ok c t \<Longrightarrow> bframe s t"
  by (auto simp: bget_def split: option.splits dest!: bacquire_frame intro: bframe_trans [OF bframe_upd_buf])

lemma iderw_frame: "iderw b s = Ok u t \<Longrightarrow> bframe s t"
  by (auto simp: iderw_def Let_def split: if_splits intro: bframe_trans [OF bframe_disk bframe_upd_buf])

lemma bread_frame: "bread dev n s = Ok c t \<Longrightarrow> bframe s t"
  by (auto simp: bread_def bindR_eq_Ok split: if_splits dest!: bget_frame iderw_frame intro: bframe_trans)

lemma bwrite_frame: "bwrite b s = Ok u t \<Longrightarrow> bframe s t"
  by (auto simp: bwrite_def split: if_splits dest!: iderw_frame intro: bframe_trans [OF bframe_upd_buf])

lemma brelse_frame:
  assumes "brelse b s = Ok u t"
  shows "bframe s t"
proof -
  let ?r = "releasesleep (BufLockChan b) (upd_block b) s"
  let ?u = "upd_buf b (\<lambda>x. x\<lparr>b_refcnt := b_refcnt x - 1\<rparr>) ?r"
  have "bframe s ?r"
    unfolding releasesleep_def upd_block_def by (rule bframe_trans [OF bframe_upd_buf bframe_wakeup])
  then have u: "bframe s ?u" by (rule bframe_trans) simp
  have "t = ?u \<or> t = move_to_front b ?u"
    using assms unfolding brelse_def Let_def by (auto split: if_splits)
  moreover have "bframe ?u (move_to_front b ?u)"
    by (subst move_to_front_frame') (rule bframe_bufs)
  ultimately show ?thesis using u bframe_trans by blast
qed

lemma set_data_frame [simp]: "bframe s (set_data b d s)"
  by (simp add: set_data_def)

lemma set_dirty_frame [simp]: "bframe s (set_dirty b s)"
  by (simp add: set_dirty_def)

lemma keeps_bframe:
  "bframe s t \<Longrightarrow> keeps bframe s (bread dev n t)"
  "bframe s t \<Longrightarrow> keeps bframe s (bwrite b t)"
  "bframe s t \<Longrightarrow> keeps bframe s (brelse b t)"
  by (auto simp: keeps_def intro: bframe_trans dest: bread_frame bwrite_frame brelse_frame)

lemma bframe_put: "bframe s t \<Longrightarrow> bframe s (set_data b d t)" "bframe s t \<Longrightarrow> bframe s (set_dirty b t)"
  by (auto intro: bframe_trans)

lemmas bframe_intros = keeps_bframe bframe_put

subsection \<open>The cache as an interface\<close>

text \<open>
  What the log and the file system rely on. \<open>view\<close> is the current content of the blocks, \<open>dsk\<close>
  that of the disk, \<open>trace\<close> the disk writes so far, oldest first; \<open>has s b n\<close> says that the client
  holds block \<open>n\<close> in buffer \<open>b\<close>. A block may be released when its content has reached the disk or
  is pinned. The room condition is that of the source: one cache slot for every block held or
  pinned.
\<close>

locale block_cache =
  fixes rd :: "nat \<Rightarrow> 's \<Rightarrow> (nat, 's) result"
    and put :: "nat \<Rightarrow> u8 list \<Rightarrow> 's \<Rightarrow> 's"
    and pin :: "nat \<Rightarrow> 's \<Rightarrow> 's"
    and wr :: "nat \<Rightarrow> 's \<Rightarrow> (unit, 's) result"
    and rel :: "nat \<Rightarrow> 's \<Rightarrow> (unit, 's) result"
    and ok :: "'s \<Rightarrow> bool"
    and ready :: "'s \<Rightarrow> bool"
    and size :: "'s \<Rightarrow> nat"
    and has :: "'s \<Rightarrow> nat \<Rightarrow> nat \<Rightarrow> bool"
    and dat :: "'s \<Rightarrow> nat \<Rightarrow> u8 list"
    and view :: "'s \<Rightarrow> nat \<Rightarrow> u8 list"
    and dsk :: "'s \<Rightarrow> nat \<Rightarrow> u8 list"
    and trace :: "'s \<Rightarrow> (nat \<times> u8 list) list"
    and hld :: "'s \<Rightarrow> nat set"
    and pnd :: "'s \<Rightarrow> nat set"
    and frm :: "'s \<Rightarrow> 's \<Rightarrow> bool"
  assumes rd_law: "ok s \<Longrightarrow> n < size s \<Longrightarrow> n \<notin> hld s \<Longrightarrow> card (insert n (hld s \<union> pnd s)) \<le> NBUF \<Longrightarrow> ready s \<Longrightarrow>
      wp (rd n s) (\<lambda>b t. ok t \<and> has t b n \<and> dat t b = view s n \<and> view t = view s \<and> dsk t = dsk s \<and>
        trace t = trace s \<and> hld t = insert n (hld s) \<and> pnd t = pnd s \<and> frm s t \<and>
        (\<forall>c m. has s c m \<longrightarrow> has t c m \<and> dat t c = dat s c))"
    and put_law: "ok s \<Longrightarrow> has s b n \<Longrightarrow> length d = BSIZE \<Longrightarrow>
        ok (put b d s) \<and> has (put b d s) b n \<and> dat (put b d s) b = d \<and> view (put b d s) = (view s)(n := d) \<and>
        dsk (put b d s) = dsk s \<and> trace (put b d s) = trace s \<and> hld (put b d s) = hld s \<and>
        pnd (put b d s) = pnd s \<and> frm s (put b d s) \<and>
        (\<forall>c m. c \<noteq> b \<longrightarrow> has s c m \<longrightarrow> has (put b d s) c m \<and> dat (put b d s) c = dat s c)"
    and pin_law: "ok s \<Longrightarrow> has s b n \<Longrightarrow>
        ok (pin b s) \<and> view (pin b s) = view s \<and> dsk (pin b s) = dsk s \<and> trace (pin b s) = trace s \<and>
        hld (pin b s) = hld s \<and> pnd (pin b s) = insert n (pnd s) \<and> frm s (pin b s) \<and>
        (\<forall>c m. has s c m \<longrightarrow> has (pin b s) c m \<and> dat (pin b s) c = dat s c)"
    and wr_law: "ok s \<Longrightarrow> has s b n \<Longrightarrow>
        wp (wr b s) (\<lambda>_ t. ok t \<and> view t = view s \<and> dsk t = (dsk s)(n := view s n) \<and>
          trace t = trace s @ [(n, view s n)] \<and> hld t = hld s \<and> pnd t = pnd s - {n} \<and> frm s t \<and>
          (\<forall>c m. has s c m \<longrightarrow> has t c m \<and> dat t c = dat s c))"
    and rel_law: "ok s \<Longrightarrow> has s b n \<Longrightarrow> n \<in> pnd s \<or> dsk s n = view s n \<Longrightarrow>
        wp (rel b s) (\<lambda>_ t. ok t \<and> view t = view s \<and> dsk t = dsk s \<and> trace t = trace s \<and>
          hld t = hld s - {n} \<and> pnd t = pnd s \<and> frm s t \<and>
          (\<forall>c m. c \<noteq> b \<longrightarrow> has s c m \<longrightarrow> has t c m \<and> dat t c = dat s c))"
    and has_view: "ok s \<Longrightarrow> has s b n \<Longrightarrow> dat s b = view s n"
    and has_one: "has s b n \<Longrightarrow> has s b m \<Longrightarrow> n = m"
    and clean: "ok s \<Longrightarrow> n \<notin> hld s \<Longrightarrow> n \<notin> pnd s \<Longrightarrow> dsk s n = view s n"
    and len: "ok s \<Longrightarrow> length (view s n) = BSIZE"
    and frm_refl: "frm s s"
    and frm_trans: "frm s t \<Longrightarrow> frm t u \<Longrightarrow> frm s u"
    and frm_fix: "frm s t \<Longrightarrow> size t = size s \<and> ready t = ready s"
begin

lemma rd_rel:
  assumes "ok s" "n < size s" "n \<notin> hld s" "card (insert n (hld s \<union> pnd s)) \<le> NBUF" "ready s"
  shows "wp (bindR (rd n s) (\<lambda>b s. bindR (rel b s) (\<lambda>_ t. Ok (dat s b) t)))
     (\<lambda>d t. d = view s n \<and> ok t \<and> view t = view s \<and> dsk t = dsk s \<and> trace t = trace s \<and>
            hld t = hld s \<and> pnd t = pnd s \<and> frm s t)"
proof -
  obtain b u where u: "rd n s = Ok b u" "ok u" "has u b n" "dat u b = view s n" "view u = view s"
    "dsk u = dsk s" "trace u = trace s" "hld u = insert n (hld s)" "pnd u = pnd s" "frm s u"
    using rd_law [OF assms] by (auto elim: wpE)
  have "n \<in> pnd u \<or> dsk u n = view u n" using clean [OF assms(1,3)] u by auto
  from rel_law [OF u(2,3) this] show ?thesis
    using u assms(3) by (auto elim!: wpE intro: frm_trans)
qed

text \<open>Read a block, replace its content by a function of it, write it through and release it.\<close>

lemma rd_put_wr_rel:
  assumes "ok s" "n < size s" "n \<notin> hld s" "card (insert n (hld s \<union> pnd s)) \<le> NBUF" "ready s"
    and g: "length (g (view s n)) = BSIZE"
  shows "wp (bindR (rd n s) (\<lambda>b s. bindR (wr b (put b (g (dat s b)) s)) (\<lambda>_ s. rel b s)))
     (\<lambda>_ t. ok t \<and> view t = (view s)(n := g (view s n)) \<and> dsk t = (dsk s)(n := g (view s n)) \<and>
            trace t = trace s @ [(n, g (view s n))] \<and> hld t = hld s \<and> pnd t = pnd s - {n} \<and> frm s t)"
proof -
  let ?d = "g (view s n)"
  obtain b u where u: "rd n s = Ok b u" "ok u" "has u b n" "dat u b = view s n" "view u = view s"
    "dsk u = dsk s" "trace u = trace s" "hld u = insert n (hld s)" "pnd u = pnd s" "frm s u"
    using rd_law [OF assms(1-5)] by (auto elim: wpE)
  let ?v = "put b ?d u"
  note p = put_law [OF u(2,3) g]
  obtain w where w: "wr b ?v = Ok () w" "ok w" "view w = (view s)(n := ?d)" "dsk w = (dsk s)(n := ?d)"
    "trace w = trace s @ [(n, ?d)]" "hld w = insert n (hld s)" "pnd w = pnd s - {n}" "frm ?v w" "has w b n"
    using wr_law [of ?v b n] p u by (auto elim: wpE)
  obtain t where t: "rel b w = Ok () t" "ok t" "view t = view w" "dsk t = dsk w" "trace t = trace w"
    "hld t = hld w - {n}" "pnd t = pnd w" "frm w t"
    using rel_law [OF w(2,9)] w by (auto elim: wpE)
  have "frm s t" using u(10) p w(8) t(8) by (blast intro: frm_trans)
  then show ?thesis using u w t assms(3) by auto
qed

text \<open>
  Two ways of copying one block over another through the cache: the log's copy of a pinned block
  to the log (the first block read is the target), and the installation of a log block in its
  home (the second is).
\<close>

lemma copy_to_first:
  assumes s: "ok s" "a < size s" "h < size s" "hld s = {}" "a \<noteq> h" "a \<notin> pnd s" "h \<in> pnd s" "ready s"
    and c: "card (insert a (pnd s)) \<le> NBUF"
  shows "wp (bindR (rd a s) (\<lambda>to s. bindR (rd h s) (\<lambda>from s.
           bindR (wr to (put to (dat s from) s)) (\<lambda>_ s. bindR (rel from s) (\<lambda>_ s. rel to s)))))
     (\<lambda>_ t. ok t \<and> view t = (view s)(a := view s h) \<and> dsk t = (dsk s)(a := view s h) \<and>
            trace t = trace s @ [(a, view s h)] \<and> hld t = {} \<and> pnd t = pnd s \<and> frm s t)"
proof -
  let ?d = "view s h"
  have ci: "insert h (insert a (pnd s)) = insert a (pnd s)" using s(7) by blast
  obtain x u where u: "rd a s = Ok x u" "ok u" "has u x a" "view u = view s" "dsk u = dsk s"
    "trace u = trace s" "hld u = {a}" "pnd u = pnd s" "frm s u"
    using rd_law [OF s(1,2)] s c by (auto elim: wpE)
  obtain y v where v: "rd h u = Ok y v" "ok v" "has v y h" "has v x a" "dat v y = ?d" "view v = view s"
    "dsk v = dsk s" "trace v = trace s" "hld v = {h, a}" "pnd v = pnd s" "frm u v"
    using rd_law [OF u(2), of h] s u frm_fix [OF u(9)] c ci by (auto elim: wpE)
  have xy: "x \<noteq> y" using has_one [OF v(3)] v(4) s(5) by blast
  let ?w = "put x ?d v"
  have w: "ok ?w" "has ?w x a" "has ?w y h" "view ?w = (view s)(a := ?d)" "dsk ?w = dsk s" "trace ?w = trace s"
    "hld ?w = {h, a}" "pnd ?w = pnd s" "frm v ?w"
    using put_law [OF v(2,4) len [OF s(1), of h]] v xy by auto
  obtain p where p: "wr x ?w = Ok () p" "ok p" "view p = (view s)(a := ?d)" "dsk p = (dsk s)(a := ?d)"
    "trace p = trace s @ [(a, ?d)]" "hld p = {h, a}" "pnd p = pnd s" "frm ?w p" "has p x a" "has p y h"
    using wr_law [OF w(1,2)] w s(6) by (auto elim: wpE)
  obtain q where q: "rel y p = Ok () q" "ok q" "view q = view p" "dsk q = dsk p" "trace q = trace p"
    "hld q = {a}" "pnd q = pnd p" "frm p q" "has q x a"
    using rel_law [OF p(2,10)] p s(5,7) xy by (auto elim: wpE)
  obtain t where t: "rel x q = Ok () t" "ok t" "view t = view q" "dsk t = dsk q" "trace t = trace q"
    "hld t = {}" "pnd t = pnd q" "frm q t"
    using rel_law [OF q(2,9)] q p by (auto elim: wpE)
  have "frm s t" using u(9) v(11) w(9) p(8) q(8) t(8) by (blast intro: frm_trans)
  then show ?thesis using u v p q t by simp
qed

lemma copy_to_second:
  assumes s: "ok s" "a < size s" "h < size s" "hld s = {}" "a \<noteq> h" "a \<notin> pnd s" "ready s"
    and c: "card (insert h (insert a (pnd s))) \<le> NBUF"
  shows "wp (bindR (rd a s) (\<lambda>from s. bindR (rd h s) (\<lambda>to s.
           bindR (wr to (put to (dat s from) s)) (\<lambda>_ s. bindR (rel from s) (\<lambda>_ s. rel to s)))))
     (\<lambda>_ t. ok t \<and> view t = (view s)(h := view s a) \<and> dsk t = (dsk s)(h := view s a) \<and>
            trace t = trace s @ [(h, view s a)] \<and> hld t = {} \<and> pnd t = pnd s - {h} \<and> frm s t)"
proof -
  let ?d = "view s a"
  have ca: "card (insert a (pnd s)) \<le> NBUF" using c by (meson card_insert_le le_trans)
  have da: "dsk s a = ?d" using clean [OF s(1)] s(4,6) by simp
  obtain x u where u: "rd a s = Ok x u" "ok u" "has u x a" "view u = view s" "dsk u = dsk s"
    "trace u = trace s" "hld u = {a}" "pnd u = pnd s" "frm s u"
    using rd_law [OF s(1,2)] s ca by (auto elim: wpE)
  obtain y v where v: "rd h u = Ok y v" "ok v" "has v y h" "has v x a" "view v = view s"
    "dsk v = dsk s" "trace v = trace s" "hld v = {h, a}" "pnd v = pnd s" "frm u v"
    using rd_law [OF u(2), of h] s u frm_fix [OF u(9)] c by (auto elim: wpE)
  have xy: "x \<noteq> y" using has_one [OF v(3)] v(4) s(5) by blast
  have dx: "dat v x = ?d" using has_view [OF v(2,4)] v(5) by simp
  let ?w = "put y ?d v"
  have w: "ok ?w" "has ?w x a" "has ?w y h" "view ?w = (view s)(h := ?d)" "dsk ?w = dsk s" "trace ?w = trace s"
    "hld ?w = {h, a}" "pnd ?w = pnd s" "frm v ?w"
    using put_law [OF v(2,3) len [OF s(1), of a]] v xy by auto
  obtain p where p: "wr y ?w = Ok () p" "ok p" "view p = (view s)(h := ?d)" "dsk p = (dsk s)(h := ?d)"
    "trace p = trace s @ [(h, ?d)]" "hld p = {h, a}" "pnd p = pnd s - {h}" "frm ?w p" "has p x a" "has p y h"
    using wr_law [OF w(1,3)] w by (auto elim: wpE)
  have ha: "{h, a} - {a} = {h}" using s(5) by auto
  obtain q where q: "rel x p = Ok () q" "ok q" "view q = view p" "dsk q = dsk p" "trace q = trace p"
    "hld q = {h}" "pnd q = pnd p" "frm p q" "has q y h"
    using rel_law [OF p(2,9), unfolded p(6) ha] p s(5) xy da by (auto elim: wpE)
  obtain t where t: "rel y q = Ok () t" "ok t" "view t = view q" "dsk t = dsk q" "trace t = trace q"
    "hld t = {}" "pnd t = pnd q" "frm q t"
    using rel_law [OF q(2,9)] q p by (auto elim: wpE)
  have "frm s t" using u(9) v(10) w(9) p(8) q(8) t(8) by (blast intro: frm_trans)
  then show ?thesis using u v p q t dx by simp
qed

end

interpretation bc: block_cache "bread 1" set_data set_dirty bwrite brelse bcache_ok "\<lambda>s. curproc s \<noteq> None"
  disksize holds "\<lambda>s b. b_data (bufs s b)" bview disk dwrites held pinned bframe
proof unfold_locales
  fix s :: "'z bio_st_scheme" and n
  assume "bcache_ok s" "n < disksize s" "n \<notin> held s" "card (insert n (held s \<union> pinned s)) \<le> NBUF" "curproc s \<noteq> None"
  from bread_ok [OF this] show "wp (bread 1 n s) (\<lambda>b t. bcache_ok t \<and> holds t b n \<and> b_data (bufs t b) = bview s n \<and>
      bview t = bview s \<and> disk t = disk s \<and> dwrites t = dwrites s \<and> held t = insert n (held s) \<and>
      pinned t = pinned s \<and> bframe s t \<and>
      (\<forall>c m. holds s c m \<longrightarrow> holds t c m \<and> b_data (bufs t c) = b_data (bufs s c)))"
    by (rule wp_mono) (unfold bread_post_def, blast)
next
  fix s :: "'z bio_st_scheme" and b n and d :: "u8 list"
  assume a: "bcache_ok s" "holds s b n" "length d = BSIZE"
  have "disk (set_data b d s) = disk s" "dwrites (set_data b d s) = dwrites s" by (simp_all add: set_data_def)
  with set_data_ok [OF a] show "bcache_ok (set_data b d s) \<and> holds (set_data b d s) b n \<and>
      b_data (bufs (set_data b d s) b) = d \<and> bview (set_data b d s) = (bview s)(n := d) \<and>
      disk (set_data b d s) = disk s \<and> dwrites (set_data b d s) = dwrites s \<and> held (set_data b d s) = held s \<and>
      pinned (set_data b d s) = pinned s \<and> bframe s (set_data b d s) \<and>
      (\<forall>c m. c \<noteq> b \<longrightarrow> holds s c m \<longrightarrow> holds (set_data b d s) c m \<and>
         b_data (bufs (set_data b d s) c) = b_data (bufs s c))"
    by simp
next
  fix s :: "'z bio_st_scheme" and b n
  assume a: "bcache_ok s" "holds s b n"
  have "disk (set_dirty b s) = disk s" "dwrites (set_dirty b s) = dwrites s"
    "\<And>c. b_data (bufs (set_dirty b s) c) = b_data (bufs s c)" by (simp_all add: set_dirty_def)
  with set_dirty_ok [OF a] show "bcache_ok (set_dirty b s) \<and> bview (set_dirty b s) = bview s \<and>
      disk (set_dirty b s) = disk s \<and> dwrites (set_dirty b s) = dwrites s \<and> held (set_dirty b s) = held s \<and>
      pinned (set_dirty b s) = insert n (pinned s) \<and> bframe s (set_dirty b s) \<and>
      (\<forall>c m. holds s c m \<longrightarrow> holds (set_dirty b s) c m \<and> b_data (bufs (set_dirty b s) c) = b_data (bufs s c))"
    by simp
next
  fix s :: "'z bio_st_scheme" and b n
  assume "bcache_ok s" "holds s b n"
  from bwrite_ok [OF this] show "wp (bwrite b s) (\<lambda>_ t. bcache_ok t \<and> bview t = bview s \<and>
      disk t = (disk s)(n := bview s n) \<and> dwrites t = dwrites s @ [(n, bview s n)] \<and> held t = held s \<and>
      pinned t = pinned s - {n} \<and> bframe s t \<and>
      (\<forall>c m. holds s c m \<longrightarrow> holds t c m \<and> b_data (bufs t c) = b_data (bufs s c)))"
    by (rule wp_mono) (unfold bwrite_post_def, blast)
next
  fix s :: "'z bio_st_scheme" and b n
  assume "bcache_ok s" "holds s b n" "n \<in> pinned s \<or> disk s n = bview s n"
  from brelse_ok [OF this] show "wp (brelse b s) (\<lambda>_ t. bcache_ok t \<and> bview t = bview s \<and> disk t = disk s \<and>
      dwrites t = dwrites s \<and> held t = held s - {n} \<and> pinned t = pinned s \<and> bframe s t \<and>
      (\<forall>c m. c \<noteq> b \<longrightarrow> holds s c m \<longrightarrow> holds t c m \<and> b_data (bufs t c) = b_data (bufs s c)))"
    by (rule wp_mono) (unfold brelse_post_def, blast)
qed (auto simp: holds_view length_bview bview_clean bframeD holds_def intro: bframe_trans)

subsection \<open>Properties\<close>

definition bio_boot :: bio_st where
  "bio_boot = sched_st.extend sched_boot
     (bio_st.fields (\<lambda>_. zero_buf) (\<lambda>_. replicate BSIZE 0) FSSIZE [])"

lemma bio_boot_simps [simp]:
  "bufs bio_boot = (\<lambda>_. zero_buf)" "disk bio_boot = (\<lambda>_. replicate BSIZE 0)" "disksize bio_boot = FSSIZE"
  "dwrites bio_boot = []" "curproc bio_boot = Some 0"
  by (simp_all add: bio_boot_def sched_boot_def vm_boot_def vm_st.defs sched_st.defs kmem_st.defs bio_st.defs)

lemma binit_curproc [simp]: "curproc (binit s) = curproc s"
proof -
  have "curproc (fold binit_step xs s) = curproc s" for xs and s :: "'a bio_st_scheme"
    by (induction xs arbitrary: s)
      (simp_all add: binit_step_def Let_def set_next_def set_prev_def upd_block_def)
  then show ?thesis by (simp add: binit_def set_next_def set_prev_def)
qed

lemma bio_boot_ok:
  "bcache_ok (binit bio_boot)" "bview (binit bio_boot) = (\<lambda>_. replicate BSIZE 0)" "held (binit bio_boot) = {}"
  "pinned (binit bio_boot) = {}" "disksize (binit bio_boot) = FSSIZE" "disk (binit bio_boot) = (\<lambda>_. replicate BSIZE 0)"
  using binit_ok [of bio_boot] by (simp_all add: bcore_zero_def)

text \<open>
  C8. From zeroed storage \<open>binit\<close> builds a cache that satisfies the invariant: the ring links all
  \<open>NBUF\<close> buffers in both directions, nothing is held or pinned, and every block reads as the disk
  has it.
\<close>

theorem binit_establishes:
  assumes "\<forall>i. bufs s i = zero_buf" and "\<forall>n. length (disk s n) = BSIZE"
  shows "bcache_ok (binit s) \<and> bview (binit s) = disk s \<and> held (binit s) = {} \<and> pinned (binit s) = {}"
  using binit_ok [of s] assms by (simp add: bcore_zero_def)

theorem binit_establishes_witness:
  "bcache_ok (binit bio_boot) \<and> bview (binit bio_boot) = disk bio_boot \<and> held (binit bio_boot) = {} \<and>
   pinned (binit bio_boot) = {}"
  by (rule binit_establishes) simp_all

text \<open>
  C6. \<open>bread\<close> returns. Given the invariant, a block in range that the caller does not hold and one
  free slot in the cache, it gives the buffer, locked, holding the current content of the block
  (the newest in the cache, or the disk's); it keeps the invariant, changes the content of no
  block, writes nothing to the disk and disturbs no buffer already held.
\<close>

theorem bread_current:
  assumes "bcache_ok s" "n < disksize s" "n \<notin> held s" "card (insert n (held s \<union> pinned s)) \<le> NBUF"
    "curproc s \<noteq> None"
  shows "wp (bread 1 n s) (\<lambda>b t. b_data (bufs t b) = bview s n \<and> holds t b n \<and> bcache_ok t \<and>
     bview t = bview s \<and> held t = insert n (held s) \<and> pinned t = pinned s \<and> disk t = disk s \<and>
     dwrites t = dwrites s \<and> (\<forall>c m. holds s c m \<longrightarrow> holds t c m \<and> b_data (bufs t c) = b_data (bufs s c)))"
  using bc.rd_law [OF assms] by (rule wp_mono) blast

theorem bread_current_witness:
  "wp (bread 1 7 (binit bio_boot)) (\<lambda>b t. b_data (bufs t b) = bview (binit bio_boot) 7 \<and> holds t b 7 \<and>
     bcache_ok t \<and> bview t = bview (binit bio_boot) \<and> held t = insert 7 (held (binit bio_boot)) \<and>
     pinned t = pinned (binit bio_boot) \<and> disk t = disk (binit bio_boot) \<and> dwrites t = dwrites (binit bio_boot) \<and>
     (\<forall>c m. holds (binit bio_boot) c m \<longrightarrow> holds t c m \<and> b_data (bufs t c) = b_data (bufs (binit bio_boot) c)))"
  by (rule bread_current) (simp_all add: bio_boot_ok)


lemma binit_ring: "ring (nxt (binit bio_boot)) (prv (binit bio_boot)) (rev [0..<NBUF])"
  using binit_loop [OF order_refl, of "set_next HEAD HEAD (set_prev HEAD HEAD bio_boot)"]
  by (simp add: binit_def bcore_zero_def ring_def)


end
