(* ===== verification/Log.thy ===== *)
theory Log
  imports Bio
begin

section \<open>The log (log.c) and the super block\<close>

text \<open>
  Write-ahead logging on top of the buffer cache. The in-memory log is a layer of state above the
  cache; the loops of \<open>write_log\<close> and \<open>install_trans\<close> are counted loops over cache operations. The
  log spin lock makes \<open>begin_op\<close>, the bookkeeping half of \<open>end_op\<close> and \<open>log_write\<close> atomic steps.
  Block counts and positions that the code keeps in an \<open>int\<close> are naturals.
\<close>

subsection \<open>Data\<close>

record superblock =
  sb_size :: u32
  sb_nblocks :: u32
  sb_ninodes :: u32
  sb_nlog :: u32
  sb_logstart :: u32
  sb_inodestart :: u32
  sb_bmapstart :: u32

definition dec_sb :: "u8 list \<Rightarrow> superblock" where
  "dec_sb d = \<lparr>sb_size = dec32 (slice 0 4 d), sb_nblocks = dec32 (slice 4 4 d), sb_ninodes = dec32 (slice 8 4 d),
     sb_nlog = dec32 (slice 12 4 d), sb_logstart = dec32 (slice 16 4 d), sb_inodestart = dec32 (slice 20 4 d),
     sb_bmapstart = dec32 (slice 24 4 d)\<rparr>"

record log_st = bio_st +
  l_start :: nat
  l_size :: nat
  l_outstanding :: int
  l_committing :: bool
  l_dev :: nat
  l_n :: nat
  l_block :: "nat \<Rightarrow> u32"

text \<open>
  The header block: a count and then block numbers, 32 bits each. A negative count, which
  ends every loop over it at once, reads as 0.
\<close>

definition hdr_n :: "u8 list \<Rightarrow> nat" where
  "hdr_n d = nat (sint (dec32 (slice 0 4 d)))"

definition hdr_block :: "u8 list \<Rightarrow> nat \<Rightarrow> u32" where
  "hdr_block d i = dec32 (slice (4 + 4 * i) 4 d)"

definition hdr_put :: "nat \<Rightarrow> (nat \<Rightarrow> u32) \<Rightarrow> u8 list \<Rightarrow> u8 list" where
  "hdr_put n blk d =
     fold (\<lambda>i d. splice_at (4 + 4 * i) (enc32 (blk i)) d) [0..<n] (splice_at 0 (enc32 (of_nat n)) d)"

definition readsb :: "nat \<Rightarrow> 'z bio_st_scheme \<Rightarrow> (superblock, 'z bio_st_scheme) result" where
  "readsb dev s =
     bindR (bread dev 1 s) (\<lambda>bp s.
       let sb = dec_sb (b_data (bufs s bp)) in bindR (brelse bp s) (\<lambda>_ s. Ok sb s))"

subsection \<open>Commit and recovery\<close>

definition install_one :: "nat \<Rightarrow> 'z log_st_scheme \<Rightarrow> (unit, 'z log_st_scheme) result" where
  "install_one tail s =
     (let dev = l_dev s; a = l_start s + tail + 1; h = unat (l_block s tail) in
      bindR (bread dev a s) (\<lambda>lbuf s.
      bindR (bread dev h s) (\<lambda>dbuf s.
      bindR (bwrite dbuf (set_data dbuf (b_data (bufs s lbuf)) s)) (\<lambda>_ s.
      bindR (brelse lbuf s) (\<lambda>_ s.
      brelse dbuf s)))))"

definition install_trans :: "'z log_st_scheme \<Rightarrow> (unit, 'z log_st_scheme) result" where
  "install_trans s = for_each install_one [0..<l_n s] s"

text \<open>
  A count above \<open>LOGSIZE\<close> would write past the end of \<open>log.lh.block\<close>: the source does not
  check for it and the outcome is undefined.
\<close>

definition read_head :: "'z log_st_scheme \<Rightarrow> (unit, 'z log_st_scheme) result" where
  "read_head s =
     bindR (bread (l_dev s) (l_start s) s) (\<lambda>buf s.
       let d = b_data (bufs s buf); n = hdr_n d in
       if n > LOGSIZE then Stuck
       else brelse buf (s\<lparr>l_n := n, l_block := (\<lambda>i. if i < n then hdr_block d i else l_block s i)\<rparr>))"

definition write_head :: "'z log_st_scheme \<Rightarrow> (unit, 'z log_st_scheme) result" where
  "write_head s =
     (let n = l_n s; blk = l_block s in
      bindR (bread (l_dev s) (l_start s) s) (\<lambda>buf s.
      bindR (bwrite buf (set_data buf (hdr_put n blk (b_data (bufs s buf))) s)) (\<lambda>_ s.
      brelse buf s)))"

definition recover_from_log :: "'z log_st_scheme \<Rightarrow> (unit, 'z log_st_scheme) result" where
  "recover_from_log s =
     bindR (read_head s) (\<lambda>_ s.
     bindR (install_trans s) (\<lambda>_ s.
     write_head (s\<lparr>l_n := 0\<rparr>)))"

definition initlog :: "nat \<Rightarrow> 'z log_st_scheme \<Rightarrow> (unit, 'z log_st_scheme) result" where
  "initlog dev s =
     (if 4 + 4 * LOGSIZE \<ge> BSIZE then Panic ''initlog: too big logheader''
      else bindR (readsb dev s) (\<lambda>sb s.
        recover_from_log (s\<lparr>l_start := unat (sb_logstart sb), l_size := unat (sb_nlog sb), l_dev := dev\<rparr>)))"

definition write_log_one :: "nat \<Rightarrow> 'z log_st_scheme \<Rightarrow> (unit, 'z log_st_scheme) result" where
  "write_log_one tail s =
     (let dev = l_dev s; a = l_start s + tail + 1; h = unat (l_block s tail) in
      bindR (bread dev a s) (\<lambda>to s.
      bindR (bread dev h s) (\<lambda>from s.
      bindR (bwrite to (set_data to (b_data (bufs s from)) s)) (\<lambda>_ s.
      bindR (brelse from s) (\<lambda>_ s.
      brelse to s)))))"

definition write_log :: "'z log_st_scheme \<Rightarrow> (unit, 'z log_st_scheme) result" where
  "write_log s = for_each write_log_one [0..<l_n s] s"

definition commit :: "'z log_st_scheme \<Rightarrow> (unit, 'z log_st_scheme) result" where
  "commit s =
     (if l_n s > 0
      then bindR (write_log s) (\<lambda>_ s.
           bindR (write_head s) (\<lambda>_ s.
           bindR (install_trans s) (\<lambda>_ s.
           write_head (s\<lparr>l_n := 0\<rparr>))))
      else Ok () s)"

subsection \<open>Transactions\<close>

text \<open>A caller put to sleep by \<open>begin_op\<close> runs the test again when it is woken.\<close>

definition begin_op :: "'z log_st_scheme \<Rightarrow> (unit, 'z log_st_scheme) result" where
  "begin_op s =
     (if l_committing s then sleep LogChan s
      else if int (l_n s) + (l_outstanding s + 1) * int MAXOPBLOCKS > int LOGSIZE then sleep LogChan s
      else Ok () (s\<lparr>l_outstanding := l_outstanding s + 1\<rparr>))"

definition end_op :: "'z log_st_scheme \<Rightarrow> (unit, 'z log_st_scheme) result" where
  "end_op s =
     (let s = s\<lparr>l_outstanding := l_outstanding s - 1\<rparr> in
      if l_committing s then Panic ''log.committing''
      else if l_outstanding s = 0
      then bindR (commit (s\<lparr>l_committing := True\<rparr>)) (\<lambda>_ s.
             Ok () (wakeup LogChan (s\<lparr>l_committing := False\<rparr>)))
      else Ok () (wakeup LogChan s))"

definition log_write :: "nat \<Rightarrow> 'z log_st_scheme \<Rightarrow> (unit, 'z log_st_scheme) result" where
  "log_write b s =
     (if l_n s \<ge> LOGSIZE \<or> l_n s \<ge> l_size s - 1 then Panic ''too big a transaction''
      else if l_outstanding s < 1 then Panic ''log_write outside of trans''
      else let bn = b_blockno (bufs s b);
               i = (case first_slot (l_n s) (\<lambda>i. unat (l_block s i) = bn) of Some i \<Rightarrow> i | None \<Rightarrow> l_n s);
               s = s\<lparr>l_block := (l_block s)(i := of_nat bn)\<rparr>;
               s = (if i = l_n s then s\<lparr>l_n := l_n s + 1\<rparr> else s)
           in Ok () (set_dirty b s))"

subsection \<open>The header encoding\<close>

lemma sint_of_nat32: "n < 2 ^ 31 \<Longrightarrow> sint (of_nat n :: u32) = int n"
proof -
  assume n: "n < 2 ^ 31"
  have "sint (word_of_int (int n) :: u32) = signed_take_bit 31 (int n)"
    by (subst sint_sbintrunc') simp
  also have "\<dots> = int n"
    by (rule signed_take_bit_int_eq_self) (use n in simp_all)
  finally show ?thesis by simp
qed

lemma length_hdr_put [simp]:
  "n \<le> LOGSIZE \<Longrightarrow> length d = BSIZE \<Longrightarrow> length (hdr_put n blk d) = BSIZE"
proof -
  assume n: "n \<le> LOGSIZE" and d: "length d = BSIZE"
  have "length (fold (\<lambda>i d. splice_at (4 + 4 * i) (enc32 (blk i)) d) [0..<k] (splice_at 0 (enc32 (of_nat n)) d)) = BSIZE"
    if "k \<le> LOGSIZE" for k
    using that d by (induction k) simp_all
  from this [OF n] show ?thesis by (simp add: hdr_put_def)
qed

lemma hdr_block_put:
  assumes n: "n \<le> LOGSIZE" and d: "length d = BSIZE" and i: "i < n"
  shows "hdr_block (hdr_put n blk d) i = blk i"
proof -
  let ?f = "\<lambda>k. fold (\<lambda>i d. splice_at (4 + 4 * i) (enc32 (blk i)) d) [0..<k] (splice_at 0 (enc32 (of_nat n)) d)"
  have l: "length (?f k) = BSIZE" if "k \<le> LOGSIZE" for k using that d by (induction k) simp_all
  have "dec32 (slice (4 + 4 * i) 4 (?f k)) = blk i" if "i < k" "k \<le> LOGSIZE" for k
    using that
  proof (induction k)
    case (Suc k)
    have lk: "length (?f k) = 512" using l [of k] Suc.prems by simp
    show ?case
    proof (cases "i = k")
      case True
      then show ?thesis using lk Suc.prems by (simp add: codec)
    next
      case False
      then have "slice (4 + 4 * i) 4 (splice_at (4 + 4 * k) (enc32 (blk k)) (?f k)) = slice (4 + 4 * i) 4 (?f k)"
        by (intro slice_splice_disjoint) (use lk Suc.prems in simp_all)
      then show ?thesis using False Suc by simp
    qed
  qed simp
  from this [OF i n] show ?thesis by (simp add: hdr_block_def hdr_put_def)
qed

lemma hdr_n_put:
  assumes n: "n \<le> LOGSIZE" and d: "length d = BSIZE"
  shows "hdr_n (hdr_put n blk d) = n"
proof -
  let ?f = "\<lambda>k. fold (\<lambda>i d. splice_at (4 + 4 * i) (enc32 (blk i)) d) [0..<k] (splice_at 0 (enc32 (of_nat n)) d)"
  have l: "length (?f k) = BSIZE" if "k \<le> LOGSIZE" for k using that d by (induction k) simp_all
  have "slice 0 4 (?f k) = enc32 (of_nat n)" if "k \<le> LOGSIZE" for k
    using that
  proof (induction k)
    case 0
    then show ?case using d by (simp add: codec)
  next
    case (Suc k)
    have "slice 0 4 (splice_at (4 + 4 * k) (enc32 (blk k)) (?f k)) = slice 0 4 (?f k)"
      by (intro slice_splice_disjoint) (use l [of k] Suc.prems in simp_all)
    then show ?case using Suc by simp
  qed
  from this [OF n] have "dec32 (slice 0 4 (hdr_put n blk d)) = of_nat n"
    by (simp add: hdr_put_def codec)
  moreover have "sint (of_nat n :: u32) = int n"
    using n by (intro sint_of_nat32) simp
  ultimately show ?thesis by (simp add: hdr_n_def)
qed

subsection \<open>What a disk means to recovery\<close>

definition apply_writes :: "(nat \<times> u8 list) list \<Rightarrow> (nat \<Rightarrow> u8 list) \<Rightarrow> nat \<Rightarrow> u8 list" where
  "apply_writes ws d = fold (\<lambda>(n, v) d. d(n := v)) ws d"

text \<open>The blocks a committed header at \<open>start\<close> says are in the log, with their homes.\<close>

definition logged :: "nat \<Rightarrow> (nat \<Rightarrow> u8 list) \<Rightarrow> (nat \<times> u8 list) list" where
  "logged start d =
     map (\<lambda>i. (unat (hdr_block (d start) i), d (start + i + 1))) [0..<hdr_n (d start)]"

definition recovered :: "nat \<Rightarrow> (nat \<Rightarrow> u8 list) \<Rightarrow> nat \<Rightarrow> u8 list" where
  "recovered start d = apply_writes (logged start d) d"

definition log_region :: "nat \<Rightarrow> nat set" where
  "log_region start = {start..<start + LOGSIZE}"

lemma apply_writes_simps [simp]:
  "apply_writes [] d = d"
  "apply_writes ((n, v) # ws) d = apply_writes ws (d(n := v))"
  by (simp_all add: apply_writes_def)

lemma apply_writes_append [simp]:
  "apply_writes (ws @ vs) d = apply_writes vs (apply_writes ws d)"
  by (simp add: apply_writes_def)

lemma apply_writes_other: "m \<notin> fst ` set ws \<Longrightarrow> apply_writes ws d m = d m"
  by (induction ws arbitrary: d) auto

lemma apply_writes_absorb:
  "(\<And>m. m \<notin> fst ` set ws \<Longrightarrow> d m = d' m) \<Longrightarrow> apply_writes ws d = apply_writes ws d'"
proof (induction ws arbitrary: d d')
  case (Cons w ws)
  obtain n v where w: "w = (n, v)" by (cases w)
  have "apply_writes ws (d(n := v)) = apply_writes ws (d'(n := v))"
    by (rule Cons.IH) (use Cons.prems w in auto)
  then show ?case using w by simp
qed auto

lemma apply_writes_prefix:
  "apply_writes ws (apply_writes (take k ws) d) = apply_writes ws d"
proof (rule apply_writes_absorb)
  fix m
  assume "m \<notin> fst ` set ws"
  then have "m \<notin> fst ` set (take k ws)" by (meson image_mono in_mono set_take_subset)
  then show "apply_writes (take k ws) d m = d m" by (rule apply_writes_other)
qed

lemma apply_writes_in:
  assumes "m \<in> fst ` set ws" and "\<And>v. (m, v) \<in> set ws \<Longrightarrow> v = x"
  shows "apply_writes ws d m = x"
  using assms
proof (induction ws arbitrary: d)
  case (Cons w ws)
  obtain n v where w: "w = (n, v)" by (cases w)
  show ?case
  proof (cases "m \<in> fst ` set ws")
    case True
    then show ?thesis using Cons w by simp
  next
    case False
    then have "n = m" using Cons.prems(1) w by auto
    then show ?thesis using Cons.prems(2) w apply_writes_other [OF False] by simp
  qed
qed simp

lemma logged_cong:
  assumes "d start = d' start" and "\<And>i. i < hdr_n (d start) \<Longrightarrow> d (start + i + 1) = d' (start + i + 1)"
  shows "logged start d = logged start d'"
  using assms by (simp add: logged_def)

subsection \<open>The loops over the log\<close>

text \<open>The cache's view depends on the cache and the disk only.\<close>

lemma bio_cong:
  assumes "bufs t = bufs s" "disk t = disk s" "disksize t = disksize s"
  shows "bcache_ok t = bcache_ok s" "bview t = bview s" "held t = held s" "pinned t = pinned s" "holds t = holds s"
  using assms
  by (simp_all add: bcache_ok_def buf_ok_def bview_def held_def pinned_def holds_def fun_eq_iff cong: option.case_cong)

lemma log_upd_bio [simp]:
  "bcache_ok (s\<lparr>l_n := n\<rparr>) = bcache_ok s" "bview (s\<lparr>l_n := n\<rparr>) = bview s"
  "held (s\<lparr>l_n := n\<rparr>) = held s" "pinned (s\<lparr>l_n := n\<rparr>) = pinned s" "holds (s\<lparr>l_n := n\<rparr>) = holds s"
  "bcache_ok (s\<lparr>l_block := k\<rparr>) = bcache_ok s" "bview (s\<lparr>l_block := k\<rparr>) = bview s"
  "held (s\<lparr>l_block := k\<rparr>) = held s" "pinned (s\<lparr>l_block := k\<rparr>) = pinned s" "holds (s\<lparr>l_block := k\<rparr>) = holds s"
  "bcache_ok (s\<lparr>l_outstanding := i\<rparr>) = bcache_ok s" "bview (s\<lparr>l_outstanding := i\<rparr>) = bview s"
  "held (s\<lparr>l_outstanding := i\<rparr>) = held s" "pinned (s\<lparr>l_outstanding := i\<rparr>) = pinned s"
  "holds (s\<lparr>l_outstanding := i\<rparr>) = holds s"
  "bcache_ok (s\<lparr>l_committing := c\<rparr>) = bcache_ok s" "bview (s\<lparr>l_committing := c\<rparr>) = bview s"
  "held (s\<lparr>l_committing := c\<rparr>) = held s" "pinned (s\<lparr>l_committing := c\<rparr>) = pinned s"
  "holds (s\<lparr>l_committing := c\<rparr>) = holds s"
  by (rule bio_cong; simp)+

abbreviation home :: "'z log_st_scheme \<Rightarrow> nat \<Rightarrow> nat" where
  "home s i \<equiv> unat (l_block s i)"

definition same_log :: "'z log_st_scheme \<Rightarrow> 'z log_st_scheme \<Rightarrow> bool" where
  "same_log s t \<longleftrightarrow> l_start t = l_start s \<and> l_size t = l_size s \<and> l_outstanding t = l_outstanding s \<and>
     l_committing t = l_committing s \<and> l_dev t = l_dev s \<and> l_n t = l_n s \<and> l_block t = l_block s \<and>
     disksize t = disksize s \<and> curproc t = curproc s \<and> log_st.more t = log_st.more s \<and> woken s t"

lemma bframe_log: "bframe s t \<Longrightarrow> same_log s t"
  unfolding bframe_def same_log_def by auto

lemma same_log_refl [simp]: "same_log s s"
  by (simp add: same_log_def woken_eqI)

lemma same_log_trans: "same_log s t \<Longrightarrow> same_log t u \<Longrightarrow> same_log s u"
  unfolding same_log_def by (metis woken_trans)

lemma same_log_n: "same_log s t \<Longrightarrow> same_log (s\<lparr>l_n := n\<rparr>) (t\<lparr>l_n := n\<rparr>)"
  by (simp add: same_log_def woken_def)

text \<open>A log ready for commit or recovery: no buffer is held, and the log's blocks are in range and
  apart from the blocks in it.\<close>

definition log_geom :: "'z log_st_scheme \<Rightarrow> bool" where
  "log_geom s \<longleftrightarrow> bcache_ok s \<and> held s = {} \<and> curproc s \<noteq> None \<and> l_dev s = 1 \<and>
     l_start s + LOGSIZE \<le> disksize s \<and> l_n s < LOGSIZE \<and>
     pinned s \<inter> log_region (l_start s) = {} \<and>
     (\<forall>i<l_n s. home s i < disksize s \<and> home s i \<notin> log_region (l_start s))"

lemma log_geomI:
  assumes "log_geom s" "bcache_ok t" "held t = {}" "pinned t \<subseteq> pinned s" "same_log s t"
  shows "log_geom t"
proof -
  have "pinned t \<inter> log_region (l_start t) = {}"
    using assms by (auto simp only: log_geom_def same_log_def)
  then show ?thesis using assms(1-3,5) by (simp only: log_geom_def same_log_def) simp
qed

lemma finite_pinned [simp]: "finite (pinned s)"
  by (simp add: pinned_def)

lemma card_insert_pinned: "card (pinned s) < NBUF \<Longrightarrow> card (insert a (pinned s)) \<le> NBUF"
  by (simp add: card_insert_if)

lemma log_block_region: "log_geom s \<Longrightarrow> k < l_n s \<Longrightarrow> l_start s + k + 1 \<in> log_region (l_start s)"
  by (simp add: log_region_def log_geom_def)

lemma home_ne_start: "log_geom s \<Longrightarrow> k < l_n s \<Longrightarrow> home s k \<noteq> l_start s"
  by (auto simp: log_geom_def log_region_def)

lemma home_region: "log_geom s \<Longrightarrow> k < l_n s \<Longrightarrow> home s k \<notin> log_region (l_start s) \<and> home s k < disksize s"
  by (simp only: log_geom_def) simp

text \<open>Writes to log blocks only leave every block outside the region alone.\<close>

lemma apply_log_writes_other:
  assumes "k < LOGSIZE" and "m \<notin> log_region st"
  shows "apply_writes (map (\<lambda>i. (st + i + 1, f i)) [0..<k]) d m = d m"
  by (rule apply_writes_other) (use assms in \<open>auto simp: log_region_def\<close>)

definition log_writes :: "'z log_st_scheme \<Rightarrow> nat \<Rightarrow> (nat \<times> u8 list) list" where
  "log_writes s k = map (\<lambda>i. (l_start s + i + 1, bview s (home s i))) [0..<k]"

lemma log_writes_Suc: "log_writes s (Suc k) = log_writes s k @ [(l_start s + k + 1, bview s (home s k))]"
  by (simp add: log_writes_def)

lemma write_log_one_ok:
  assumes g: "log_geom s" and p: "home s k \<in> pinned s" and c: "card (pinned s) < NBUF" and k: "k < l_n s"
  shows "wp (write_log_one k s) (\<lambda>_ u.
     bcache_ok u \<and> bview u = (bview s)(l_start s + k + 1 := bview s (home s k)) \<and>
     disk u = (disk s)(l_start s + k + 1 := bview s (home s k)) \<and>
     dwrites u = dwrites s @ [(l_start s + k + 1, bview s (home s k))] \<and>
     held u = {} \<and> pinned u = pinned s \<and> bframe s u)"
proof -
  let ?a = "l_start s + k + 1" and ?h = "home s k"
  note ar = log_block_region [OF g k] and hr = home_region [OF g k]
  have "?a \<notin> pinned s" using g ar by (auto simp only: log_geom_def)
  moreover have "?a < disksize s" using g k by (simp add: log_geom_def)
  ultimately show ?thesis
    using g bc.copy_to_first [of s ?a ?h] p ar hr card_insert_pinned [OF c]
    unfolding write_log_one_def Let_def log_geom_def by metis
qed

lemma write_log_ok:
  assumes g: "log_geom s" and p: "\<And>i. i < l_n s \<Longrightarrow> home s i \<in> pinned s" and c: "card (pinned s) < NBUF"
  shows "wp (write_log s) (\<lambda>_ t. bcache_ok t \<and> held t = {} \<and> pinned t = pinned s \<and> same_log s t \<and>
     bview t = apply_writes (log_writes s (l_n s)) (bview s) \<and>
     disk t = apply_writes (log_writes s (l_n s)) (disk s) \<and> dwrites t = dwrites s @ log_writes s (l_n s))"
proof -
  let ?I = "\<lambda>k t. bcache_ok t \<and> held t = {} \<and> pinned t = pinned s \<and> same_log s t \<and>
      bview t = apply_writes (log_writes s k) (bview s) \<and> disk t = apply_writes (log_writes s k) (disk s) \<and>
      dwrites t = dwrites s @ log_writes s k"
  have step: "wp (write_log_one k t) (\<lambda>_ u. ?I (Suc k) u)" if k: "k < l_n s" and I: "?I k t" for k t
  proof -
    have g': "log_geom t" using log_geomI [OF g] I by blast
    have sl: "l_start t = l_start s" "l_block t = l_block s" "l_n t = l_n s" using I by (simp_all only: same_log_def)
    have "k < LOGSIZE" using k g by (simp add: log_geom_def)
    then have "apply_writes (log_writes s k) (bview s) (home s k) = bview s (home s k)"
      unfolding log_writes_def by (rule apply_log_writes_other) (use home_region [OF g k] in blast)
    then have vh: "bview t (home s k) = bview s (home s k)" using I by simp
    have "wp (write_log_one k t) (\<lambda>_ u.
       bcache_ok u \<and> bview u = (bview t)(l_start s + k + 1 := bview s (home s k)) \<and>
       disk u = (disk t)(l_start s + k + 1 := bview s (home s k)) \<and>
       dwrites u = dwrites t @ [(l_start s + k + 1, bview s (home s k))] \<and>
       held u = {} \<and> pinned u = pinned t \<and> bframe t u)"
      using write_log_one_ok [OF g', of k] p [OF k] c I k unfolding sl vh by simp
    then show ?thesis
      by (rule wp_mono) (use I in \<open>auto simp: log_writes_Suc intro: same_log_trans bframe_log\<close>)
  qed
  have "?I 0 s" using g by (simp add: log_geom_def log_writes_def)
  then show ?thesis unfolding write_log_def using step by (intro wp_for_upt [of "l_n s" ?I])
qed

lemma install_one_ok:
  assumes g: "log_geom s" and c: "card (insert (home s k) (insert (l_start s + k + 1) (pinned s))) \<le> NBUF"
    and k: "k < l_n s"
  shows "wp (install_one k s) (\<lambda>_ u.
     bcache_ok u \<and> bview u = (bview s)(home s k := bview s (l_start s + k + 1)) \<and>
     disk u = (disk s)(home s k := bview s (l_start s + k + 1)) \<and>
     dwrites u = dwrites s @ [(home s k, bview s (l_start s + k + 1))] \<and>
     held u = {} \<and> pinned u = pinned s - {home s k} \<and> bframe s u)"
proof -
  let ?a = "l_start s + k + 1" and ?h = "home s k"
  note ar = log_block_region [OF g k] and hr = home_region [OF g k]
  have "?a \<notin> pinned s" using g ar by (auto simp only: log_geom_def)
  moreover have "?a < disksize s" using g k by (simp add: log_geom_def)
  ultimately show ?thesis
    using g bc.copy_to_second [of s ?a ?h] ar hr c
    unfolding install_one_def Let_def log_geom_def by metis
qed

text \<open>The home writes of \<open>install_trans\<close>, for log contents \<open>f\<close>.\<close>

definition home_writes :: "'z log_st_scheme \<Rightarrow> nat \<Rightarrow> (nat \<times> u8 list) list" where
  "home_writes s k = map (\<lambda>i. (home s i, bview s (l_start s + i + 1))) [0..<k]"

lemma home_writes_Suc: "home_writes s (Suc k) = home_writes s k @ [(home s k, bview s (l_start s + k + 1))]"
  by (simp add: home_writes_def)

lemma home_writes_region:
  assumes "log_geom s" "k \<le> l_n s" "m \<in> log_region (l_start s)"
  shows "apply_writes (home_writes s k) d m = d m"
proof (rule apply_writes_other)
  show "m \<notin> fst ` set (home_writes s k)"
    using assms home_region [OF assms(1)] by (auto simp: home_writes_def)
qed

text \<open>
  Room for the installation: while block \<open>k\<close> is being installed its home is pinned (during a
  commit) or nothing is (during recovery).
\<close>

lemma install_trans_ok:
  assumes g: "log_geom s"
    and c: "(\<forall>i<l_n s. home s i \<in> pinned s) \<and> inj_on (home s) {..<l_n s} \<and> card (pinned s) < NBUF \<or> pinned s = {}"
  shows "wp (install_trans s) (\<lambda>_ t. bcache_ok t \<and> held t = {} \<and> pinned t = pinned s - home s ` {..<l_n s} \<and>
     same_log s t \<and> bview t = apply_writes (home_writes s (l_n s)) (bview s) \<and>
     disk t = apply_writes (home_writes s (l_n s)) (disk s) \<and> dwrites t = dwrites s @ home_writes s (l_n s))"
proof -
  let ?I = "\<lambda>k t. bcache_ok t \<and> held t = {} \<and> pinned t = pinned s - home s ` {..<k} \<and> same_log s t \<and>
      bview t = apply_writes (home_writes s k) (bview s) \<and> disk t = apply_writes (home_writes s k) (disk s) \<and>
      dwrites t = dwrites s @ home_writes s k"
  have step: "wp (install_one k t) (\<lambda>_ u. ?I (Suc k) u)" if k: "k < l_n s" and I: "?I k t" for k t
  proof -
    have g': "log_geom t" using log_geomI [OF g] I by blast
    have sl: "l_start t = l_start s" "l_block t = l_block s" "l_n t = l_n s" using I by (simp_all only: same_log_def)
    have va: "bview t (l_start s + k + 1) = bview s (l_start s + k + 1)"
      using I home_writes_region [OF g _ log_block_region [OF g k]] k by simp
    have "card (insert (home s k) (insert (l_start s + k + 1) (pinned t))) \<le> NBUF"
      using c
    proof
      assume a: "(\<forall>i<l_n s. home s i \<in> pinned s) \<and> inj_on (home s) {..<l_n s} \<and> card (pinned s) < NBUF"
      have "home s k \<noteq> home s i" if "i < k" for i
        using a k that inj_onD [of "home s" "{..<l_n s}" k i] by auto
      then have "home s k \<in> pinned t" using I k a by auto
      then have "insert (home s k) (insert (l_start s + k + 1) (pinned t)) = insert (l_start s + k + 1) (pinned t)" by blast
      moreover have "card (pinned t) \<le> card (pinned s)" using I by (intro card_mono) auto
      ultimately show ?thesis using a by (metis card_insert_pinned le_less_trans)
    next
      assume "pinned s = {}"
      then show ?thesis using I by (simp add: card_insert_if)
    qed
    then have "wp (install_one k t) (\<lambda>_ u.
       bcache_ok u \<and> bview u = (bview t)(home s k := bview s (l_start s + k + 1)) \<and>
       disk u = (disk t)(home s k := bview s (l_start s + k + 1)) \<and>
       dwrites u = dwrites t @ [(home s k, bview s (l_start s + k + 1))] \<and>
       held u = {} \<and> pinned u = pinned t - {home s k} \<and> bframe t u)"
      using install_one_ok [OF g', of k] k unfolding sl va by blast
    then show ?thesis
      by (rule wp_mono) (use I in \<open>auto simp: home_writes_Suc lessThan_Suc intro: same_log_trans bframe_log\<close>)
  qed
  have "?I 0 s" using g by (simp add: log_geom_def home_writes_def)
  then show ?thesis unfolding install_trans_def using step by (intro wp_for_upt [of "l_n s" ?I])
qed

lemma write_head_ok:
  assumes g: "log_geom s" and c: "card (pinned s) < NBUF"
  shows "wp (write_head s) (\<lambda>_ t. let h = hdr_put (l_n s) (l_block s) (bview s (l_start s)) in
     bcache_ok t \<and> held t = {} \<and> pinned t = pinned s \<and> same_log s t \<and>
     bview t = (bview s)(l_start s := h) \<and> disk t = (disk s)(l_start s := h) \<and>
     dwrites t = dwrites s @ [(l_start s, h)])"
proof -
  have r: "l_start s \<notin> pinned s" using g by (auto simp: log_geom_def log_region_def)
  have "wp (bindR (bread 1 (l_start s) s) (\<lambda>b t.
      bindR (bwrite b (set_data b (hdr_put (l_n s) (l_block s) (b_data (bufs t b))) t)) (\<lambda>_ s. brelse b s)))
     (\<lambda>_ t. bcache_ok t \<and> bview t = (bview s)(l_start s := hdr_put (l_n s) (l_block s) (bview s (l_start s))) \<and>
       disk t = (disk s)(l_start s := hdr_put (l_n s) (l_block s) (bview s (l_start s))) \<and>
       dwrites t = dwrites s @ [(l_start s, hdr_put (l_n s) (l_block s) (bview s (l_start s)))] \<and>
       held t = held s \<and> pinned t = pinned s - {l_start s} \<and> bframe s t)"
    by (rule bc.rd_put_wr_rel)
       (use g card_insert_pinned [OF c] length_bview [of s "l_start s"] in \<open>auto simp: log_geom_def\<close>)
  then show ?thesis
    unfolding write_head_def Let_def using g r
    by (simp only: log_geom_def) (erule wp_mono, auto dest: bframe_log)
qed

subsection \<open>Commit\<close>

text \<open>
  The log between system calls: the blocks in it are distinct, pinned, in range and outside the
  log's own area, and the header on the disk is clear.
\<close>

definition log_ok :: "'z log_st_scheme \<Rightarrow> bool" where
  "log_ok s \<longleftrightarrow> log_geom s \<and> inj_on (home s) {..<l_n s} \<and> pinned s = home s ` {..<l_n s} \<and>
     l_n s < NBUF \<and> hdr_n (disk s (l_start s)) = 0"

text \<open>The disk writes of a commit, in order.\<close>

definition commit_trace :: "'z log_st_scheme \<Rightarrow> (nat \<times> u8 list) list" where
  "commit_trace s =
     (let n = l_n s; h = hdr_put n (l_block s) (bview s (l_start s)) in
      log_writes s n @ [(l_start s, h)] @ map (\<lambda>i. (home s i, bview s (home s i))) [0..<n]
        @ [(l_start s, hdr_put 0 (l_block s) h)])"

lemma log_writes_at:
  assumes "i < k"
  shows "apply_writes (log_writes s k) d (l_start s + i + 1) = bview s (home s i)"
  by (rule apply_writes_in) (use assms in \<open>auto simp: log_writes_def image_iff\<close>)

lemma log_writes_start: "apply_writes (log_writes s k) d (l_start s) = d (l_start s)"
  by (rule apply_writes_other) (auto simp: log_writes_def)

lemma log_writes_home:
  "log_geom s \<Longrightarrow> m \<notin> log_region (l_start s) \<Longrightarrow> apply_writes (log_writes s (l_n s)) d m = d m"
  unfolding log_writes_def by (rule apply_log_writes_other) (simp_all add: log_geom_def)

lemma card_home: "log_ok s \<Longrightarrow> card (pinned s) = l_n s"
  by (simp add: log_ok_def card_image)

lemma commit_ok:
  assumes ok: "log_ok s" and n: "l_n s > 0"
  shows "wp (commit s) (\<lambda>_ t. bcache_ok t \<and> held t = {} \<and> pinned t = {} \<and> same_log (s\<lparr>l_n := 0\<rparr>) t \<and>
     bview t = apply_writes (commit_trace s) (bview s) \<and>
     disk t = apply_writes (commit_trace s) (disk s) \<and> dwrites t = dwrites s @ commit_trace s)"
proof -
  have g: "log_geom s" and c: "card (pinned s) < NBUF" and pin: "pinned s = home s ` {..<l_n s}"
    and inj: "inj_on (home s) {..<l_n s}"
    using ok card_home [OF ok] by (simp_all add: log_ok_def)
  let ?W = "log_writes s (l_n s)" and ?h = "hdr_put (l_n s) (l_block s) (bview s (l_start s))"
  obtain a where a: "write_log s = Ok () a" "bcache_ok a" "held a = {}" "pinned a = pinned s" "same_log s a"
    "bview a = apply_writes ?W (bview s)" "disk a = apply_writes ?W (disk s)" "dwrites a = dwrites s @ ?W"
    using write_log_ok [OF g _ c] pin by (auto elim: wpE)
  have ga: "log_geom a" using log_geomI [OF g a(2,3) _ a(5)] a(4) by simp
  have la: "l_start a = l_start s" "l_block a = l_block s" "l_n a = l_n s" using a(5) by (simp_all only: same_log_def)
  have "bview a (l_start s) = bview s (l_start s)" using a(6) log_writes_start by simp
  then obtain b where b: "write_head a = Ok () b" "bcache_ok b" "held b = {}" "pinned b = pinned s" "same_log a b"
    "bview b = (bview a)(l_start s := ?h)" "disk b = (disk a)(l_start s := ?h)" "dwrites b = dwrites a @ [(l_start s, ?h)]"
    using write_head_ok [OF ga] c a(4) unfolding la Let_def by (auto elim: wpE)
  have gb: "log_geom b" using log_geomI [OF ga b(2,3) _ b(5)] b(4) a(4) by simp
  have lb: "l_start b = l_start s" "l_block b = l_block s" "l_n b = l_n s" using b(5) la by (simp_all only: same_log_def)
  have vb: "bview b (l_start s + i + 1) = bview s (home s i)" if "i < l_n s" for i
    using b(6) a(6) log_writes_at [OF that] by simp
  let ?H = "map (\<lambda>i. (home s i, bview s (home s i))) [0..<l_n s]"
  have H: "home_writes b (l_n b) = ?H" using vb by (simp add: home_writes_def lb)
  obtain u where u: "install_trans b = Ok () u" "bcache_ok u" "held u = {}" "pinned u = {}" "same_log b u"
    "bview u = apply_writes ?H (bview b)" "disk u = apply_writes ?H (disk b)" "dwrites u = dwrites b @ ?H"
    using install_trans_ok [OF gb] b(4) c pin inj unfolding H unfolding lb by (auto elim: wpE)
  have gu: "log_geom u" using log_geomI [OF gb u(2,3) _ u(5)] u(4) by simp
  have lu: "l_start u = l_start s" "l_block u = l_block s" "l_n u = l_n s" using u(5) lb by (simp_all only: same_log_def)
  let ?u = "u\<lparr>l_n := 0\<rparr>"
  have g0: "log_geom ?u" using gu by (simp add: log_geom_def)
  have st: "l_start s \<notin> home s ` {..<l_n s}" using home_ne_start [OF g] by fastforce
  have vu: "bview u (l_start s) = ?h"
    using u(6) b(6) st apply_writes_other [of "l_start s" ?H] by (auto simp: image_image lessThan_atLeast0)
  obtain t where t: "write_head ?u = Ok () t" "bcache_ok t" "held t = {}" "pinned t = {}" "same_log ?u t"
    "bview t = (bview u)(l_start s := hdr_put 0 (l_block s) ?h)"
    "disk t = (disk u)(l_start s := hdr_put 0 (l_block s) ?h)"
    "dwrites t = dwrites u @ [(l_start s, hdr_put 0 (l_block s) ?h)]"
    using write_head_ok [OF g0] u(4) vu by (auto simp: Let_def lu elim: wpE)
  have "same_log (s\<lparr>l_n := 0\<rparr>) t"
    using same_log_n [OF same_log_trans [OF same_log_trans [OF a(5) b(5)] u(5)]] t(5)
    by (rule same_log_trans)
  then show ?thesis
    using n a b u t by (simp add: commit_def commit_trace_def Let_def)
qed

subsection \<open>Recovery\<close>

text \<open>A disk whose log header recovery can follow.\<close>

definition recoverable :: "nat \<Rightarrow> nat \<Rightarrow> (nat \<Rightarrow> u8 list) \<Rightarrow> bool" where
  "recoverable start sz d \<longleftrightarrow> hdr_n (d start) < LOGSIZE \<and>
     (\<forall>i<hdr_n (d start). unat (hdr_block (d start) i) < sz \<and>
        unat (hdr_block (d start) i) \<notin> log_region start)"

text \<open>The state of a machine that has just booted, with the log's place known.\<close>

definition booted :: "'z log_st_scheme \<Rightarrow> bool" where
  "booted r \<longleftrightarrow> bcache_ok r \<and> held r = {} \<and> pinned r = {} \<and> curproc r \<noteq> None \<and> l_dev r = 1 \<and>
     l_start r + LOGSIZE \<le> disksize r"

lemma hdr_put_0: "hdr_put 0 blk d = splice_at 0 (enc32 0) d"
  by (simp add: hdr_put_def)

lemma read_head_ok:
  assumes b: "booted r" and rc: "recoverable (l_start r) (disksize r) (disk r)"
  shows "wp (read_head r) (\<lambda>_ t. booted t \<and> log_geom t \<and> bview t = bview r \<and> disk t = disk r \<and>
     dwrites t = dwrites r \<and> l_start t = l_start r \<and> l_n t = hdr_n (disk r (l_start r)) \<and>
     disksize t = disksize r \<and> (\<forall>i<l_n t. l_block t i = hdr_block (disk r (l_start r)) i))"
proof -
  let ?n = "l_start r"
  have ok: "bcache_ok r" "held r = {}" "pinned r = {}" "curproc r \<noteq> None" "l_dev r = 1" "?n < disksize r"
    using b by (simp_all add: booted_def)
  have v: "bview r ?n = disk r ?n" using bview_clean [OF ok(1)] ok(2,3) by simp
  obtain x u where u: "bread 1 ?n r = Ok x u" "bcache_ok u" "holds u x ?n" "b_data (bufs u x) = disk r ?n"
    "bview u = bview r" "disk u = disk r" "dwrites u = dwrites r" "held u = {?n}" "pinned u = {}" "bframe r u"
    using bc.rd_law [OF ok(1,6)] ok v by (auto elim: wpE)
  let ?N = "hdr_n (disk r ?n)"
  define w where "w = u\<lparr>l_n := ?N, l_block := (\<lambda>i. if i < ?N then hdr_block (disk r ?n) i else l_block u i)\<rparr>"
  have w: "bcache_ok w" "holds w x ?n" "disk w = disk r" "bview w = bview r" "held w = {?n}" "pinned w = {}" "dwrites w = dwrites r"
    using u by (simp_all add: w_def)
  obtain t where t: "brelse x w = Ok () t" "bcache_ok t" "bview t = bview r" "disk t = disk r" "dwrites t = dwrites r"
    "held t = {}" "pinned t = {}" "bframe w t"
    using bc.rel_law [OF w(1,2)] w v by (auto elim: wpE)
  have wr: "same_log u (w\<lparr>l_n := l_n u, l_block := l_block u\<rparr>)" by (simp add: w_def same_log_def woken_def)
  have L: "l_n t = ?N" "l_start t = ?n" "l_dev t = 1" "disksize t = disksize r" "curproc t \<noteq> None"
     "l_block t = (\<lambda>i. if i < ?N then hdr_block (disk r ?n) i else l_block u i)"
    using bframe_log [OF t(8)] bframe_log [OF u(10)] ok by (auto simp: same_log_def w_def)
  have bt: "booted t" using t L b by (simp add: booted_def)
  moreover have "log_geom t"
    using bt rc L by (auto simp: booted_def log_geom_def recoverable_def)
  moreover have "read_head r = Ok () t"
    using ok(5) u rc t(1) by (simp add: read_head_def Let_def recoverable_def w_def cong: if_cong)
  ultimately show ?thesis using t L by simp
qed

lemma recover_ok:
  assumes b: "booted r" and rc: "recoverable (l_start r) (disksize r) (disk r)"
  shows "wp (recover_from_log r) (\<lambda>_ t. let h = splice_at 0 (enc32 0) (disk r (l_start r)) in
     booted t \<and> l_n t = 0 \<and> l_start t = l_start r \<and> disksize t = disksize r \<and>
     dwrites t = dwrites r @ logged (l_start r) (disk r) @ [(l_start r, h)] \<and>
     disk t = (recovered (l_start r) (disk r))(l_start r := h) \<and> bview t = disk t)"
proof -
  let ?st = "l_start r" and ?h = "splice_at 0 (enc32 0) (disk r (l_start r))"
  have v: "bview r = disk r" using bview_clean [of r] b by (simp add: booted_def fun_eq_iff)
  obtain a where a: "read_head r = Ok () a" "booted a" "log_geom a" "bview a = disk r" "disk a = disk r"
    "dwrites a = dwrites r" "l_start a = ?st" "l_n a = hdr_n (disk r ?st)" "disksize a = disksize r"
    "\<And>i. i < l_n a \<Longrightarrow> l_block a i = hdr_block (disk r ?st) i"
    using read_head_ok [OF b rc] v by (auto elim: wpE)
  have H: "home_writes a (l_n a) = logged ?st (disk r)"
    using a(8,10) by (simp add: home_writes_def logged_def a(4,7))
  obtain u where u: "install_trans a = Ok () u" "bcache_ok u" "held u = {}" "pinned u = {}" "same_log a u"
    "bview u = recovered ?st (disk r)" "disk u = recovered ?st (disk r)" "dwrites u = dwrites r @ logged ?st (disk r)"
    using install_trans_ok [OF a(3)] a(2,4-6) H by (auto simp: booted_def recovered_def elim: wpE)
  have lu: "l_start u = ?st" "disksize u = disksize r" using u(5) a(7,9) by (simp_all only: same_log_def)
  have g0: "log_geom (u\<lparr>l_n := 0\<rparr>)"
    using a(3) u by (simp add: log_geom_def same_log_def)
  have hu: "bview u ?st = disk r ?st"
    unfolding u(6) recovered_def H [symmetric]
    by (rule home_writes_region [OF a(3), THEN trans]) (simp_all add: a(7) log_region_def)
  obtain t where t: "write_head (u\<lparr>l_n := 0\<rparr>) = Ok () t" "bcache_ok t" "held t = {}" "pinned t = {}"
    "same_log (u\<lparr>l_n := 0\<rparr>) t" "disk t = (disk u)(?st := ?h)" "dwrites t = dwrites u @ [(?st, ?h)]"
    "bview t = (bview u)(?st := ?h)"
    using write_head_ok [OF g0] u(4) hu by (auto simp: Let_def lu hdr_put_0 elim: wpE)
  have "booted t" "l_n t = 0" "l_start t = ?st" "disksize t = disksize r"
    using t(2-5) a(2,7,9) u(5) by (simp_all add: booted_def same_log_def)
  then show ?thesis
    using a(1) u t by (simp add: recover_from_log_def)
qed

subsection \<open>Crash safety\<close>

lemma log_ok_clean: "log_ok s \<Longrightarrow> m \<notin> home s ` {..<l_n s} \<Longrightarrow> disk s m = bview s m"
  by (rule bview_clean) (simp_all add: log_ok_def log_geom_def)

lemma logged_clear: "hdr_n (d start) = 0 \<Longrightarrow> logged start d = []"
  by (simp add: logged_def)

text \<open>The disk after the log has been written and its header committed, and some homes installed.\<close>

lemma logged_committed:
  assumes ok: "log_ok s" and k: "k \<le> l_n s"
    and d: "d = apply_writes (take k (map (\<lambda>i. (home s i, bview s (home s i))) [0..<l_n s]))
        ((apply_writes (log_writes s (l_n s)) (disk s))(l_start s := hdr_put (l_n s) (l_block s) (bview s (l_start s))))"
  shows "logged (l_start s) d = map (\<lambda>i. (home s i, bview s (home s i))) [0..<l_n s]"
proof -
  let ?h = "hdr_put (l_n s) (l_block s) (bview s (l_start s))"
  let ?e = "(apply_writes (log_writes s (l_n s)) (disk s))(l_start s := ?h)"
  let ?H = "map (\<lambda>i. (home s i, bview s (home s i))) [0..<l_n s]"
  have g: "log_geom s" using ok by (simp add: log_ok_def)
  have n: "l_n s \<le> LOGSIZE" and lb: "length (bview s (l_start s)) = BSIZE"
    using g length_bview by (auto simp: log_geom_def)
  have reg: "d m = ?e m" if "m \<in> log_region (l_start s)" for m
    unfolding d
  proof (rule apply_writes_other)
    show "m \<notin> fst ` set (take k ?H)"
    proof
      assume "m \<in> fst ` set (take k ?H)"
      then have "m \<in> fst ` set ?H" by (meson image_mono in_mono set_take_subset)
      then show False using that home_region [OF g] by auto
    qed
  qed
  have h: "d (l_start s) = ?h" using reg [of "l_start s"] by (simp add: log_region_def)
  have "d (l_start s + i + 1) = bview s (home s i)" if "i < l_n s" for i
    using reg [OF log_block_region [OF g that]] log_writes_at [OF that] by simp
  then show ?thesis
    unfolding logged_def h by (simp add: hdr_n_put [OF n lb] hdr_block_put [OF n lb])
qed

lemma home_install:
  assumes ok: "log_ok s" and m: "m \<notin> log_region (l_start s)" and d: "m \<notin> home s ` {..<l_n s} \<Longrightarrow> d m = disk s m"
  shows "apply_writes (map (\<lambda>i. (home s i, bview s (home s i))) [0..<l_n s]) d m = bview s m"
proof (cases "m \<in> home s ` {..<l_n s}")
  case True
  then show ?thesis by (intro apply_writes_in) (auto simp: image_iff)
next
  case False
  then have "m \<notin> fst ` set (map (\<lambda>i. (home s i, bview s (home s i))) [0..<l_n s])" by auto
  from apply_writes_other [OF this] show ?thesis using d [OF False] log_ok_clean [OF ok False] by (rule trans [OF _ trans])
qed

lemma length_log_writes [simp]: "length (log_writes s k) = k"
  by (simp add: log_writes_def)

lemma take_log_writes: "k \<le> n \<Longrightarrow> take k (log_writes s n) = log_writes s k"
  by (simp add: log_writes_def take_map)

lemma commit_prefix_recovered:
  assumes ok: "log_ok s" and k: "k \<le> length (commit_trace s)" and m: "m \<notin> log_region (l_start s)"
  shows "recovered (l_start s) (apply_writes (take k (commit_trace s)) (disk s)) m =
    (if k \<le> l_n s then disk s m else bview s m)"
proof -
  let ?n = "l_n s" and ?st = "l_start s"
  let ?h = "hdr_put ?n (l_block s) (bview s ?st)" and ?W = "log_writes s ?n"
  let ?H = "map (\<lambda>i. (home s i, bview s (home s i))) [0..<?n]" and ?z = "hdr_put 0 (l_block s)"
  let ?e = "(apply_writes ?W (disk s))(?st := ?h)"
  have g: "log_geom s" and h0: "hdr_n (disk s ?st) = 0" using ok by (simp_all add: log_ok_def)
  have em: "?e m = disk s m" using m log_writes_home [OF g m] by (auto simp: log_region_def)
  have nh: "apply_writes (take j ?H) ?e m = disk s m" if "m \<notin> home s ` {..<?n}" for j
  proof -
    have "m \<notin> fst ` set (take j ?H)" using that by (auto dest!: in_set_takeD)
    from apply_writes_other [OF this] show ?thesis using em by (rule trans)
  qed
  have "length (commit_trace s) = 2 * ?n + 2" by (simp add: commit_trace_def Let_def)
  then consider "k \<le> ?n" | "?n < k" "k \<le> 2 * ?n + 1" | "k = 2 * ?n + 2" using k by linarith
  then show ?thesis
  proof cases
    case 1
    then have t: "take k (commit_trace s) = log_writes s k" by (simp add: commit_trace_def Let_def take_log_writes)
    have "logged ?st (apply_writes (log_writes s k) (disk s)) = []"
      by (rule logged_clear) (simp add: log_writes_start h0)
    moreover have "apply_writes (log_writes s k) (disk s) m = disk s m"
      unfolding log_writes_def
      by (rule apply_log_writes_other) (use 1 g m in \<open>simp_all add: log_geom_def\<close>)
    ultimately show ?thesis using 1 t by (simp add: recovered_def)
  next
    case 2
    define j where "j = k - ?n - 1"
    have k: "k = ?n + 1 + j" and j: "j \<le> ?n" using 2 by (simp_all add: j_def)
    have t: "take k (commit_trace s) = ?W @ [(?st, ?h)] @ take j ?H" using j by (simp add: k commit_trace_def Let_def)
    let ?d = "apply_writes (take j ?H) ?e"
    have "logged ?st ?d = ?H" by (rule logged_committed [OF ok j refl])
    moreover have "apply_writes ?H ?d m = bview s m" by (rule home_install [OF ok m]) (rule nh)
    ultimately show ?thesis using 2 t by (simp add: recovered_def)
  next
    case 3
    then have t: "take k (commit_trace s) = ?W @ [(?st, ?h)] @ ?H @ [(?st, ?z ?h)]" by (simp add: commit_trace_def Let_def)
    let ?d = "(apply_writes ?H ?e)(?st := ?z ?h)"
    have lb: "length ?h = BSIZE"
      by (rule length_hdr_put) (use g length_bview [of s] in \<open>simp_all add: log_geom_def\<close>)
    have "logged ?st ?d = []" by (rule logged_clear) (use hdr_n_put [OF _ lb, of 0] in simp)
    moreover have "apply_writes ?H ?e m = bview s m" by (rule home_install [OF ok m]) (use em in simp)
    moreover have "m \<noteq> ?st" using m by (auto simp: log_region_def)
    ultimately show ?thesis using 3 t by (simp add: recovered_def)
  qed
qed

lemma commit_prefix_recoverable:
  assumes ok: "log_ok s" and k: "k \<le> length (commit_trace s)"
  shows "recoverable (l_start s) (disksize s) (apply_writes (take k (commit_trace s)) (disk s))"
proof -
  have g: "log_geom s" and h0: "hdr_n (disk s (l_start s)) = 0" using ok by (simp_all add: log_ok_def)
  let ?h = "hdr_put (l_n s) (l_block s) (bview s (l_start s))"
  have n: "l_n s \<le> LOGSIZE" "l_n s < LOGSIZE" and lb: "length (bview s (l_start s)) = BSIZE"
    using g length_bview by (auto simp: log_geom_def)
  have hs: "v = ?h \<or> v = hdr_put 0 (l_block s) ?h" if "(l_start s, v) \<in> set (commit_trace s)" for v
    using that home_ne_start [OF g] by (fastforce simp: commit_trace_def Let_def log_writes_def)
  have "apply_writes ws (disk s) (l_start s) = disk s (l_start s) \<or>
      (l_start s, apply_writes ws (disk s) (l_start s)) \<in> set ws" for ws
    by (induction ws rule: rev_induct) (auto split: if_splits)
  then have "apply_writes (take k (commit_trace s)) (disk s) (l_start s) \<in> {disk s (l_start s), ?h, hdr_put 0 (l_block s) ?h}"
    using hs in_set_takeD by fast
  moreover have "hdr_n (hdr_put 0 (l_block s) ?h) = 0" using hdr_n_put [of 0 ?h] n lb by simp
  ultimately show ?thesis
    using h0 n home_region [OF g] by (auto simp: recoverable_def hdr_n_put [OF n(1) lb] hdr_block_put [OF n(1) lb])
qed

lemma recover_prefix:
  assumes rc: "recoverable start sz d" and k: "k \<le> length (logged start d) + 1" and len: "length (d start) = BSIZE"
    and w: "w = logged start d @ [(start, splice_at 0 (enc32 0) (d start))]" and m: "m \<noteq> start"
  shows "recovered start (apply_writes (take k w) d) m = recovered start d m"
    and "recoverable start sz (apply_writes (take k w) d)"
proof -
  let ?L = "logged start d"
  have reg: "apply_writes (take j ?L) d x = d x" if "x \<in> log_region start" for x j
  proof (rule apply_writes_other)
    show "x \<notin> fst ` set (take j ?L)"
      using that rc by (auto simp: logged_def recoverable_def dest!: in_set_takeD)
  qed
  have st: "start \<in> log_region start" by (simp add: log_region_def)
  have "recovered start (apply_writes (take k w) d) m = recovered start d m \<and>
        recoverable start sz (apply_writes (take k w) d)"
  proof (cases "k \<le> length ?L")
    case True
    then have t: "take k w = take k ?L" by (simp add: w)
    have "logged start (apply_writes (take k ?L) d) = ?L"
      by (rule logged_cong) (use reg st rc in \<open>auto simp: log_region_def recoverable_def\<close>)
    then have "recovered start (apply_writes (take k ?L) d) = recovered start d"
      by (simp add: recovered_def apply_writes_prefix)
    moreover have "recoverable start sz (apply_writes (take k ?L) d)"
      using rc reg [OF st] by (simp add: recoverable_def)
    ultimately show ?thesis using t by simp
  next
    case False
    then have t: "take k w = ?L @ [(start, splice_at 0 (enc32 0) (d start))]" using k by (simp add: w)
    have z: "hdr_n (splice_at 0 (enc32 0) (d start)) = 0" using hdr_n_put [OF _ len, of 0] by (simp add: hdr_put_0)
    then have "logged start ((apply_writes ?L d)(start := splice_at 0 (enc32 0) (d start))) = []"
      by (intro logged_clear) simp
    then show ?thesis using t m z by (simp add: recovered_def recoverable_def)
  qed
  then show "recovered start (apply_writes (take k w) d) m = recovered start d m"
    and "recoverable start sz (apply_writes (take k w) d)" by blast+
qed

subsection \<open>log_write\<close>

text \<open>
  The log inside a system call: as between system calls, but buffers may be held.
\<close>

definition log_inv :: "'z log_st_scheme \<Rightarrow> bool" where
  "log_inv s \<longleftrightarrow> bcache_ok s \<and> curproc s \<noteq> None \<and> l_dev s = 1 \<and> l_start s + LOGSIZE \<le> disksize s \<and>
     disksize s \<le> 2 ^ 32 \<and> l_size s \<le> LOGSIZE \<and> l_n s < NBUF \<and>
     (\<forall>i<l_n s. home s i \<notin> log_region (l_start s)) \<and>
     inj_on (home s) {..<l_n s} \<and> pinned s = home s ` {..<l_n s} \<and> hdr_n (disk s (l_start s)) = 0"

lemma log_inv_ok: "log_inv s \<Longrightarrow> held s = {} \<Longrightarrow> log_ok s"
proof -
  assume i: "log_inv s" and h: "held s = {}"
  have "home s i < disksize s" if "i < l_n s" for i
    by (rule held_pinned_bound) (use i that in \<open>auto simp: log_inv_def\<close>)
  then show ?thesis using i h by (auto simp: log_inv_def log_ok_def log_geom_def)
qed

lemma log_write_ok:
  assumes i: "log_inv s" and h: "holds s b m" and m: "m \<notin> log_region (l_start s)"
    and n: "Suc (l_n s) < l_size s" and o: "l_outstanding s \<ge> 1"
  shows "wp (log_write b s) (\<lambda>_ t. log_inv t \<and> bview t = bview s \<and> disk t = disk s \<and> dwrites t = dwrites s \<and>
     held t = held s \<and> pinned t = insert m (pinned s) \<and> l_n t = card (insert m (pinned s)) \<and>
     (\<forall>c k. holds s c k \<longrightarrow> holds t c k \<and> b_data (bufs t c) = b_data (bufs s c)))"
proof -
  have bm: "b_blockno (bufs s b) = m" using h by (simp add: holds_def)
  have ok: "bcache_ok s" "disksize s \<le> 2 ^ 32" "l_size s \<le> LOGSIZE" "pinned s = home s ` {..<l_n s}" "inj_on (home s) {..<l_n s}"
    using i by (simp_all add: log_inv_def)
  have "m < disksize s" using bheldD(8) [OF ok(1) h] .
  then have u: "unat (of_nat m :: u32) = m" using ok(2) by (simp add: unat_of_nat take_bit_eq_mod)
  have cn: "card (pinned s) = l_n s" using ok(4,5) by (simp add: card_image)
  have D: "bcache_ok (set_dirty b s)" "bview (set_dirty b s) = bview s" "held (set_dirty b s) = held s"
    "pinned (set_dirty b s) = insert m (pinned s)" "disk (set_dirty b s) = disk s" "dwrites (set_dirty b s) = dwrites s"
    "\<And>c k. holds s c k \<Longrightarrow> holds (set_dirty b s) c k" "\<And>c. b_data (bufs (set_dirty b s) c) = b_data (bufs s c)"
    using set_dirty_ok [OF ok(1) h] by (simp_all add: set_dirty_def)
  show ?thesis
  proof (cases "first_slot (l_n s) (\<lambda>i. home s i = m)")
    case (Some j)
    then have j: "j < l_n s" "home s j = m" by (simp_all add: first_slot_Some)
    then have e: "(l_block s)(j := of_nat m) = l_block s" using word_unat_eq_iff u by (metis fun_upd_triv)
    have r: "log_write b s = Ok () (set_dirty b s)"
      using n o ok(3) Some bm j by (simp add: log_write_def Let_def e)
    have mp: "insert m (pinned s) = pinned s" using j ok(4) by auto
    have fr: "same_log s (set_dirty b s)" by (rule bframe_log) simp
    have "log_inv (set_dirty b s)"
      using i D fr mp by (simp add: log_inv_def same_log_def)
    then show ?thesis using r D cn mp fr by (simp add: same_log_def)
  next
    case None
    then have ne: "home s i \<noteq> m" if "i < l_n s" for i using that by (simp add: first_slot_None)
    then have mp: "m \<notin> pinned s" using ok(4) by auto
    let ?t = "s\<lparr>l_block := (l_block s)(l_n s := of_nat m), l_n := l_n s + 1\<rparr>"
    have r: "log_write b s = Ok () (set_dirty b ?t)"
      using n o ok(3) None bm by (simp add: log_write_def Let_def)
    define w where "w = set_dirty b ?t"
    have T: "bcache_ok w" "bview w = bview s" "held w = held s"
      "pinned w = insert m (pinned s)" "disk w = disk s" "dwrites w = dwrites s"
      "\<And>c k. holds s c k \<Longrightarrow> holds w c k" "\<And>c. b_data (bufs w c) = b_data (bufs s c)"
      using set_dirty_ok [of ?t b m] ok(1) h by (simp_all add: set_dirty_def w_def)
    have L: "l_n w = Suc (l_n s)" "l_start w = l_start s" "l_dev w = l_dev s"
      "l_size w = l_size s" "disksize w = disksize s" "curproc w = curproc s"
      and H: "\<And>i. home w i = (if i = l_n s then m else home s i)"
      using u by (simp_all add: set_dirty_def upd_buf_def w_def)
    have img: "home w ` {..<Suc (l_n s)} = insert m (pinned s)"
      using ok(4) by (auto simp: H lessThan_Suc)
    have "inj_on (home w) {..<Suc (l_n s)}"
      using ok(5) mp unfolding ok(4) by (auto simp: H inj_on_def less_Suc_eq)
    then have "log_inv w"
      using i T img m n ok(3) unfolding log_inv_def L H by (auto simp: less_Suc_eq)
    then show ?thesis using r [folded w_def] T L mp cn by simp
  qed
qed

subsection \<open>Properties\<close>


text \<open>Example states: a booted machine with disk \<open>d\<close>, and one with a one-block transaction in its log.\<close>

definition log_boot :: "(nat \<Rightarrow> u8 list) \<Rightarrow> log_st" where
  "log_boot d = binit (bio_st.extend (bio_boot\<lparr>disk := d\<rparr>) (log_st.fields 2 30 0 False 1 0 (\<lambda>_. 0)))"

definition zero_disk :: "nat \<Rightarrow> u8 list" where
  "zero_disk = (\<lambda>_. replicate BSIZE 0)"

definition log_demo :: log_st where
  "log_demo = (let s = (log_boot zero_disk)\<lparr>l_n := 1, l_block := (\<lambda>_. 100), l_outstanding := 1\<rparr>
     in upd_buf 0 (\<lambda>b. b\<lparr>b_valid := True, b_dirty := True, b_dev := 1, b_blockno := 100,
                            b_data := replicate BSIZE 7\<rparr>) s)"

lemma binit_log_frame:
  fixes s :: "'a log_st_scheme"
  shows "l_start (binit s) = l_start s" "l_size (binit s) = l_size s" "l_outstanding (binit s) = l_outstanding s"
    "l_committing (binit s) = l_committing s" "l_dev (binit s) = l_dev s" "l_n (binit s) = l_n s"
    "l_block (binit s) = l_block s"
proof -
  have "same_log s (fold binit_step xs s)" for xs and s :: "'a log_st_scheme"
  proof (induction xs arbitrary: s)
    case (Cons x xs)
    have "same_log s (binit_step x s)"
      by (simp add: same_log_def woken_def binit_step_def Let_def set_next_def set_prev_def upd_block_def upd_buf_def)
    then show ?case using Cons same_log_trans by (metis fold_simps(2))
  qed simp
  from this [of "set_next HEAD HEAD (set_prev HEAD HEAD s)"]
  show "l_start (binit s) = l_start s" "l_size (binit s) = l_size s" "l_outstanding (binit s) = l_outstanding s"
    "l_committing (binit s) = l_committing s" "l_dev (binit s) = l_dev s" "l_n (binit s) = l_n s"
    "l_block (binit s) = l_block s"
    by (simp_all add: binit_def same_log_def set_next_def set_prev_def upd_buf_def)
qed

lemma log_boot_ok:
  assumes "\<And>n. length (d n) = BSIZE"
  shows "booted (log_boot d)" "disk (log_boot d) = d" "bview (log_boot d) = d" "l_start (log_boot d) = 2"
    "disksize (log_boot d) = FSSIZE" "l_size (log_boot d) = 30" "l_n (log_boot d) = 0" "l_outstanding (log_boot d) = 0"
    "dwrites (log_boot d) = []" "l_committing (log_boot d) = False" "l_block (log_boot d) = (\<lambda>_. 0)"
    "bcore (bufs (log_boot d) i) = bcore zero_buf"
proof -
  define s0 :: log_st where "s0 = bio_st.extend (bio_boot\<lparr>disk := d\<rparr>) (log_st.fields 2 30 0 False 1 0 (\<lambda>_. 0))"
  have f: "bufs s0 = (\<lambda>_. zero_buf)" "disk s0 = d" "disksize s0 = FSSIZE" "curproc s0 = Some 0" "dwrites s0 = []"
    "l_start s0 = 2" "l_size s0 = 30" "l_outstanding s0 = 0" "l_committing s0 = False" "l_dev s0 = 1" "l_n s0 = 0"
    "l_block s0 = (\<lambda>_. 0)"
    by (simp_all add: bio_boot_def sched_boot_def vm_boot_def vm_st.defs sched_st.defs kmem_st.defs bio_st.defs log_st.defs s0_def)
  have e: "log_boot d = binit s0" by (simp add: log_boot_def s0_def)
  have z: "bcore_zero s0" by (simp add: bcore_zero_def f)
  have "length (disk s0 n) = BSIZE" for n using assms f by simp
  note B = binit_ok [OF z this]
  show "disk (log_boot d) = d" "bview (log_boot d) = d" "disksize (log_boot d) = FSSIZE"
    "l_start (log_boot d) = 2" "l_size (log_boot d) = 30" "l_n (log_boot d) = 0" "l_outstanding (log_boot d) = 0"
    "l_committing (log_boot d) = False" "l_block (log_boot d) = (\<lambda>_. 0)"
    by (simp_all only: e B binit_log_frame f)
  show "booted (log_boot d)"
    using B by (simp add: booted_def e binit_log_frame f)
  have "dwrites (fold binit_step xs s) = dwrites s" for xs and s :: log_st
    by (induction xs arbitrary: s)
      (simp_all add: binit_step_def Let_def set_next_def set_prev_def upd_block_def)
  then show "dwrites (log_boot d) = []"
    using f by (simp add: e binit_def set_next_def set_prev_def)
  have r: "ring (nxt (set_next HEAD HEAD (set_prev HEAD HEAD s0))) (prv (set_next HEAD HEAD (set_prev HEAD HEAD s0))) []"
    by (simp add: ring_def)
  have z': "bcore_zero (set_next HEAD HEAD (set_prev HEAD HEAD s0))" using z by (simp add: bcore_zero_def)
  show "bcore (bufs (log_boot d) i) = bcore zero_buf"
    using binit_loop [OF order_refl z' r, folded binit_def] by (simp add: e bcore_zero_def)
qed

lemma length_zero_disk: "length (zero_disk n) = BSIZE"
  by (simp add: zero_disk_def)

lemmas zero_boot = log_boot_ok [OF length_zero_disk]

lemma log_demo_fields:
  "l_start log_demo = 2" "l_n log_demo = 1" "l_block log_demo = (\<lambda>_. 100)" "disk log_demo = zero_disk"
  "disksize log_demo = FSSIZE" "l_dev log_demo = 1" "l_size log_demo = 30" "l_outstanding log_demo = 1"
  using zero_boot(1) by (simp_all add: log_demo_def Let_def zero_boot booted_def upd_buf_def)

lemma log_demo_bufs:
  "bufs log_demo = (bufs (log_boot zero_disk))(0 := (bufs (log_boot zero_disk) 0)\<lparr>b_valid := True, b_dirty := True,
     b_dev := 1, b_blockno := 100, b_data := replicate BSIZE 7\<rparr>)"
  by (simp add: log_demo_def Let_def)

lemma log_demo_ok: "log_inv log_demo" "held log_demo = {}" "log_ok log_demo" "bview log_demo 100 = replicate BSIZE 7"
proof -
  note E = bcore_eqD [OF zero_boot(12)] and F = log_demo_fields
  have v: "b_valid (bufs log_demo i) \<longleftrightarrow> i = 0" "sl_locked (b_lock (bufs log_demo i)) = False"
    "b_dirty (bufs log_demo i) \<longleftrightarrow> i = 0" "b_refcnt (bufs log_demo i) = 0"
    "length (b_data (bufs log_demo i)) = BSIZE" "b_dev (bufs log_demo i) = (if i = 0 then 1 else 0)"
    "b_blockno (bufs log_demo i) = (if i = 0 then 100 else 0)" for i
    by (simp_all add: log_demo_bufs E zero_buf_def initsleeplock_def)
  show held: "held log_demo = {}" by (simp add: held_def v)
  have pin: "pinned log_demo = {100}" by (auto simp: pinned_def v)
  have links: "nxt log_demo = nxt (log_boot zero_disk)" "prv log_demo = prv (log_boot zero_disk)"
    by (auto simp: log_demo_bufs fun_eq_iff)
  have bz: "bcache_ok (log_boot zero_disk)" "curproc (log_boot zero_disk) \<noteq> None" using zero_boot(1) by (simp_all add: booted_def)
  have "buf_ok log_demo (bufs log_demo i)" for i by (simp add: buf_ok_def v F)
  then have ok: "bcache_ok log_demo"
    using bcache_okD(4) [OF bz(1)] by (simp add: bcache_ok_def links v F zero_disk_def)
  have cp: "curproc log_demo \<noteq> None" using bz(2) by (simp add: log_demo_def Let_def)
  have h0: "hdr_n (zero_disk 2) = 0"
    by (simp add: hdr_n_def zero_disk_def slice_def dec32_def eval_nat_numeral)
  show i: "log_inv log_demo"
    using ok cp h0 pin by (auto simp: log_inv_def F log_region_def inj_on_def)
  show "log_ok log_demo" by (rule log_inv_ok [OF i held])
  show "bview log_demo 100 = replicate BSIZE 7"
    using bview_cached [OF ok, of 0] by (simp add: v) (simp add: log_demo_bufs)
qed

lemma commit_trace_len: "log_ok s \<Longrightarrow> (m, v) \<in> set (commit_trace s) \<Longrightarrow> length v = BSIZE"
proof -
  assume ok: "log_ok s" and v: "(m, v) \<in> set (commit_trace s)"
  have l: "length (bview s k) = BSIZE" for k using ok length_bview by (auto simp: log_ok_def log_geom_def)
  have n: "l_n s \<le> LOGSIZE" using ok by (simp add: log_ok_def log_geom_def)
  show ?thesis
    using v length_hdr_put [OF n l] length_hdr_put [of 0, OF _ length_hdr_put [OF n l]] l
    by (auto simp: commit_trace_def Let_def log_writes_def)
qed

lemma apply_writes_len:
  "\<forall>(m, v) \<in> set ws. length v = BSIZE \<Longrightarrow> \<forall>m. length (d m) = BSIZE \<Longrightarrow> length (apply_writes ws d m) = BSIZE"
  by (induction ws arbitrary: d) auto


text \<open>
  C3. A commit that is not interrupted returns with an empty log, nothing pinned, every block
  outside the log area on the disk with the content the cache had for it (which is unchanged),
  and a log ready for the next transaction.
\<close>

theorem commit_installs:
  assumes "log_ok s" and "0 < l_n s"
  shows "wp (commit s) (\<lambda>_ t. log_ok t \<and> l_n t = 0 \<and> pinned t = {} \<and>
     (\<forall>m. m \<notin> log_region (l_start s) \<longrightarrow> disk t m = bview s m \<and> bview t m = bview s m))"
proof (rule wp_mono [OF commit_ok [OF assms]])
  fix u t
  assume t: "bcache_ok t \<and> held t = {} \<and> pinned t = {} \<and> same_log (s\<lparr>l_n := 0\<rparr>) t \<and>
     bview t = apply_writes (commit_trace s) (bview s) \<and>
     disk t = apply_writes (commit_trace s) (disk s) \<and> dwrites t = dwrites s @ commit_trace s"
  have g: "log_geom s" using assms(1) by (simp add: log_ok_def)
  let ?h = "hdr_put (l_n s) (l_block s) (bview s (l_start s))"
  have "length ?h = BSIZE"
    by (rule length_hdr_put) (use g length_bview [of s] in \<open>simp_all add: log_geom_def\<close>)
  then have "hdr_n (disk t (l_start s)) = 0"
    using t hdr_n_put [of 0 ?h] by (simp add: commit_trace_def Let_def)
  then have "log_ok t" using t g by (simp add: log_ok_def log_geom_def same_log_def)
  moreover have "disk t m = bview s m" if m: "m \<notin> log_region (l_start s)" for m
    using t m home_install [OF assms(1) m, of "(apply_writes (log_writes s (l_n s)) (disk s))(l_start s := ?h)"]
      log_writes_home [OF g m] by (auto simp: commit_trace_def Let_def log_region_def)
  moreover have "bview t m = disk t m" for m using bview_clean [of t m] t by simp
  ultimately show "log_ok t \<and> l_n t = 0 \<and> pinned t = {} \<and>
     (\<forall>m. m \<notin> log_region (l_start s) \<longrightarrow> disk t m = bview s m \<and> bview t m = bview s m)"
    using t by (simp add: same_log_def)
qed

theorem commit_installs_witness:
  "wp (commit log_demo) (\<lambda>_ t. log_ok t \<and> l_n t = 0 \<and> pinned t = {} \<and>
     (\<forall>m. m \<notin> log_region (l_start log_demo) \<longrightarrow> disk t m = bview log_demo m \<and> bview t m = bview log_demo m))"
  by (rule commit_installs [OF log_demo_ok(3)]) (simp add: log_demo_fields)

text \<open>
  C4. \<open>log_write\<close> on a held buffer pins its block and records it exactly once: the log keeps its
  invariant and counts the distinct blocks of the transaction, so writing a block again takes no
  further slot; neither the disk nor the content of any block changes.
\<close>

theorem log_write_absorbs:
  assumes "log_inv s" and "holds s b m" and "m \<notin> log_region (l_start s)"
    and "Suc (l_n s) < l_size s" and "1 \<le> l_outstanding s"
  shows "wp (log_write b s) (\<lambda>_ t. log_inv t \<and> pinned t = insert m (pinned s) \<and> l_n t = card (insert m (pinned s)) \<and>
     bview t = bview s \<and> disk t = disk s \<and> held t = held s)"
  by (rule wp_mono [OF log_write_ok [OF assms]]) blast

lemma log_inv_bframe:
  "log_inv s \<Longrightarrow> bframe s t \<Longrightarrow> bcache_ok t \<Longrightarrow> pinned t = pinned s \<Longrightarrow> disk t (l_start s) = disk s (l_start s) \<Longrightarrow> log_inv t"
  using bframe_log [of s t] by (simp add: log_inv_def same_log_def)

theorem log_write_absorbs_witness:
  "wp (bindR (bread 1 100 log_demo) log_write) (\<lambda>_ t. log_inv t \<and> pinned t = {100} \<and> l_n t = 1)"
proof -
  have i: "log_inv log_demo" and p: "pinned log_demo = {100}"
    using log_demo_ok(1) by (auto simp: log_inv_def log_demo_fields)
  obtain b u where u: "bread 1 100 log_demo = Ok b u" "bcache_ok u" "holds u b 100" "pinned u = {100}" "disk u = disk log_demo"
    "bframe log_demo u"
    using bc.rd_law [of log_demo 100] i log_demo_ok(2) p by (auto simp: log_inv_def log_demo_fields elim: wpE)
  have iu: "log_inv u" using log_inv_bframe [OF i u(6,2)] u(4,5) p by simp
  have f: "l_start u = 2" "l_n u = 1" "l_size u = 30" "l_outstanding u = 1"
    using bframe_log [OF u(6)] log_demo_fields by (simp_all add: same_log_def)
  show ?thesis
    unfolding u(1) wp_bind wp_simps
    by (rule wp_mono [OF log_write_absorbs [OF iu u(3)]]) (simp_all add: f log_region_def u(4))
qed

subsection \<open>Log space reservation\<close>

lemma write_log_frame: "write_log s = Ok () t \<Longrightarrow> bframe s t"
  unfolding write_log_def
  by (erule keepsD [rotated], rule keeps_for_each)
    (auto simp: write_log_one_def Let_def intro!: keeps_intros intro: bframe_intros)

lemma install_trans_frame: "install_trans s = Ok () t \<Longrightarrow> bframe s t"
  unfolding install_trans_def
  by (erule keepsD [rotated], rule keeps_for_each)
    (auto simp: install_one_def Let_def intro!: keeps_intros intro: bframe_intros)

lemma write_head_frame: "write_head s = Ok () t \<Longrightarrow> bframe s t"
  unfolding write_head_def Let_def
  by (erule keepsD [rotated]) (auto intro!: keeps_intros intro: bframe_intros)

lemma commit_frame:
  assumes "commit s = Ok () t"
  shows "l_n t = 0 \<and> l_outstanding t = l_outstanding s \<and> l_committing t = l_committing s \<and> l_size t = l_size s"
proof (cases "l_n s > 0")
  case True
  then obtain a b c where "write_log s = Ok () a" "write_head a = Ok () b" "install_trans b = Ok () c"
    "write_head (c\<lparr>l_n := 0\<rparr>) = Ok () t"
    using assms by (auto simp: commit_def bindR_eq_Ok)
  have "same_log s a" "same_log a b" "same_log b c" "same_log (c\<lparr>l_n := 0\<rparr>) t"
    using \<open>write_log s = Ok () a\<close> \<open>write_head a = Ok () b\<close> \<open>install_trans b = Ok () c\<close> \<open>write_head (c\<lparr>l_n := 0\<rparr>) = Ok () t\<close>
    by (auto dest: write_log_frame write_head_frame install_trans_frame intro: bframe_log)
  then show ?thesis by (simp add: same_log_def)
next
  case False
  then show ?thesis using assms by (simp add: commit_def)
qed

text \<open>
  Runs of the log seen from outside. \<open>us\<close> lists, for every system call between its \<open>begin_op\<close> and
  \<open>end_op\<close>, how many \<open>log_write\<close>s it has made; a call makes at most \<open>MAXOPBLOCKS\<close> of them. A
  \<open>begin_op\<close> that sleeps is a step that has not happened yet.
\<close>

inductive log_step :: "nat list \<times> 'z log_st_scheme \<Rightarrow> nat list \<times> 'z log_st_scheme \<Rightarrow> bool" where
  begin_step: "begin_op s = Ok () t \<Longrightarrow> log_step (us, s) (us @ [0], t)"
| write_step: "i < length us \<Longrightarrow> us ! i < MAXOPBLOCKS \<Longrightarrow> log_write b s = Ok () t \<Longrightarrow>
     log_step (us, s) (us[i := Suc (us ! i)], t)"
| end_step: "end_op s = Ok () t \<Longrightarrow> log_step (us @ u # vs, s) (us @ vs, t)"

abbreviation log_reach :: "nat list \<times> 'z log_st_scheme \<Rightarrow> nat list \<times> 'z log_st_scheme \<Rightarrow> bool" where
  "log_reach \<equiv> log_step\<^sup>*\<^sup>*"

definition reserved :: "nat list \<Rightarrow> nat" where
  "reserved us = sum_list (map (\<lambda>u. MAXOPBLOCKS - u) us)"

definition resv_ok :: "nat list \<times> 'z log_st_scheme \<Rightarrow> bool" where
  "resv_ok = (\<lambda>(us, s). l_outstanding s = int (length us) \<and> \<not> l_committing s \<and>
     (\<forall>u\<in>set us. u \<le> MAXOPBLOCKS) \<and> l_n s + reserved us \<le> LOGSIZE)"

lemma reserved_append [simp]: "reserved (us @ vs) = reserved us + reserved vs"
  by (simp add: reserved_def)

lemma reserved_Cons [simp]: "reserved (u # us) = (MAXOPBLOCKS - u) + reserved us"
  by (simp add: reserved_def)

lemma reserved_Nil [simp]: "reserved [] = 0"
  by (simp add: reserved_def)

lemma reserved_le: "reserved us \<le> length us * MAXOPBLOCKS"
  by (induction us) (auto simp: reserved_def)

lemma reserved_update:
  "i < length us \<Longrightarrow> us ! i < MAXOPBLOCKS \<Longrightarrow> Suc (reserved (us[i := Suc (us ! i)])) = reserved us"
proof (induction us arbitrary: i)
  case (Cons u us)
  then show ?case by (cases i) auto
qed simp

lemma log_write_frame:
  assumes "log_write b s = Ok () t"
  shows "l_outstanding t = l_outstanding s \<and> l_committing t = l_committing s \<and> l_size t = l_size s \<and> l_n t \<le> Suc (l_n s)"
  using assms by (auto simp: log_write_def Let_def set_dirty_def upd_buf_def split: if_splits)

lemma wakeup_log [simp]:
  "l_n (wakeup c s) = l_n s" "l_outstanding (wakeup c s) = l_outstanding s" "l_committing (wakeup c s) = l_committing s"
  "l_size (wakeup c s) = l_size s"
  by (simp_all add: wakeup_def wakeup1_def)

lemma resv_begin: "begin_op s = Ok () t \<Longrightarrow> resv_ok (us, s) \<Longrightarrow> resv_ok (us @ [0], t)"
  using reserved_le [of us]
  by (auto simp: begin_op_def sleep_def resv_ok_def split: if_splits option.splits)

lemma resv_write:
  assumes "i < length us" "us ! i < MAXOPBLOCKS" "log_write b s = Ok () t" "resv_ok (us, s)"
  shows "resv_ok (us[i := Suc (us ! i)], t)"
  using assms log_write_frame [OF assms(3)] reserved_update [OF assms(1,2)]
  by (auto simp: resv_ok_def dest!: set_update_subset_insert [THEN subsetD])

lemma resv_end:
  assumes "end_op s = Ok () t" "resv_ok (us @ u # vs, s)"
  shows "resv_ok (us @ vs, t)"
proof (cases "us @ vs = []")
  case True
  then obtain a where "commit (s\<lparr>l_outstanding := 0, l_committing := True\<rparr>) = Ok () a"
    "t = wakeup LogChan (a\<lparr>l_committing := False\<rparr>)"
    using assms by (auto simp: end_op_def Let_def resv_ok_def bindR_eq_Ok split: if_splits)
  then show ?thesis using True commit_frame by (fastforce simp: resv_ok_def)
next
  case False
  then have "int (length us) + int (length vs) \<noteq> 0" by (cases us) auto
  then have "t = wakeup LogChan (s\<lparr>l_outstanding := l_outstanding s - 1\<rparr>)"
    using assms by (auto simp: end_op_def Let_def resv_ok_def split: if_splits)
  then show ?thesis using assms(2) by (auto simp: resv_ok_def)
qed

lemma resv_invariant: "log_reach x y \<Longrightarrow> resv_ok x \<Longrightarrow> resv_ok y"
proof (induction rule: rtranclp_induct)
  case (step y z)
  then show ?case
    by (cases rule: log_step.cases [OF step.hyps(2)]) (auto intro: resv_begin resv_write resv_end)
qed

text \<open>
  C2. \<open>begin_op\<close>'s admission test reserves enough log space. However system calls begin, write and
  end in turn, the blocks in the log and the writes the running calls may still make fit in
  \<open>LOGSIZE\<close> together; so if the on-disk log has more than \<open>LOGSIZE\<close> blocks, a \<open>log_write\<close> within a
  call's allowance never finds the log full.
\<close>

theorem log_reservation:
  assumes "log_reach ([], s) (us, t)" and "l_outstanding s = 0" and "\<not> l_committing s" and "l_n s = 0"
  shows "l_outstanding t = int (length us) \<and> l_n t + sum_list (map (\<lambda>u. MAXOPBLOCKS - u) us) \<le> LOGSIZE \<and>
     (\<forall>i b. i < length us \<and> us ! i < MAXOPBLOCKS \<and> LOGSIZE < l_size t \<longrightarrow>
        log_write b t \<noteq> Panic ''too big a transaction'')"
proof -
  have r: "resv_ok (us, t)" by (rule resv_invariant [OF assms(1)]) (use assms(2-4) in \<open>simp add: resv_ok_def\<close>)
  have lt: "l_n t < LOGSIZE" if "i < length us" "us ! i < MAXOPBLOCKS" for i
    using r reserved_update [OF that] by (simp add: resv_ok_def)
  have "log_write b t \<noteq> Panic ''too big a transaction''"
    if "i < length us" "us ! i < MAXOPBLOCKS" "LOGSIZE < l_size t" for i b
    using lt [OF that(1,2)] that(3) by (auto simp: log_write_def Let_def split: if_splits)
  then show ?thesis using r by (auto simp: resv_ok_def reserved_def)
qed

theorem log_reservation_witness:
  "\<exists>t. log_reach ([], log_boot zero_disk) ([0], t) \<and> l_n t + sum_list (map (\<lambda>u. MAXOPBLOCKS - u) [0]) \<le> LOGSIZE"
proof -
  let ?t = "(log_boot zero_disk)\<lparr>l_outstanding := 1\<rparr>"
  have "log_step ([], log_boot zero_disk) ([] @ [0], ?t)"
    by (rule begin_step) (simp add: begin_op_def zero_boot)
  then have r: "log_reach ([], log_boot zero_disk) ([0], ?t)" by simp
  with log_reservation [OF r] show ?thesis by (auto simp: zero_boot)
qed

text \<open>Three calls and \<open>k\<close> distinct blocks in the log.\<close>

definition gap_state :: "int \<Rightarrow> nat \<Rightarrow> log_st" where
  "gap_state c k = (log_boot zero_disk)\<lparr>bufs := (\<lambda>i. zero_buf\<lparr>b_blockno := 100 + i, b_dirty := i < k\<rparr>),
     l_outstanding := c, l_n := k, l_block := (\<lambda>i. if i < k then of_nat (100 + i) else 0)\<rparr>"

definition gap_used :: "nat \<Rightarrow> nat list" where
  "gap_used k = [min 10 k, min 10 (k - 10), min 10 (k - 20)]"

lemma gap_write:
  assumes "k < 29"
  shows "log_write k (gap_state 3 k) = Ok () (gap_state 3 (Suc k))"
proof -
  have u: "unat (of_nat (100 + i) :: u32) = 100 + i" if "i < k" for i
    by (subst unat_of_nat) (use that assms in simp)
  have f: "first_slot k (\<lambda>i. unat (l_block (gap_state 3 k) i) = 100 + k) = None"
    unfolding first_slot_None using u by (auto simp: gap_state_def)
  have blk: "(l_block (gap_state 3 k))(k := of_nat (100 + k)) = l_block (gap_state 3 (Suc k))"
    by (auto simp: gap_state_def fun_eq_iff less_Suc_eq)
  have bf: "(bufs (gap_state 3 k))(k := (bufs (gap_state 3 k) k)\<lparr>b_dirty := True\<rparr>) = bufs (gap_state 3 (Suc k))"
    by (auto simp: gap_state_def fun_eq_iff less_Suc_eq)
  have n: "l_n (gap_state 3 k) = k" "b_blockno (bufs (gap_state 3 k) k) = 100 + k" "l_outstanding (gap_state 3 k) = 3"
    "l_size (gap_state 3 k) = 30"
    by (simp_all add: gap_state_def zero_boot)
  have e: "(gap_state 3 k)\<lparr>l_block := l_block (gap_state 3 (Suc k)), l_n := Suc k, bufs := bufs (gap_state 3 (Suc k))\<rparr>
      = gap_state 3 (Suc k)"
    by (simp add: gap_state_def)
  show ?thesis
    using assms n by (simp add: log_write_def Let_def n f set_dirty_def upd_buf_def blk [simplified] e bf [simplified])
qed

lemma gap_used_step:
  assumes "k < 29"
  shows "k div 10 < length (gap_used k)" "gap_used k ! (k div 10) < MAXOPBLOCKS"
    "(gap_used k)[k div 10 := Suc (gap_used k ! (k div 10))] = gap_used (Suc k)"
proof -
  consider "k < 10" "k div 10 = 0" | "10 \<le> k" "k < 20" "k div 10 = 1" | "20 \<le> k" "k div 10 = 2"
    using assms by (cases "k < 10"; cases "k < 20") (auto simp: div_nat_eqI)
  then have "k div 10 < length (gap_used k) \<and> gap_used k ! (k div 10) < MAXOPBLOCKS \<and>
    (gap_used k)[k div 10 := Suc (gap_used k ! (k div 10))] = gap_used (Suc k)"
    using assms by cases (auto simp: gap_used_def)
  then show "k div 10 < length (gap_used k)" "gap_used k ! (k div 10) < MAXOPBLOCKS"
    "(gap_used k)[k div 10 := Suc (gap_used k ! (k div 10))] = gap_used (Suc k)" by blast+
qed

lemma gap_reach:
  assumes "k \<le> 29"
  shows "log_reach ([], gap_state 0 0) (gap_used k, gap_state 3 k)"
  using assms
proof (induction k)
  case 0
  have b: "log_step (us, gap_state c 0) (us @ [0], gap_state (c + 1) 0)" if "0 \<le> c" "c \<le> 2" for us c
    by (rule begin_step) (use that in \<open>auto simp: begin_op_def gap_state_def zero_boot\<close>)
  have "log_reach ([], gap_state 0 0) ([0, 0, 0], gap_state 3 0)"
    using b [of 0 "[]"] b [of 1 "[0]"] b [of 2 "[0, 0]"]
    by (auto intro: converse_rtranclp_into_rtranclp)
  then show ?case by (simp add: gap_used_def)
next
  case (Suc k)
  have k: "k < 29" using Suc.prems by simp
  have "log_step (gap_used k, gap_state 3 k) (gap_used (Suc k), gap_state 3 (Suc k))"
    using write_step [OF gap_used_step(1,2) [OF k] gap_write [OF k]] gap_used_step(3) [OF k] by simp
  then show ?case using Suc by (meson Suc_leD rtranclp.rtrancl_into_rtrancl)
qed

text \<open>
  C5. With the on-disk log \<open>LOGSIZE\<close> blocks long, as \<open>mkfs\<close> makes it, one block of which is the
  header, the reservation of \<open>begin_op\<close> is one block too generous: three admitted calls, none over
  its allowance of \<open>MAXOPBLOCKS\<close>, reach a state in which a further permitted \<open>log_write\<close> panics.
\<close>

theorem log_reservation_gap:
  "\<exists>us t b. l_size (gap_state 0 0) = LOGSIZE \<and> log_reach ([], gap_state 0 0) (us, t) \<and> length us = 3 \<and>
     us ! 2 < MAXOPBLOCKS \<and> log_write b t = Panic ''too big a transaction''"
proof (intro exI conjI)
  show "log_reach ([], gap_state 0 0) (gap_used 29, gap_state 3 29)" by (rule gap_reach) simp
qed (simp_all add: gap_used_def gap_state_def log_write_def zero_boot)

end
