(* ===== verification/Fs.thy ===== *)
theory Fs
  imports Log
begin

section \<open>Blocks and inodes (fs.c, first half; fs.h, file.h)\<close>

text \<open>
  The block allocator and the inode layer, on bytes: the bitmap, the on-disk inodes and the
  indirect blocks are read and written through the cache with the layout of fs.h. In-memory inodes
  are named by their index in \<open>icache\<close>; the null pointer never reaches these routines.
\<close>

unbundle bit_operations_syntax

subsection \<open>Data\<close>

record dinode =
  d_type :: u16
  d_major :: u16
  d_minor :: u16
  d_nlink :: u16
  d_size :: u32
  d_addrs :: "u32 list"

record inode =
  i_dev :: nat
  i_inum :: nat
  i_ref :: int
  i_lock :: sleeplock
  i_valid :: bool
  i_type :: u16
  i_major :: u16
  i_minor :: u16
  i_nlink :: u16
  i_size :: u32
  i_addrs :: "u32 list"

record fs_st = log_st +
  sb :: superblock
  inodes :: "nat \<Rightarrow> inode"

definition upd_inode :: "nat \<Rightarrow> (inode \<Rightarrow> inode) \<Rightarrow> 'z fs_st_scheme \<Rightarrow> 'z fs_st_scheme" where
  "upd_inode i f s = s\<lparr>inodes := (inodes s)(i := f (inodes s i))\<rparr>"

definition upd_ilock :: "nat \<Rightarrow> (sleeplock \<Rightarrow> sleeplock) \<Rightarrow> 'z fs_st_scheme \<Rightarrow> 'z fs_st_scheme" where
  "upd_ilock i f = upd_inode i (\<lambda>ip. ip\<lparr>i_lock := f (i_lock ip)\<rparr>)"

text \<open>\<open>IBLOCK(i, sb)\<close> and \<open>BBLOCK(b, sb)\<close>, and an array of 32-bit words in a block.\<close>

definition IBLOCK :: "nat \<Rightarrow> superblock \<Rightarrow> nat" where
  "IBLOCK i sp = i div IPB + unat (sb_inodestart sp)"

definition BBLOCK :: "nat \<Rightarrow> superblock \<Rightarrow> nat" where
  "BBLOCK b sp = b div BPB + unat (sb_bmapstart sp)"

definition word_at :: "u8 list \<Rightarrow> nat \<Rightarrow> u32" where
  "word_at d k = dec32 (slice (4 * k) 4 d)"

definition word_put :: "nat \<Rightarrow> u32 \<Rightarrow> u8 list \<Rightarrow> u8 list" where
  "word_put k w d = splice_at (4 * k) (enc32 w) d"

text \<open>The bytes of a \<open>struct dinode\<close>.\<close>

definition enc_dinode :: "dinode \<Rightarrow> u8 list" where
  "enc_dinode d = enc16 (d_type d) @ enc16 (d_major d) @ enc16 (d_minor d) @ enc16 (d_nlink d) @
     enc32 (d_size d) @ concat (map enc32 (d_addrs d))"

definition dec_dinode :: "u8 list \<Rightarrow> dinode" where
  "dec_dinode bs = \<lparr>d_type = dec16 (slice 0 2 bs), d_major = dec16 (slice 2 2 bs), d_minor = dec16 (slice 4 2 bs),
     d_nlink = dec16 (slice 6 2 bs), d_size = dec32 (slice 8 4 bs),
     d_addrs = map (\<lambda>k. dec32 (slice (12 + 4 * k) 4 bs)) [0..<NDIRECT + 1]\<rparr>"

definition dinode_at :: "u8 list \<Rightarrow> nat \<Rightarrow> dinode" where
  "dinode_at d inum = dec_dinode (slice ((inum mod IPB) * DINODE_SIZE) DINODE_SIZE d)"

definition dinode_put :: "nat \<Rightarrow> dinode \<Rightarrow> u8 list \<Rightarrow> u8 list" where
  "dinode_put inum di d = splice_at ((inum mod IPB) * DINODE_SIZE) (enc_dinode di) d"

subsection \<open>Blocks\<close>

definition bzero :: "nat \<Rightarrow> nat \<Rightarrow> 'z log_st_scheme \<Rightarrow> (unit, 'z log_st_scheme) result" where
  "bzero dev bno s =
     bindR (bread dev bno s) (\<lambda>bp s.
     bindR (log_write bp (set_data bp (replicate BSIZE 0) s)) (\<lambda>_ s.
     brelse bp s))"

definition bm_test :: "u8 list \<Rightarrow> nat \<Rightarrow> bool" where
  "bm_test d bi \<longleftrightarrow> (d ! (bi div 8)) AND push_bit (bi mod 8) 1 \<noteq> 0"

definition bm_set :: "nat \<Rightarrow> u8 list \<Rightarrow> u8 list" where
  "bm_set bi d = d[bi div 8 := (d ! (bi div 8)) OR push_bit (bi mod 8) 1]"

definition bm_clear :: "nat \<Rightarrow> u8 list \<Rightarrow> u8 list" where
  "bm_clear bi d = d[bi div 8 := (d ! (bi div 8)) AND NOT (push_bit (bi mod 8) 1)]"

text \<open>The outer loop of \<open>balloc\<close>, over the first block numbers of the bitmap blocks.\<close>

fun balloc_from :: "nat \<Rightarrow> nat list \<Rightarrow> 'z fs_st_scheme \<Rightarrow> (u32, 'z fs_st_scheme) result" where
  "balloc_from dev [] s = Panic ''balloc: out of blocks''"
| "balloc_from dev (b # bs) s =
     bindR (bread dev (BBLOCK b (sb s)) s) (\<lambda>bp s.
       case find (\<lambda>bi. \<not> bm_test (b_data (bufs s bp)) bi) [0..<min BPB (unat (sb_size (sb s)) - b)] of
         Some bi \<Rightarrow>
           bindR (log_write bp (set_data bp (bm_set bi (b_data (bufs s bp))) s)) (\<lambda>_ s.
           bindR (brelse bp s) (\<lambda>_ s.
           bindR (bzero dev (b + bi) s) (\<lambda>_ s.
           Ok (of_nat (b + bi)) s)))
       | None \<Rightarrow> bindR (brelse bp s) (\<lambda>_ s. balloc_from dev bs s))"

definition balloc :: "nat \<Rightarrow> 'z fs_st_scheme \<Rightarrow> (u32, 'z fs_st_scheme) result" where
  "balloc dev s =
     balloc_from dev (map (\<lambda>k. k * BPB) [0..<(unat (sb_size (sb s)) + BPB - 1) div BPB]) s"

definition bfree :: "nat \<Rightarrow> nat \<Rightarrow> 'z fs_st_scheme \<Rightarrow> (unit, 'z fs_st_scheme) result" where
  "bfree dev b s =
     bindR (readsb dev s) (\<lambda>sp s. let s = s\<lparr>sb := sp\<rparr> in
     bindR (bread dev (BBLOCK b sp) s) (\<lambda>bp s. let bi = b mod BPB in
     if \<not> bm_test (b_data (bufs s bp)) bi then Panic ''freeing free block''
     else bindR (log_write bp (set_data bp (bm_clear bi (b_data (bufs s bp))) s)) (\<lambda>_ s.
          brelse bp s)))"

subsection \<open>The inode cache\<close>

definition iget :: "nat \<Rightarrow> nat \<Rightarrow> 'z fs_st_scheme \<Rightarrow> (nat, 'z fs_st_scheme) result" where
  "iget dev inum s =
     (case first_slot NINODE (\<lambda>i. i_ref (inodes s i) > 0 \<and> i_dev (inodes s i) = dev \<and> i_inum (inodes s i) = inum) of
        Some i \<Rightarrow> Ok i (upd_inode i (\<lambda>ip. ip\<lparr>i_ref := i_ref ip + 1\<rparr>) s)
      | None \<Rightarrow>
          (case first_slot NINODE (\<lambda>i. i_ref (inodes s i) = 0) of
             None \<Rightarrow> Panic ''iget: no inodes''
           | Some i \<Rightarrow> Ok i (upd_inode i (\<lambda>ip. ip\<lparr>i_dev := dev, i_inum := inum, i_ref := 1, i_valid := False\<rparr>) s)))"

definition iinit :: "nat \<Rightarrow> 'z fs_st_scheme \<Rightarrow> (unit, 'z fs_st_scheme) result" where
  "iinit dev s =
     (let s = fold (\<lambda>i s. upd_ilock i (\<lambda>_. initsleeplock) s) [0..<NINODE] s in
      bindR (readsb dev s) (\<lambda>sp s. Ok () (s\<lparr>sb := sp\<rparr>)))"

fun ialloc_from :: "nat \<Rightarrow> u16 \<Rightarrow> nat list \<Rightarrow> 'z fs_st_scheme \<Rightarrow> (nat, 'z fs_st_scheme) result" where
  "ialloc_from dev ty [] s = Panic ''ialloc: no inodes''"
| "ialloc_from dev ty (inum # ns) s =
     bindR (bread dev (IBLOCK inum (sb s)) s) (\<lambda>bp s.
       if d_type (dinode_at (b_data (bufs s bp)) inum) = 0
       then let di = \<lparr>d_type = ty, d_major = 0, d_minor = 0, d_nlink = 0, d_size = 0, d_addrs = replicate (NDIRECT + 1) 0\<rparr> in
            bindR (log_write bp (set_data bp (dinode_put inum di (b_data (bufs s bp))) s)) (\<lambda>_ s.
            bindR (brelse bp s) (\<lambda>_ s. iget dev inum s))
       else bindR (brelse bp s) (\<lambda>_ s. ialloc_from dev ty ns s))"

definition ialloc :: "nat \<Rightarrow> u16 \<Rightarrow> 'z fs_st_scheme \<Rightarrow> (nat, 'z fs_st_scheme) result" where
  "ialloc dev ty s = ialloc_from dev ty [1..<unat (sb_ninodes (sb s))] s"

text \<open>The fields an in-memory inode shares with the on-disk one.\<close>

definition to_dinode :: "inode \<Rightarrow> dinode" where
  "to_dinode ip = \<lparr>d_type = i_type ip, d_major = i_major ip, d_minor = i_minor ip, d_nlink = i_nlink ip,
     d_size = i_size ip, d_addrs = i_addrs ip\<rparr>"

definition from_dinode :: "dinode \<Rightarrow> inode \<Rightarrow> inode" where
  "from_dinode d ip = ip\<lparr>i_type := d_type d, i_major := d_major d, i_minor := d_minor d, i_nlink := d_nlink d,
     i_size := d_size d, i_addrs := d_addrs d\<rparr>"

definition iupdate :: "nat \<Rightarrow> 'z fs_st_scheme \<Rightarrow> (unit, 'z fs_st_scheme) result" where
  "iupdate i s =
     (let ip = inodes s i in
      bindR (bread (i_dev ip) (IBLOCK (i_inum ip) (sb s)) s) (\<lambda>bp s.
      bindR (log_write bp (set_data bp (dinode_put (i_inum ip) (to_dinode ip) (b_data (bufs s bp))) s)) (\<lambda>_ s.
      brelse bp s)))"

definition idup :: "nat \<Rightarrow> 'z fs_st_scheme \<Rightarrow> 'z fs_st_scheme" where
  "idup i s = upd_inode i (\<lambda>ip. ip\<lparr>i_ref := i_ref ip + 1\<rparr>) s"

definition ilock :: "nat \<Rightarrow> 'z fs_st_scheme \<Rightarrow> (unit, 'z fs_st_scheme) result" where
  "ilock i s =
     (if i_ref (inodes s i) < 1 then Panic ''ilock''
      else bindR (acquiresleep (InodeLockChan i) (\<lambda>s. i_lock (inodes s i)) (upd_ilock i) s) (\<lambda>_ s.
        let ip = inodes s i in
        if \<not> i_valid ip
        then bindR (bread (i_dev ip) (IBLOCK (i_inum ip) (sb s)) s) (\<lambda>bp s.
               let di = dinode_at (b_data (bufs s bp)) (i_inum ip) in
               bindR (brelse bp (upd_inode i (from_dinode di) s)) (\<lambda>_ s.
                 let s = upd_inode i (\<lambda>ip. ip\<lparr>i_valid := True\<rparr>) s in
                 if i_type (inodes s i) = 0 then Panic ''ilock: no type'' else Ok () s))
        else Ok () s))"

definition iunlock :: "nat \<Rightarrow> 'z fs_st_scheme \<Rightarrow> (unit, 'z fs_st_scheme) result" where
  "iunlock i s =
     (if \<not> holdingsleep (\<lambda>s. i_lock (inodes s i)) s \<or> i_ref (inodes s i) < 1 then Panic ''iunlock''
      else Ok () (releasesleep (InodeLockChan i) (upd_ilock i) s))"

subsection \<open>Inode content\<close>

definition set_addr :: "nat \<Rightarrow> nat \<Rightarrow> u32 \<Rightarrow> 'z fs_st_scheme \<Rightarrow> 'z fs_st_scheme" where
  "set_addr i k a = upd_inode i (\<lambda>ip. ip\<lparr>i_addrs := (i_addrs ip)[k := a]\<rparr>)"

definition bmap :: "nat \<Rightarrow> nat \<Rightarrow> 'z fs_st_scheme \<Rightarrow> (u32, 'z fs_st_scheme) result" where
  "bmap i bn s =
     (let dev = i_dev (inodes s i) in
      if bn < NDIRECT
      then (let addr = i_addrs (inodes s i) ! bn in
            if addr = 0 then bindR (balloc dev s) (\<lambda>addr s. Ok addr (set_addr i bn addr s)) else Ok addr s)
      else let bn = bn - NDIRECT in
      if bn < NINDIRECT
      then bindR (let addr = i_addrs (inodes s i) ! NDIRECT in
                  if addr = 0 then bindR (balloc dev s) (\<lambda>addr s. Ok addr (set_addr i NDIRECT addr s)) else Ok addr s)
           (\<lambda>addr s.
           bindR (bread dev (unat addr) s) (\<lambda>bp s.
           bindR (let addr = word_at (b_data (bufs s bp)) bn in
                  if addr = 0
                  then bindR (balloc dev s) (\<lambda>addr s.
                       bindR (log_write bp (set_data bp (word_put bn addr (b_data (bufs s bp))) s)) (\<lambda>_ s. Ok addr s))
                  else Ok addr s)
           (\<lambda>addr s. bindR (brelse bp s) (\<lambda>_ s. Ok addr s))))
      else Panic ''bmap: out of range'')"

definition itrunc_direct :: "nat \<Rightarrow> nat \<Rightarrow> 'z fs_st_scheme \<Rightarrow> (unit, 'z fs_st_scheme) result" where
  "itrunc_direct i k s =
     (let ip = inodes s i in
      if i_addrs ip ! k \<noteq> 0
      then bindR (bfree (i_dev ip) (unat (i_addrs ip ! k)) s) (\<lambda>_ s. Ok () (set_addr i k 0 s))
      else Ok () s)"

definition itrunc_indirect :: "nat \<Rightarrow> nat \<Rightarrow> nat \<Rightarrow> 'z fs_st_scheme \<Rightarrow> (unit, 'z fs_st_scheme) result" where
  "itrunc_indirect dev bp j s =
     (let a = word_at (b_data (bufs s bp)) j in
      if a \<noteq> 0 then bfree dev (unat a) s else Ok () s)"

definition itrunc :: "nat \<Rightarrow> 'z fs_st_scheme \<Rightarrow> (unit, 'z fs_st_scheme) result" where
  "itrunc i s =
     bindR (for_each (itrunc_direct i) [0..<NDIRECT] s) (\<lambda>_ s.
     bindR (let dev = i_dev (inodes s i); ind = i_addrs (inodes s i) ! NDIRECT in
            if ind \<noteq> 0
            then bindR (bread dev (unat ind) s) (\<lambda>bp s.
                 bindR (for_each (itrunc_indirect dev bp) [0..<NINDIRECT] s) (\<lambda>_ s.
                 bindR (brelse bp s) (\<lambda>_ s.
                 bindR (bfree dev (unat ind) s) (\<lambda>_ s.
                 Ok () (set_addr i NDIRECT 0 s)))))
            else Ok () s) (\<lambda>_ s.
     iupdate i (upd_inode i (\<lambda>ip. ip\<lparr>i_size := 0\<rparr>) s)))"

definition iput :: "nat \<Rightarrow> 'z fs_st_scheme \<Rightarrow> (unit, 'z fs_st_scheme) result" where
  "iput i s =
     bindR (if i_ref (inodes s i) = 1 \<and> i_valid (inodes s i) \<and> i_nlink (inodes s i) = 0
            then bindR (itrunc i s) (\<lambda>_ s.
                 bindR (iupdate i (upd_inode i (\<lambda>ip. ip\<lparr>i_type := 0\<rparr>) s)) (\<lambda>_ s.
                 Ok () (upd_inode i (\<lambda>ip. ip\<lparr>i_valid := False\<rparr>) s)))
            else Ok () s) (\<lambda>_ s.
     Ok () (upd_inode i (\<lambda>ip. ip\<lparr>i_ref := i_ref ip - 1\<rparr>) s))"

definition iunlockput :: "nat \<Rightarrow> 'z fs_st_scheme \<Rightarrow> (unit, 'z fs_st_scheme) result" where
  "iunlockput i s = bindR (iunlock i s) (\<lambda>_ s. iput i s)"

record stat =
  st_type :: u16
  st_dev :: nat
  st_ino :: nat
  st_nlink :: u16
  st_size :: u32

definition stati :: "nat \<Rightarrow> 'z fs_st_scheme \<Rightarrow> stat" where
  "stati i s = (let ip = inodes s i in
     \<lparr>st_type = i_type ip, st_dev = i_dev ip, st_ino = i_inum ip, st_nlink = i_nlink ip, st_size = i_size ip\<rparr>)"

subsection \<open>An example state\<close>

definition zero_inode :: inode where
  "zero_inode = \<lparr>i_dev = 0, i_inum = 0, i_ref = 0, i_lock = initsleeplock, i_valid = False, i_type = 0, i_major = 0,
     i_minor = 0, i_nlink = 0, i_size = 0, i_addrs = replicate (NDIRECT + 1) 0\<rparr>"

text \<open>The super block \<open>mkfs\<close> writes for \<open>FSSIZE\<close> blocks and 200 inodes.\<close>

definition demo_sb :: superblock where
  "demo_sb = \<lparr>sb_size = 1000, sb_nblocks = 941, sb_ninodes = 200, sb_nlog = 30, sb_logstart = 2,
     sb_inodestart = 32, sb_bmapstart = 58\<rparr>"

definition fs_boot :: "(nat \<Rightarrow> u8 list) \<Rightarrow> fs_st" where
  "fs_boot d = log_st.extend (log_boot d) (fs_st.fields demo_sb (\<lambda>_. zero_inode))"

end
