(* ===== verification/Dir.thy ===== *)
theory Dir
  imports Fs
begin

section \<open>File content, directories and paths (fs.c, second half)\<close>

text \<open>
  Bytes copied out by \<open>readi\<close> are part of its result and bytes copied in by \<open>writei\<close> are an argument;
  where they live in memory is the caller's concern. The device switch table is a parameter \<open>dv\<close>:
  for each major number, the read and write functions a driver has registered, if any. Paths and
  names are byte lists without the terminating zero; the name buffer has \<open>DIRSIZ\<close> bytes.
\<close>

subsection \<open>readi and writei\<close>

type_synonym 's dev_read = "nat \<Rightarrow> u32 \<Rightarrow> u32 \<Rightarrow> 's \<Rightarrow> (int \<times> u8 list, 's) result"
type_synonym 's dev_write = "nat \<Rightarrow> u32 \<Rightarrow> u8 list \<Rightarrow> 's \<Rightarrow> (int, 's) result"
type_synonym 's devsw = "nat \<Rightarrow> 's dev_read option \<times> 's dev_write option"

text \<open>\<open>dv\<close> at a device inode's major number, a signed 16-bit value, or None when out of range.\<close>

definition dev_of :: "('s \<Rightarrow> u16) \<Rightarrow> 's devsw \<Rightarrow> 's \<Rightarrow> 's dev_read option \<times> 's dev_write option" where
  "dev_of major dv s =
     (if sint (major s) < 0 \<or> sint (major s) \<ge> int NDEV then (None, None) else dv (nat (sint (major s))))"

function readi_loop :: "nat \<Rightarrow> nat \<Rightarrow> nat \<Rightarrow> u8 list \<Rightarrow> 'z fs_st_scheme \<Rightarrow> (u8 list, 'z fs_st_scheme) result" where
  "readi_loop i off n acc s =
     (if n = 0 then Ok acc s
      else bindR (bmap i (off div BSIZE) s) (\<lambda>addr s.
           bindR (bread (i_dev (inodes s i)) (unat addr) s) (\<lambda>bp s.
           let m = min n (BSIZE - off mod BSIZE);
               chunk = slice (off mod BSIZE) m (b_data (bufs s bp)) in
           bindR (brelse bp s) (\<lambda>_ s.
           readi_loop i (off + m) (n - m) (acc @ chunk) s))))"
  by pat_completeness auto
termination by (relation "measure (\<lambda>(i, off, n, acc, s). n)") auto

declare readi_loop.simps [simp del]

definition readi :: "('z fs_st_scheme) devsw \<Rightarrow> nat \<Rightarrow> u32 \<Rightarrow> u32 \<Rightarrow> 'z fs_st_scheme \<Rightarrow> (int \<times> u8 list, 'z fs_st_scheme) result" where
  "readi dv i off n s =
     (let ip = inodes s i in
      if i_type ip = T_DEV
      then (case fst (dev_of (\<lambda>s. i_major (inodes s i)) dv s) of
              None \<Rightarrow> Ok (-1, []) s
            | Some rd \<Rightarrow> rd i off n s)
      else if off > i_size ip \<or> off + n < off then Ok (-1, []) s
      else let n = (if off + n > i_size ip then i_size ip - off else n) in
           bindR (readi_loop i (unat off) (unat n) [] s) (\<lambda>bs s. Ok (int (unat n), bs) s))"

function writei_loop :: "nat \<Rightarrow> nat \<Rightarrow> u8 list \<Rightarrow> 'z fs_st_scheme \<Rightarrow> (nat, 'z fs_st_scheme) result" where
  "writei_loop i off src s =
     (if src = [] then Ok off s
      else bindR (bmap i (off div BSIZE) s) (\<lambda>addr s.
           bindR (bread (i_dev (inodes s i)) (unat addr) s) (\<lambda>bp s.
           let m = min (length src) (BSIZE - off mod BSIZE) in
           bindR (log_write bp (set_data bp (splice_at (off mod BSIZE) (take m src) (b_data (bufs s bp))) s)) (\<lambda>_ s.
           bindR (brelse bp s) (\<lambda>_ s.
           writei_loop i (off + m) (drop m src) s)))))"
  by pat_completeness auto
termination by (relation "measure (\<lambda>(i, off, src, s). length src)") auto

declare writei_loop.simps [simp del]

text \<open>\<open>n\<close>, the \<open>uint\<close> count, is the number of bytes in \<open>src\<close>.\<close>

definition writei :: "('z fs_st_scheme) devsw \<Rightarrow> nat \<Rightarrow> u8 list \<Rightarrow> u32 \<Rightarrow> 'z fs_st_scheme \<Rightarrow> (int, 'z fs_st_scheme) result" where
  "writei dv i src off s =
     (let ip = inodes s i; n = of_nat (length src) :: u32 in
      if i_type ip = T_DEV
      then (case snd (dev_of (\<lambda>s. i_major (inodes s i)) dv s) of
              None \<Rightarrow> Ok (-1) s
            | Some wr \<Rightarrow> wr i off src s)
      else if off > i_size ip \<or> off + n < off then Ok (-1) s
      else if unat (off + n) > MAXFILE * BSIZE then Ok (-1) s
      else bindR (writei_loop i (unat off) src s) (\<lambda>off s.
           bindR (if n > 0 \<and> off > unat (i_size (inodes s i))
                  then iupdate i (upd_inode i (\<lambda>ip. ip\<lparr>i_size := of_nat off\<rparr>) s)
                  else Ok () s) (\<lambda>_ s.
           Ok (int (length src)) s)))"

subsection \<open>Directories\<close>

record dirent =
  de_inum :: u16
  de_name :: "u8 list"

definition dec_dirent :: "u8 list \<Rightarrow> dirent" where
  "dec_dirent bs = \<lparr>de_inum = dec16 (slice 0 2 bs), de_name = slice 2 DIRSIZ bs\<rparr>"

definition enc_dirent :: "dirent \<Rightarrow> u8 list" where
  "enc_dirent de = enc16 (de_inum de) @ de_name de"

definition namecmp :: "u8 list \<Rightarrow> u8 list \<Rightarrow> int" where
  "namecmp s t = strncmp (reader_of s) (reader_of t) DIRSIZ"

text \<open>The offsets \<open>0, 16, ...\<close> below the directory's size.\<close>

definition dir_offs :: "u32 \<Rightarrow> nat list" where
  "dir_offs sz = map (\<lambda>k. k * DIRENT_SIZE) [0..<(unat sz + DIRENT_SIZE - 1) div DIRENT_SIZE]"

definition read_dirent :: "('z fs_st_scheme) devsw \<Rightarrow> string \<Rightarrow> nat \<Rightarrow> nat \<Rightarrow> 'z fs_st_scheme \<Rightarrow> (dirent, 'z fs_st_scheme) result" where
  "read_dirent dv msg dp off s =
     bindR (readi dv dp (of_nat off) (of_nat DIRENT_SIZE) s) (\<lambda>(r, bs) s.
       if r \<noteq> int DIRENT_SIZE then Panic msg else Ok (dec_dirent bs) s)"

fun dirlookup_from :: "('z fs_st_scheme) devsw \<Rightarrow> nat \<Rightarrow> u8 list \<Rightarrow> nat list \<Rightarrow> 'z fs_st_scheme \<Rightarrow>
    ((nat \<times> nat) option, 'z fs_st_scheme) result" where
  "dirlookup_from dv dp name [] s = Ok None s"
| "dirlookup_from dv dp name (off # offs) s =
     bindR (read_dirent dv ''dirlookup read'' dp off s) (\<lambda>de s.
       if de_inum de = 0 then dirlookup_from dv dp name offs s
       else if namecmp name (de_name de) = 0
       then bindR (iget (i_dev (inodes s dp)) (unat (de_inum de)) s) (\<lambda>i s. Ok (Some (i, off)) s)
       else dirlookup_from dv dp name offs s)"

text \<open>The result is the inode with the value of \<open>*poff\<close>, or None for the null pointer.\<close>

definition dirlookup :: "('z fs_st_scheme) devsw \<Rightarrow> nat \<Rightarrow> u8 list \<Rightarrow> 'z fs_st_scheme \<Rightarrow>
    ((nat \<times> nat) option, 'z fs_st_scheme) result" where
  "dirlookup dv dp name s =
     (if i_type (inodes s dp) \<noteq> T_DIR then Panic ''dirlookup not DIR''
      else dirlookup_from dv dp name (dir_offs (i_size (inodes s dp))) s)"

text \<open>The first offset of an empty entry, or the directory's end.\<close>

fun find_empty :: "('z fs_st_scheme) devsw \<Rightarrow> nat \<Rightarrow> nat list \<Rightarrow> nat \<Rightarrow> 'z fs_st_scheme \<Rightarrow> (nat, 'z fs_st_scheme) result" where
  "find_empty dv dp [] end s = Ok end s"
| "find_empty dv dp (off # offs) end s =
     bindR (read_dirent dv ''dirlink read'' dp off s) (\<lambda>de s.
       if de_inum de = 0 then Ok off s else find_empty dv dp offs end s)"

definition dirlink :: "('z fs_st_scheme) devsw \<Rightarrow> nat \<Rightarrow> u8 list \<Rightarrow> nat \<Rightarrow> 'z fs_st_scheme \<Rightarrow> (int, 'z fs_st_scheme) result" where
  "dirlink dv dp name inum s =
     bindR (dirlookup dv dp name s) (\<lambda>found s.
       case found of
         Some (ip, _) \<Rightarrow> bindR (iput ip s) (\<lambda>_ s. Ok (-1) s)
       | None \<Rightarrow>
           (let offs = dir_offs (i_size (inodes s dp)) in
            bindR (find_empty dv dp offs (length offs * DIRENT_SIZE) s) (\<lambda>off s.
            bindR (writei dv dp (enc_dirent \<lparr>de_inum = of_nat inum, de_name = strncpy (reader_of name) DIRSIZ\<rparr>) (of_nat off) s) (\<lambda>r s.
            if r \<noteq> int DIRENT_SIZE then Panic ''dirlink'' else Ok 0 s))))"

subsection \<open>Paths\<close>

definition SLASH :: u8 where
  "SLASH = 47"

text \<open>
  \<open>skipelem\<close> gives the rest of the path and the new content of the name buffer, or None when there
  is no element. A name of \<open>DIRSIZ\<close> bytes or more fills the buffer and is not terminated.
\<close>

definition skipelem :: "u8 list \<Rightarrow> u8 list \<Rightarrow> (u8 list \<times> u8 list) option" where
  "skipelem path name =
     (let path = dropWhile (\<lambda>c. c = SLASH) path in
      if path = [] then None
      else let s = takeWhile (\<lambda>c. c \<noteq> SLASH) path;
               path = dropWhile (\<lambda>c. c \<noteq> SLASH) path;
               len = length s;
               name = (if len \<ge> DIRSIZ then splice_at 0 (take DIRSIZ s) name
                       else splice_at 0 (s @ [0]) name)
           in Some (dropWhile (\<lambda>c. c = SLASH) path, name))"

lemma skipelem_shorter: "skipelem path name = Some (rest, name') \<Longrightarrow> length rest < length path"
proof -
  assume s: "skipelem path name = Some (rest, name')"
  let ?p = "dropWhile (\<lambda>c. c = SLASH) path"
  have ne: "?p \<noteq> []" and r: "rest = dropWhile (\<lambda>c. c = SLASH) (dropWhile (\<lambda>c. c \<noteq> SLASH) ?p)"
    using s by (auto simp: skipelem_def Let_def split: if_splits)
  have "hd ?p \<noteq> SLASH" using hd_dropWhile [OF ne] by simp
  then have "dropWhile (\<lambda>c. c \<noteq> SLASH) ?p = dropWhile (\<lambda>c. c \<noteq> SLASH) (tl ?p)" using ne by (cases ?p) auto
  then have "length rest \<le> length (tl ?p)"
    unfolding r by (simp only:) (rule le_trans [OF length_dropWhile_le length_dropWhile_le])
  also have "\<dots> < length ?p" using ne by (cases ?p) auto
  also have "\<dots> \<le> length path" by (rule length_dropWhile_le)
  finally show ?thesis .
qed

text \<open>The loop of \<open>namex\<close>; the result has the inode and the name buffer.\<close>

function namex_loop :: "('z fs_st_scheme) devsw \<Rightarrow> bool \<Rightarrow> u8 list \<Rightarrow> u8 list \<Rightarrow> nat \<Rightarrow> 'z fs_st_scheme \<Rightarrow>
    (nat option \<times> u8 list, 'z fs_st_scheme) result" where
  "namex_loop dv parent path name ip s =
     (case skipelem path name of
        None \<Rightarrow> if parent then bindR (iput ip s) (\<lambda>_ s. Ok (None, name) s) else Ok (Some ip, name) s
      | Some (path', name') \<Rightarrow>
          bindR (ilock ip s) (\<lambda>_ s.
            if i_type (inodes s ip) \<noteq> T_DIR
            then bindR (iunlockput ip s) (\<lambda>_ s. Ok (None, name') s)
            else if parent \<and> path' = []
            then bindR (iunlock ip s) (\<lambda>_ s. Ok (Some ip, name') s)
            else bindR (dirlookup dv ip name' s) (\<lambda>found s.
                   bindR (iunlockput ip s) (\<lambda>_ s.
                     case found of
                       None \<Rightarrow> Ok (None, name') s
                     | Some (nx, _) \<Rightarrow> namex_loop dv parent path' name' nx s))))"
  by pat_completeness auto
termination
  by (relation "measure (\<lambda>(dv, parent, path, name, ip, s). length path)") (auto dest: skipelem_shorter)

declare namex_loop.simps [simp del]

text \<open>
  A relative path starts at the current process's directory; a process without one dereferences
  a null pointer.
\<close>

definition namex :: "('z fs_st_scheme) devsw \<Rightarrow> u8 list \<Rightarrow> bool \<Rightarrow> u8 list \<Rightarrow> 'z fs_st_scheme \<Rightarrow>
    (nat option \<times> u8 list, 'z fs_st_scheme) result" where
  "namex dv path parent name s =
     (if path \<noteq> [] \<and> hd path = SLASH
      then bindR (iget ROOTDEV ROOTINO s) (\<lambda>ip s. namex_loop dv parent path name ip s)
      else case curproc s of
             None \<Rightarrow> Panic ''trap''
           | Some p \<Rightarrow> (case p_cwd (ptable s p) of
                          None \<Rightarrow> Panic ''trap''
                        | Some c \<Rightarrow> namex_loop dv parent path name c (idup c s)))"

definition namei :: "('z fs_st_scheme) devsw \<Rightarrow> u8 list \<Rightarrow> 'z fs_st_scheme \<Rightarrow> (nat option, 'z fs_st_scheme) result" where
  "namei dv path s = bindR (namex dv path False (replicate DIRSIZ 0) s) (\<lambda>(ip, _) s. Ok ip s)"

definition nameiparent :: "('z fs_st_scheme) devsw \<Rightarrow> u8 list \<Rightarrow> u8 list \<Rightarrow> 'z fs_st_scheme \<Rightarrow>
    (nat option \<times> u8 list, 'z fs_st_scheme) result" where
  "nameiparent dv path name s = namex dv path True name s"

end
