(* ===== verification/Ring.thy ===== *)
theory Ring
  imports Prelude
begin

section \<open>Ring buffers\<close>

text \<open>
  Pipes and the console keep bytes in an array indexed by two free-running 32-bit counters modulo
  the array's length. Both wrap at \<open>2 ^ 32\<close>, which the length divides. The bytes between the
  counters are the content of a bounded first-in first-out queue.
\<close>

definition ring_get :: "u8 list \<Rightarrow> u32 \<Rightarrow> u8" where
  "ring_get d k = d ! (unat k mod length d)"

definition ring_set :: "u8 list \<Rightarrow> u32 \<Rightarrow> u8 \<Rightarrow> u8 list" where
  "ring_set d k b = d[unat k mod length d := b]"

definition ring_bytes :: "u8 list \<Rightarrow> u32 \<Rightarrow> u32 \<Rightarrow> u8 list" where
  "ring_bytes d r w = map (\<lambda>k. ring_get d (r + of_nat k)) [0..<unat (w - r)]"

lemma length_ring_set [simp]: "length (ring_set d k b) = length d"
  by (simp add: ring_set_def)

lemma length_ring_bytes [simp]: "length (ring_bytes d r w) = unat (w - r)"
  by (simp add: ring_bytes_def)

lemma ring_bytes_empty [simp]: "ring_bytes d r r = []"
  by (simp add: ring_bytes_def)

lemma unat_mod_dvd:
  assumes "N dvd 2 ^ 32"
  shows "unat (r + of_nat k :: u32) mod N = (unat r + k) mod N"
proof -
  have "unat (r + of_nat k :: u32) = (unat r + k) mod 2 ^ 32"
    by (simp add: unat_word_ariths unat_of_nat mod_simps)
  then show ?thesis using assms by (simp add: mod_mod_cancel)
qed

lemma ring_index_apart:
  assumes N: "N dvd 2 ^ 32" and j: "j < k" and k: "k < N"
  shows "unat (r + of_nat j :: u32) mod N \<noteq> unat (r + of_nat k :: u32) mod N"
proof -
  have "(unat r + j) mod N \<noteq> (unat r + k) mod N"
  proof
    assume "(unat r + j) mod N = (unat r + k) mod N"
    then have "N dvd (unat r + k) - (unat r + j)"
      using j by (subst mod_eq_dvd_iff_nat [symmetric]) simp_all
    then have "N dvd k - j" by simp
    then show False using j k by (auto dest: dvd_imp_le)
  qed
  then show ?thesis by (simp only: unat_mod_dvd [OF N] not_False_eq_True)
qed

lemma unat_Suc_diff: "unat (w - r :: u32) < 2 ^ 32 - 1 \<Longrightarrow> unat (w + 1 - r) = Suc (unat (w - r))"
proof -
  assume a: "unat (w - r :: u32) < 2 ^ 32 - 1"
  have "w + 1 - r = (w - r) + 1" by simp
  moreover have "unat ((w - r) + 1) = Suc (unat (w - r))"
    using a by (simp add: unat_word_ariths)
  ultimately show ?thesis by (simp only:)
qed

lemma ring_bytes_push:
  assumes N: "length d dvd 2 ^ 32" and f: "unat (w - r) < length d" and l: "length d < 2 ^ 32"
  shows "ring_bytes (ring_set d w b) r (w + 1) = ring_bytes d r w @ [b]"
proof -
  let ?n = "unat (w - r)"
  have w: "r + of_nat ?n = w" by simp
  have n: "unat (w + 1 - r) = Suc ?n" using f l by (intro unat_Suc_diff) simp
  have "ring_get (ring_set d w b) (r + of_nat k) = ring_get d (r + of_nat k)" if "k < ?n" for k
    using ring_index_apart [OF N that f, of r] w by (simp add: ring_get_def ring_set_def)
  moreover have "ring_get (ring_set d w b) (r + of_nat ?n) = b"
  proof -
    have "unat w mod length d < length d" using f by (intro mod_less_divisor) linarith
    then show ?thesis by (simp add: ring_get_def ring_set_def)
  qed
  ultimately show ?thesis by (simp add: ring_bytes_def n)
qed

lemma ring_bytes_pop:
  assumes "r \<noteq> w"
  shows "ring_bytes d r w = ring_get d r # ring_bytes d (r + 1) w"
proof -
  have "w - r \<noteq> 0" using assms by simp
  then have n: "unat (w - r) = Suc (unat (w - (r + 1)))"
  proof -
    have "w - (r + 1) = (w - r) - 1" by simp
    moreover have "unat ((w - r) - 1) = unat (w - r) - 1" using \<open>w - r \<noteq> 0\<close> by (rule unat_minus_one)
    moreover have "0 < unat (w - r)" using \<open>w - r \<noteq> 0\<close> by (simp only: unat_gt_0 not_False_eq_True)
    ultimately show ?thesis by (simp only: Suc_pred [of "unat (w - r)"] One_nat_def)
  qed
  have "map (\<lambda>k. ring_get d (r + of_nat k)) [0..<Suc m] =
      ring_get d r # map (\<lambda>k. ring_get d (r + 1 + of_nat k)) [0..<m]" for m
    by (simp add: upt_conv_Cons map_Suc_upt [symmetric] comp_def add.assoc del: upt_Suc)
  then show ?thesis unfolding ring_bytes_def n .
qed

subsection \<open>A bounded queue as an interface\<close>

text \<open>
  \<open>ok\<close> is the provider's invariant, \<open>content\<close> what is queued. Pushing a whole list with \<open>push\<close> and
  popping it byte by byte preserves order whatever the interleaving.
\<close>

locale byte_queue =
  fixes ok :: "'q \<Rightarrow> bool"
    and content :: "'q \<Rightarrow> u8 list"
    and cap :: nat
    and full :: "'q \<Rightarrow> bool"
    and empty :: "'q \<Rightarrow> bool"
    and push :: "u8 \<Rightarrow> 'q \<Rightarrow> 'q"
    and pop :: "'q \<Rightarrow> u8 \<times> 'q"
  assumes bound: "ok q \<Longrightarrow> length (content q) \<le> cap"
    and full_iff: "ok q \<Longrightarrow> full q \<longleftrightarrow> length (content q) = cap"
    and empty_iff: "ok q \<Longrightarrow> empty q \<longleftrightarrow> content q = []"
    and push_law: "ok q \<Longrightarrow> \<not> full q \<Longrightarrow> ok (push b q) \<and> content (push b q) = content q @ [b]"
    and pop_law: "ok q \<Longrightarrow> \<not> empty q \<Longrightarrow> ok (snd (pop q)) \<and> content q = fst (pop q) # content (snd (pop q))"
begin

text \<open>Push bytes until the queue is full; the bytes left over are returned.\<close>

fun push_many :: "u8 list \<Rightarrow> 'q \<Rightarrow> u8 list \<times> 'q" where
  "push_many [] q = ([], q)"
| "push_many (b # bs) q = (if full q then (b # bs, q) else push_many bs (push b q))"

fun pop_many :: "nat \<Rightarrow> 'q \<Rightarrow> u8 list \<times> 'q" where
  "pop_many 0 q = ([], q)"
| "pop_many (Suc n) q =
     (if empty q then ([], q)
      else let (b, q) = pop q; (bs, q) = pop_many n q in (b # bs, q))"

lemma push_many_law:
  "ok q \<Longrightarrow> push_many bs q = (rest, q') \<Longrightarrow>
     ok q' \<and> (\<exists>done. bs = done @ rest \<and> content q' = content q @ done \<and> (rest = [] \<or> length (content q') = cap))"
proof (induction bs arbitrary: q)
  case (Cons b bs)
  show ?case
  proof (cases "full q")
    case True
    then show ?thesis using Cons.prems full_iff by auto
  next
    case False
    then have p: "ok (push b q)" "content (push b q) = content q @ [b]" using push_law Cons.prems(1) by auto
    have "push_many bs (push b q) = (rest, q')" using False Cons.prems(2) by simp
    from Cons.IH [OF p(1) this] obtain dn where "ok q'" "bs = dn @ rest" "content q' = content q @ [b] @ dn"
      "rest = [] \<or> length (content q') = cap" using p(2) by auto
    then show ?thesis by (auto intro: exI [of _ "b # dn"])
  qed
qed auto

lemma pop_many_law:
  "ok q \<Longrightarrow> pop_many n q = (bs, q') \<Longrightarrow>
     ok q' \<and> content q = bs @ content q' \<and> length bs = min n (length (content q))"
proof (induction n arbitrary: q bs q')
  case (Suc n)
  show ?case
  proof (cases "empty q")
    case True
    then show ?thesis using Suc.prems empty_iff by auto
  next
    case False
    obtain b q1 where q1: "pop q = (b, q1)" by (cases "pop q")
    obtain cs q2 where q2: "pop_many n q1 = (cs, q2)" by (cases "pop_many n q1")
    have c: "ok q1" "content q = b # content q1" using pop_law [OF Suc.prems(1) False] q1 by simp_all
    have "bs = b # cs" "q' = q2" using Suc.prems(2) False q1 q2 by simp_all
    moreover have "ok q2" "content q1 = cs @ content q2" "length cs = min n (length (content q1))"
      using Suc.IH [OF c(1) q2] by blast+
    ultimately show ?thesis using c(2) by (simp only: append_Cons list.size min_Suc_Suc) simp
  qed
qed auto

end

end
