(* ===== verification/File.thy ===== *)
theory File
  imports Dir Ring
begin

section \<open>Open files and pipes (file.c, pipe.c, file.h)\<close>

text \<open>
  Open files are named by their index in \<open>ftable\<close>, pipes by the address of the page \<open>kalloc\<close> gave
  them; the fields of the pipe living in that page are a record. Bytes read or written are
  results and arguments, as in \<open>readi\<close> and \<open>writei\<close>.
\<close>

subsection \<open>Data\<close>

definition PIPESIZE :: nat where [simp]: "PIPESIZE = 512"

record pipe =
  pi_data :: "u8 list"
  pi_nread :: u32
  pi_nwrite :: u32
  pi_readopen :: bool
  pi_writeopen :: bool

datatype ftype = FD_NONE | FD_PIPE | FD_INODE

record kfile =
  f_type :: ftype
  f_ref :: int
  f_readable :: bool
  f_writable :: bool
  f_pipe :: addr_t
  f_ip :: nat
  f_off :: u32

record file_st = fs_st +
  ftable :: "nat \<Rightarrow> kfile"
  pipes :: "addr_t \<Rightarrow> pipe"

definition upd_file :: "nat \<Rightarrow> (kfile \<Rightarrow> kfile) \<Rightarrow> 'z file_st_scheme \<Rightarrow> 'z file_st_scheme" where
  "upd_file i f s = s\<lparr>ftable := (ftable s)(i := f (ftable s i))\<rparr>"

definition upd_pipe :: "addr_t \<Rightarrow> (pipe \<Rightarrow> pipe) \<Rightarrow> 'z file_st_scheme \<Rightarrow> 'z file_st_scheme" where
  "upd_pipe p f s = s\<lparr>pipes := (pipes s)(p := f (pipes s p))\<rparr>"

subsection \<open>Pipes\<close>

definition pipeclose :: "addr_t \<Rightarrow> bool \<Rightarrow> 'z file_st_scheme \<Rightarrow> (unit, 'z file_st_scheme) result" where
  "pipeclose p writable s =
     (let s = (if writable then wakeup (PipeReadChan p) (upd_pipe p (\<lambda>q. q\<lparr>pi_writeopen := False\<rparr>) s)
               else wakeup (PipeWriteChan p) (upd_pipe p (\<lambda>q. q\<lparr>pi_readopen := False\<rparr>) s)) in
      if \<not> pi_readopen (pipes s p) \<and> \<not> pi_writeopen (pipes s p) then kfree p s else Ok () s)"

definition pipe_full :: "pipe \<Rightarrow> bool" where
  "pipe_full q \<longleftrightarrow> pi_nwrite q = pi_nread q + of_nat PIPESIZE"

definition pipe_empty :: "pipe \<Rightarrow> bool" where
  "pipe_empty q \<longleftrightarrow> pi_nread q = pi_nwrite q"

text \<open>\<open>p->data[p->nwrite++ % PIPESIZE] = b\<close> and \<open>p->data[p->nread++ % PIPESIZE]\<close>.\<close>

definition pipe_put :: "u8 \<Rightarrow> pipe \<Rightarrow> pipe" where
  "pipe_put b q = q\<lparr>pi_data := (pi_data q)[unat (pi_nwrite q) mod PIPESIZE := b], pi_nwrite := pi_nwrite q + 1\<rparr>"

definition pipe_get :: "pipe \<Rightarrow> u8 \<times> pipe" where
  "pipe_get q = (pi_data q ! (unat (pi_nread q) mod PIPESIZE), q\<lparr>pi_nread := pi_nread q + 1\<rparr>)"

text \<open>The copy loops, up to the point where the pipe is full or empty.\<close>

fun pipe_fill :: "u8 list \<Rightarrow> pipe \<Rightarrow> u8 list \<times> pipe" where
  "pipe_fill [] q = ([], q)"
| "pipe_fill (b # bs) q = (if pipe_full q then (b # bs, q) else pipe_fill bs (pipe_put b q))"

fun pipe_drain :: "nat \<Rightarrow> pipe \<Rightarrow> u8 list \<times> pipe" where
  "pipe_drain 0 q = ([], q)"
| "pipe_drain (Suc n) q =
     (if pipe_empty q then ([], q)
      else let (b, q) = pipe_get q; (bs, q) = pipe_drain n q in (b # bs, q))"

text \<open>
  \<open>proc->killed\<close>; without a current process the kernel faults.
\<close>

definition cur_killed :: "'z sched_st_scheme \<Rightarrow> (bool, 'z sched_st_scheme) result" where
  "cur_killed s = (case curproc s of None \<Rightarrow> Panic ''trap'' | Some p \<Rightarrow> Ok (p_killed (ptable s p)) s)"

text \<open>
  \<open>pipewrite\<close> with \<open>bs\<close> still to write out of \<open>n\<close> bytes. A writer that finds the pipe full sleeps;
  when woken it goes on with the bytes \<open>pipe_fill\<close> left over.
\<close>

definition pipewrite_from :: "int \<Rightarrow> addr_t \<Rightarrow> u8 list \<Rightarrow> 'z file_st_scheme \<Rightarrow> (int, 'z file_st_scheme) result" where
  "pipewrite_from n p bs s =
     (let (rest, q) = pipe_fill bs (pipes s p); s = upd_pipe p (\<lambda>_. q) s in
      if rest = [] then Ok n (wakeup (PipeReadChan p) s)
      else bindR (if \<not> pi_readopen q then Ok True s else cur_killed s) (\<lambda>stop s.
           if stop then Ok (-1) s
           else sleep (PipeWriteChan p) (wakeup (PipeReadChan p) s)))"

definition pipewrite :: "addr_t \<Rightarrow> u8 list \<Rightarrow> int \<Rightarrow> 'z file_st_scheme \<Rightarrow> (int, 'z file_st_scheme) result" where
  "pipewrite p addr n s = pipewrite_from n p (take (nat n) addr) s"

definition piperead :: "addr_t \<Rightarrow> int \<Rightarrow> 'z file_st_scheme \<Rightarrow> (int \<times> u8 list, 'z file_st_scheme) result" where
  "piperead p n s =
     (if pipe_empty (pipes s p) \<and> pi_writeopen (pipes s p)
      then bindR (cur_killed s) (\<lambda>k s. if k then Ok (-1, []) s else sleep (PipeReadChan p) s)
      else let (bs, q) = pipe_drain (nat n) (pipes s p)
           in Ok (int (length bs), bs) (wakeup (PipeWriteChan p) (upd_pipe p (\<lambda>_. q) s)))"

subsection \<open>The file table\<close>

definition filealloc :: "'z file_st_scheme \<Rightarrow> nat option \<times> 'z file_st_scheme" where
  "filealloc s =
     (case first_slot NFILE (\<lambda>i. f_ref (ftable s i) = 0) of
        None \<Rightarrow> (None, s)
      | Some i \<Rightarrow> (Some i, upd_file i (\<lambda>f. f\<lparr>f_ref := 1\<rparr>) s))"

definition filedup :: "nat \<Rightarrow> 'z file_st_scheme \<Rightarrow> (nat, 'z file_st_scheme) result" where
  "filedup f s =
     (if f_ref (ftable s f) < 1 then Panic ''filedup''
      else Ok f (upd_file f (\<lambda>x. x\<lparr>f_ref := f_ref x + 1\<rparr>) s))"

definition fileclose :: "nat \<Rightarrow> 'z file_st_scheme \<Rightarrow> (unit, 'z file_st_scheme) result" where
  "fileclose f s =
     (if f_ref (ftable s f) < 1 then Panic ''fileclose''
      else let s = upd_file f (\<lambda>x. x\<lparr>f_ref := f_ref x - 1\<rparr>) s in
      if f_ref (ftable s f) > 0 then Ok () s
      else let ff = ftable s f;
               s = upd_file f (\<lambda>x. x\<lparr>f_ref := 0, f_type := FD_NONE\<rparr>) s in
           (case f_type ff of
              FD_PIPE \<Rightarrow> pipeclose (f_pipe ff) (f_writable ff) s
            | FD_INODE \<Rightarrow> bindR (begin_op s) (\<lambda>_ s. bindR (iput (f_ip ff) s) (\<lambda>_ s. end_op s))
            | FD_NONE \<Rightarrow> Ok () s))"

definition pipealloc :: "'z file_st_scheme \<Rightarrow> ((nat \<times> nat) option, 'z file_st_scheme) result" where
  "pipealloc s =
     (let (f0, s) = filealloc s; (f1, s) = (if f0 = None then (None, s) else filealloc s) in
      case (f0, f1) of
        (Some a, Some b) \<Rightarrow>
          bindR (kalloc s) (\<lambda>p s.
            let s = upd_pipe p (\<lambda>q. q\<lparr>pi_readopen := True, pi_writeopen := True, pi_nwrite := 0, pi_nread := 0\<rparr>) s;
                s = upd_file a (\<lambda>x. x\<lparr>f_type := FD_PIPE, f_readable := True, f_writable := False, f_pipe := p\<rparr>) s;
                s = upd_file b (\<lambda>x. x\<lparr>f_type := FD_PIPE, f_readable := False, f_writable := True, f_pipe := p\<rparr>) s
            in Ok (Some (a, b)) s)
      | (Some a, None) \<Rightarrow> bindR (fileclose a s) (\<lambda>_ s. Ok None s)
      | _ \<Rightarrow> Ok None s)"

definition filestat :: "nat \<Rightarrow> 'z file_st_scheme \<Rightarrow> (stat option, 'z file_st_scheme) result" where
  "filestat f s =
     (case f_type (ftable s f) of
        FD_INODE \<Rightarrow>
          (let ip = f_ip (ftable s f) in
           bindR (ilock ip s) (\<lambda>_ s. let st = stati ip s in bindR (iunlock ip s) (\<lambda>_ s. Ok (Some st) s)))
      | _ \<Rightarrow> Ok None s)"

definition fileread :: "('z file_st_scheme) devsw \<Rightarrow> nat \<Rightarrow> int \<Rightarrow> 'z file_st_scheme \<Rightarrow> (int \<times> u8 list, 'z file_st_scheme) result" where
  "fileread dv f n s =
     (let ff = ftable s f in
      if \<not> f_readable ff then Ok (-1, []) s
      else case f_type ff of
        FD_PIPE \<Rightarrow> piperead (f_pipe ff) n s
      | FD_INODE \<Rightarrow>
          bindR (ilock (f_ip ff) s) (\<lambda>_ s.
          bindR (readi dv (f_ip ff) (f_off (ftable s f)) (of_int n) s) (\<lambda>(r, bs) s.
            let s = (if r > 0 then upd_file f (\<lambda>x. x\<lparr>f_off := f_off x + of_int r\<rparr>) s else s) in
            bindR (iunlock (f_ip ff) s) (\<lambda>_ s. Ok (r, bs) s)))
      | FD_NONE \<Rightarrow> Panic ''fileread'')"

text \<open>The most bytes \<open>filewrite\<close> puts into one transaction.\<close>

definition FILEMAX :: nat where [simp]: "FILEMAX = ((LOGSIZE - 1 - 1 - 2) div 2) * 512"

definition filewrite_chunk :: "('z file_st_scheme) devsw \<Rightarrow> nat \<Rightarrow> u8 list \<Rightarrow> 'z file_st_scheme \<Rightarrow> (int, 'z file_st_scheme) result" where
  "filewrite_chunk dv f bs s =
     bindR (begin_op s) (\<lambda>_ s. let ip = f_ip (ftable s f) in
     bindR (ilock ip s) (\<lambda>_ s.
     bindR (writei dv ip bs (f_off (ftable s f)) s) (\<lambda>r s.
       let s = (if r > 0 then upd_file f (\<lambda>x. x\<lparr>f_off := f_off x + of_int r\<rparr>) s else s) in
     bindR (iunlock ip s) (\<lambda>_ s.
     bindR (end_op s) (\<lambda>_ s. Ok r s)))))"

function filewrite_loop :: "('z file_st_scheme) devsw \<Rightarrow> nat \<Rightarrow> u8 list \<Rightarrow> 'z file_st_scheme \<Rightarrow> (bool, 'z file_st_scheme) result" where
  "filewrite_loop dv f bs s =
     (if bs = [] then Ok True s
      else let n1 = min (length bs) FILEMAX in
      bindR (filewrite_chunk dv f (take n1 bs) s) (\<lambda>r s.
        if r < 0 then Ok False s
        else if r \<noteq> int n1 then Panic ''short filewrite''
        else filewrite_loop dv f (drop n1 bs) s))"
  by pat_completeness auto
termination by (relation "measure (\<lambda>(dv, f, bs, s). length bs)") auto

declare filewrite_loop.simps [simp del]

definition filewrite :: "('z file_st_scheme) devsw \<Rightarrow> nat \<Rightarrow> u8 list \<Rightarrow> int \<Rightarrow> 'z file_st_scheme \<Rightarrow> (int, 'z file_st_scheme) result" where
  "filewrite dv f addr n s =
     (let ff = ftable s f in
      if \<not> f_writable ff then Ok (-1) s
      else case f_type ff of
        FD_PIPE \<Rightarrow> pipewrite (f_pipe ff) addr n s
      | FD_INODE \<Rightarrow>
          if n < 0 then Ok (-1) s
          else bindR (filewrite_loop dv f (take (nat n) addr) s) (\<lambda>all s. Ok (if all then n else -1) s)
      | FD_NONE \<Rightarrow> Panic ''filewrite'')"

subsection \<open>A pipe is a bounded queue of bytes\<close>

definition pipe_ok :: "pipe \<Rightarrow> bool" where
  "pipe_ok q \<longleftrightarrow> length (pi_data q) = PIPESIZE \<and> unat (pi_nwrite q - pi_nread q) \<le> PIPESIZE"

definition pipe_bytes :: "pipe \<Rightarrow> u8 list" where
  "pipe_bytes q = ring_bytes (pi_data q) (pi_nread q) (pi_nwrite q)"

lemma pipe_full_iff: "pipe_ok q \<Longrightarrow> pipe_full q \<longleftrightarrow> unat (pi_nwrite q - pi_nread q) = PIPESIZE"
proof -
  have "pi_nwrite q = pi_nread q + 512 \<longleftrightarrow> pi_nwrite q - pi_nread q = 512" by (simp add: algebra_simps)
  also have "\<dots> \<longleftrightarrow> unat (pi_nwrite q - pi_nread q) = 512"
    by (subst word_unat_eq_iff) simp
  finally show ?thesis by (simp add: pipe_full_def)
qed

interpretation pq: byte_queue pipe_ok pipe_bytes PIPESIZE pipe_full pipe_empty pipe_put pipe_get
proof
  fix q b
  assume ok: "pipe_ok q"
  then show "length (pipe_bytes q) \<le> PIPESIZE" by (simp add: pipe_ok_def pipe_bytes_def)
  show "pipe_full q \<longleftrightarrow> length (pipe_bytes q) = PIPESIZE" using pipe_full_iff [OF ok] by (simp add: pipe_bytes_def)
  show "pipe_empty q \<longleftrightarrow> pipe_bytes q = []"
    by (metis eq_iff_diff_eq_0 length_0_conv length_ring_bytes pipe_bytes_def pipe_empty_def unat_eq_zero)
  show "pipe_ok (pipe_put b q) \<and> pipe_bytes (pipe_put b q) = pipe_bytes q @ [b]" if "\<not> pipe_full q"
  proof -
    have lt: "unat (pi_nwrite q - pi_nread q) < length (pi_data q)"
      using ok that pipe_full_iff [OF ok] by (simp add: pipe_ok_def)
    moreover have l: "length (pi_data q) = 512" using ok by (simp add: pipe_ok_def)
    ultimately have "ring_bytes (ring_set (pi_data q) (pi_nwrite q) b) (pi_nread q) (pi_nwrite q + 1) = pipe_bytes q @ [b]"
      unfolding pipe_bytes_def by (intro ring_bytes_push) simp_all
    moreover have "unat (pi_nwrite q + 1 - pi_nread q) = Suc (unat (pi_nwrite q - pi_nread q))"
      using lt l by (intro unat_Suc_diff) simp
    ultimately show ?thesis using lt l by (simp add: pipe_put_def pipe_ok_def pipe_bytes_def ring_set_def)
  qed
  show "pipe_ok (snd (pipe_get q)) \<and> pipe_bytes q = fst (pipe_get q) # pipe_bytes (snd (pipe_get q))" if "\<not> pipe_empty q"
  proof -
    have ne: "pi_nread q \<noteq> pi_nwrite q" using that by (simp add: pipe_empty_def)
    have p: "pipe_bytes q = ring_get (pi_data q) (pi_nread q) # ring_bytes (pi_data q) (pi_nread q + 1) (pi_nwrite q)"
      unfolding pipe_bytes_def by (rule ring_bytes_pop [OF ne])
    then have "unat (pi_nwrite q - (pi_nread q + 1)) < unat (pi_nwrite q - pi_nread q)"
      by (metis length_Cons length_ring_bytes lessI pipe_bytes_def)
    then show ?thesis using ok p by (simp add: pipe_get_def pipe_ok_def pipe_bytes_def ring_get_def)
  qed
qed

lemma pipe_fill_push: "pipe_fill bs q = pq.push_many bs q"
  by (induction bs arbitrary: q) simp_all

lemma pipe_drain_pop: "pipe_drain n q = pq.pop_many n q"
  by (induction n arbitrary: q) (simp_all add: Let_def split: prod.splits)

text \<open>A history of turns of writers and readers, with the bytes accepted and delivered.\<close>

datatype pipe_turn = Wr "u8 list" | Rd nat

fun pipe_history :: "pipe_turn list \<Rightarrow> pipe \<Rightarrow> u8 list \<times> u8 list \<times> pipe" where
  "pipe_history [] q = ([], [], q)"
| "pipe_history (Wr bs # ts) q =
     (let (rest, q) = pipe_fill bs q; (w, r, q) = pipe_history ts q
      in (take (length bs - length rest) bs @ w, r, q))"
| "pipe_history (Rd n # ts) q =
     (let (bs, q) = pipe_drain n q; (w, r, q) = pipe_history ts q in (w, bs @ r, q))"

lemma pipe_history_queue:
  "pipe_ok q \<Longrightarrow> pipe_history ts q = (w, r, q') \<Longrightarrow> pipe_ok q' \<and> pipe_bytes q @ w = r @ pipe_bytes q'"
proof (induction ts arbitrary: q w r q')
  case (Cons t ts)
  show ?case
  proof (cases t)
    case (Wr bs)
    obtain rest q1 where f: "pipe_fill bs q = (rest, q1)" by (cases "pipe_fill bs q")
    obtain w1 r1 q2 where h: "pipe_history ts q1 = (w1, r1, q2)" by (cases "pipe_history ts q1")
    obtain dn where d: "pipe_ok q1" "bs = dn @ rest" "pipe_bytes q1 = pipe_bytes q @ dn"
      using pq.push_many_law [OF Cons.prems(1) f [unfolded pipe_fill_push]] by blast
    have "w = dn @ w1" "r = r1" "q' = q2" using Cons.prems(2) f h d(2) by (simp_all add: Wr)
    then show ?thesis using Cons.IH [OF d(1) h] d(3) by simp
  next
    case (Rd n)
    obtain bs q1 where f: "pipe_drain n q = (bs, q1)" by (cases "pipe_drain n q")
    obtain w1 r1 q2 where h: "pipe_history ts q1 = (w1, r1, q2)" by (cases "pipe_history ts q1")
    have d: "pipe_ok q1" "pipe_bytes q = bs @ pipe_bytes q1"
      using pq.pop_many_law [OF Cons.prems(1) f [unfolded pipe_drain_pop]] by blast+
    have "w = w1" "r = bs @ r1" "q' = q2" using Cons.prems(2) f h by (simp_all add: Rd)
    then show ?thesis using Cons.IH [OF d(1) h] d(2) by simp
  qed
qed simp

subsection \<open>Properties\<close>

text \<open>
  C19. A pipe delivers bytes in order, without loss or duplication. Starting from an empty pipe with
  any counter value, after any interleaving of write turns (each going on until its bytes are
  in or the pipe is full) and read turns, the bytes accepted are those delivered followed by those
  still in the pipe, of which there are at most \<open>PIPESIZE\<close>; the 32-bit counters may wrap around.
\<close>

theorem pipe_fifo:
  assumes "length (pi_data q) = PIPESIZE" and "pi_nread q = pi_nwrite q"
    and "pipe_history ts q = (w, r, q')"
  shows "w = r @ pipe_bytes q' \<and> length (pipe_bytes q') \<le> PIPESIZE"
proof -
  have ok: "pipe_ok q" using assms(1,2) by (simp add: pipe_ok_def)
  have "pipe_bytes q = []" using assms(2) by (simp add: pipe_bytes_def)
  then show ?thesis using pipe_history_queue [OF ok assms(3)] pq.bound by auto
qed

theorem pipe_fifo_witness:
  "\<exists>w r q'. pipe_history [Wr [1, 2], Rd 1, Wr [3], Rd 9]
       \<lparr>pi_data = replicate 512 0, pi_nread = 0xFFFFFFFF, pi_nwrite = 0xFFFFFFFF, pi_readopen = True, pi_writeopen = True\<rparr>
     = (w, r, q') \<and> w = r @ pipe_bytes q' \<and> length (pipe_bytes q') \<le> PIPESIZE"
  using pipe_fifo [of "\<lparr>pi_data = replicate 512 0, pi_nread = 0xFFFFFFFF, pi_nwrite = 0xFFFFFFFF,
      pi_readopen = True, pi_writeopen = True\<rparr>" "[Wr [1, 2], Rd 1, Wr [3], Rd 9]"]
  by (metis PIPESIZE_def length_replicate pipe.select_convs(1-3) prod_cases3)

lemma pipes_frame [simp]:
  "pipes (wakeup c s) = pipes s" "ptable (upd_pipe p f s) = ptable s" "curproc (upd_pipe p f s) = curproc s"
  "pipes (upd_pipe p f s) = (pipes s)(p := f (pipes s p))" "pipes (upd_proc i g s) = pipes s"
  by (simp_all add: wakeup_def wakeup1_def upd_pipe_def upd_proc_def)

lemma pipewrite_sleeps:
  assumes "pipewrite p addr n s = Sleeps c t" and ok: "pipe_ok (pipes s p)"
  obtains w where "curproc s = Some w" "c = PipeWriteChan p" "p_state (ptable t w) = SLEEPING"
    "p_chan (ptable t w) = Some (PipeWriteChan p)" "pipe_ok (pipes t p)" "length (pipe_bytes (pipes t p)) = PIPESIZE"
proof -
  obtain rest q where f: "pipe_fill (take (nat n) addr) (pipes s p) = (rest, q)"
    by (cases "pipe_fill (take (nat n) addr) (pipes s p)")
  have q: "pipe_ok q" "rest = [] \<or> length (pipe_bytes q) = PIPESIZE"
    using pq.push_many_law [OF ok f [unfolded pipe_fill_push]] by blast+
  show thesis
    using assms(1) q that
    by (auto simp: pipewrite_def pipewrite_from_def f Let_def cur_killed_def sleep_def
        split: if_splits option.splits)
qed

text \<open>
  C20. No wakeup is lost between a writer and a reader of a pipe. If \<open>pipewrite\<close> puts process \<open>w\<close> to
  sleep on a full pipe, then the next \<open>piperead\<close> another process makes returns at once with at
  least one byte (when it asks for one), leaves room, and \<open>w\<close> is runnable again.
\<close>

theorem pipe_wakes_writer:
  assumes "pipe_ok (pipes s p)" and "curproc s = Some w" and "w < NPROC" and "0 < m"
    and "pipewrite p addr n s = Sleeps c t"
  shows "wp (piperead p m (t\<lparr>curproc := Some r\<rparr>)) (\<lambda>(k, bs) u.
     0 < k \<and> k = int (length bs) \<and> p_state (ptable u w) = RUNNABLE \<and> \<not> pipe_full (pipes u p))"
proof -
  obtain w' where w': "curproc s = Some w'" "p_state (ptable t w') = SLEEPING"
    "p_chan (ptable t w') = Some (PipeWriteChan p)" and ok: "pipe_ok (pipes t p)" and len: "length (pipe_bytes (pipes t p)) = PIPESIZE"
    using pipewrite_sleeps [OF assms(5,1)] by metis
  then have w: "p_state (ptable t w) = SLEEPING" "p_chan (ptable t w) = Some (PipeWriteChan p)"
    using assms(2) by auto
  have ne: "\<not> pipe_empty (pipes t p)" using len pq.empty_iff [OF ok] by auto
  obtain bs q where d: "pipe_drain (nat m) (pipes t p) = (bs, q)" by (cases "pipe_drain (nat m) (pipes t p)")
  have D: "pipe_ok q" "pipe_bytes (pipes t p) = bs @ pipe_bytes q" "length bs = min (nat m) PIPESIZE"
    using pq.pop_many_law [OF ok d [unfolded pipe_drain_pop]] len by auto
  have pos: "0 < length bs" using D(3) assms(4) by simp
  then have nf: "\<not> pipe_full q" using pq.full_iff [OF D(1)] D(2) len by auto
  have "piperead p m (t\<lparr>curproc := Some r\<rparr>) = Ok (int (length bs), bs)
      (wakeup (PipeWriteChan p) (upd_pipe p (\<lambda>_. q) (t\<lparr>curproc := Some r\<rparr>)))"
    using ne d by (simp add: piperead_def)
  then show ?thesis using pos w assms(3) nf by (simp add: ptable_wakeup)
qed

definition zero_file :: kfile where
  "zero_file = \<lparr>f_type = FD_NONE, f_ref = 0, f_readable = False, f_writable = False, f_pipe = 0, f_ip = 0, f_off = 0\<rparr>"

definition zero_pipe :: pipe where
  "zero_pipe = \<lparr>pi_data = replicate PIPESIZE 0, pi_nread = 0, pi_nwrite = 0, pi_readopen = False, pi_writeopen = False\<rparr>"

definition file_boot :: file_st where
  "file_boot = fs_st.extend (fs_boot zero_disk) (file_st.fields (\<lambda>_. zero_file) (\<lambda>_. zero_pipe))"

definition full_pipe_demo :: file_st where
  "full_pipe_demo = file_boot\<lparr>ptable := (\<lambda>_. zero_proc\<lparr>p_state := RUNNING\<rparr>), curproc := Some 0,
     pipes := (\<lambda>_. zero_pipe\<lparr>pi_nwrite := 512, pi_readopen := True, pi_writeopen := True\<rparr>)\<rparr>"

theorem pipe_wakes_writer_witness:
  "\<exists>c t. pipewrite 0 [7] 1 full_pipe_demo = Sleeps c t \<and> wp (piperead 0 1 (t\<lparr>curproc := Some 1\<rparr>)) (\<lambda>(k, bs) u.
     0 < k \<and> k = int (length bs) \<and> p_state (ptable u 0) = RUNNABLE \<and> \<not> pipe_full (pipes u 0))"
proof -
  have ok: "pipe_ok (pipes full_pipe_demo 0)"
    by (simp add: full_pipe_demo_def pipe_ok_def zero_pipe_def)
  have cur: "curproc full_pipe_demo = Some 0" by (simp add: full_pipe_demo_def)
  have "\<exists>c t. pipewrite 0 [7] 1 full_pipe_demo = Sleeps c t"
    by (simp add: pipewrite_def pipewrite_from_def full_pipe_demo_def pipe_full_def zero_pipe_def zero_proc_def
        Let_def cur_killed_def sleep_def)
  then show ?thesis using pipe_wakes_writer [OF ok cur, of 1] by auto
qed

end
