(* ===== verification/Syscall.thy ===== *)
theory Syscall
  imports File
begin

section \<open>System call arguments (syscall.c)\<close>

text \<open>
  User memory is what the page tables at \<open>cr3\<close> map: the kernel follows user pointers through the
  current process's address space. A page that is not present is a kernel page fault, which ends
  in \<open>panic("trap")\<close>; the same happens when \<open>proc\<close> is null.
\<close>

unbundle bit_operations_syntax

subsection \<open>User memory\<close>

text \<open>
  The page walk of the processor: the place of an address's byte in the direct map. Every level
  must have the flags in \<open>need\<close> (a write needs \<open>PTE_W\<close>, because the kernel runs with \<open>CR0_WP\<close>);
  \<open>PTE_PS\<close> ends the walk early with a large page. A non-canonical address faults as well.
\<close>

definition pt_entry :: "memory \<Rightarrow> u64 \<Rightarrow> addr_t \<Rightarrow> u64 \<Rightarrow> u64 option" where
  "pt_entry m need tab idx =
     (let e = load64 m (entry tab idx) in if e AND need = need then Some e else None)"

definition utranslate :: "memory \<Rightarrow> u64 \<Rightarrow> u64 \<Rightarrow> addr_t \<Rightarrow> addr_t option" where
  "utranslate m root need va =
     (if 0x800000000000 \<le> va \<and> va < KERNBASE then None else
      Option.bind (pt_entry m need (P2V root) (PMX va)) (\<lambda>e.
      Option.bind (pt_entry m need (P2V (PTE_ADDR e)) (PDPX va)) (\<lambda>e.
      if e AND PTE_PS \<noteq> 0 then Some (P2V (e AND NOT 0x3FFFFFFF) + (va AND 0x3FFFFFFF)) else
      Option.bind (pt_entry m need (P2V (PTE_ADDR e)) (PDX va)) (\<lambda>e.
      if e AND PTE_PS \<noteq> 0 then Some (P2V (e AND NOT 0x1FFFFF) + (va AND 0x1FFFFF)) else
      Option.bind (pt_entry m need (P2V (PTE_ADDR e)) (PTX va)) (\<lambda>e.
      Some (P2V (PTE_ADDR e) + (va AND 0xFFF)))))))"

definition uread :: "addr_t \<Rightarrow> nat \<Rightarrow> 'z vm_st_scheme \<Rightarrow> (u8 list, 'z vm_st_scheme) result" where
  "uread va n s =
     (let as = map (\<lambda>i. utranslate (mem s) (cr3 s) PTE_P (va + of_nat i)) [0..<n] in
      if None \<in> set as then Panic ''trap'' else Ok (map (\<lambda>a. mem s (the a)) as) s)"

fun uwrite :: "addr_t \<Rightarrow> u8 list \<Rightarrow> 'z vm_st_scheme \<Rightarrow> (unit, 'z vm_st_scheme) result" where
  "uwrite va [] s = Ok () s"
| "uwrite va (b # bs) s =
     (case utranslate (mem s) (cr3 s) (PTE_P OR PTE_W) va of
        None \<Rightarrow> Panic ''trap''
      | Some a \<Rightarrow> uwrite (va + 1) bs (s\<lparr>mem := (mem s)(a := b)\<rparr>))"

definition dec64 :: "u8 list \<Rightarrow> u64" where
  "dec64 bs = ucast (dec32 (take 4 bs)) OR push_bit 32 (ucast (dec32 (drop 4 bs)))"

subsection \<open>Fetching\<close>

text \<open>\<open>proc\<close>, as a process record.\<close>

definition myproc :: "'z sched_st_scheme \<Rightarrow> (proc, 'z sched_st_scheme) result" where
  "myproc s = (case curproc s of None \<Rightarrow> Panic ''trap'' | Some p \<Rightarrow> Ok (ptable s p) s)"

definition fetchint :: "addr_t \<Rightarrow> 'z sched_st_scheme \<Rightarrow> (int option, 'z sched_st_scheme) result" where
  "fetchint addr s =
     bindR (myproc s) (\<lambda>p s.
       if addr < PGSIZE \<or> addr \<ge> p_sz p \<or> addr + 4 > p_sz p then Ok None s
       else bindR (uread addr 4 s) (\<lambda>bs s. Ok (Some (sint (dec32 bs))) s))"

definition fetchaddr :: "addr_t \<Rightarrow> 'z sched_st_scheme \<Rightarrow> (u64 option, 'z sched_st_scheme) result" where
  "fetchaddr addr s =
     bindR (myproc s) (\<lambda>p s.
       if addr < PGSIZE \<or> addr \<ge> p_sz p \<or> addr + 8 > p_sz p then Ok None s
       else bindR (uread addr 8 s) (\<lambda>bs s. Ok (Some (dec64 bs)) s))"

text \<open>The scan of \<open>fetchstr\<close>: \<open>n\<close> bytes from \<open>a\<close>. The result has the bytes before the zero.\<close>

fun fetchstr_scan :: "nat \<Rightarrow> addr_t \<Rightarrow> u8 list \<Rightarrow> 'z vm_st_scheme \<Rightarrow> (u8 list option, 'z vm_st_scheme) result" where
  "fetchstr_scan 0 a acc s = Ok None s"
| "fetchstr_scan (Suc n) a acc s =
     bindR (uread a 1 s) (\<lambda>bs s.
       if hd bs = 0 then Ok (Some acc) s else fetchstr_scan n (a + 1) (acc @ bs) s)"

text \<open>The string at \<open>addr\<close>, whose length is \<open>fetchstr\<close>'s result; None is its \<open>-1\<close>.\<close>

definition fetchstr :: "addr_t \<Rightarrow> 'z sched_st_scheme \<Rightarrow> (u8 list option, 'z sched_st_scheme) result" where
  "fetchstr addr s =
     bindR (myproc s) (\<lambda>p s.
       if addr < PGSIZE \<or> addr \<ge> p_sz p then Ok None s
       else fetchstr_scan (unat (p_sz p - addr)) addr [] s)"

definition fetcharg :: "nat \<Rightarrow> 'z sched_st_scheme \<Rightarrow> (u64, 'z sched_st_scheme) result" where
  "fetcharg n s =
     bindR (myproc s) (\<lambda>p s.
       if n = 0 then Ok (tf_rdi (p_tf p)) s
       else if n = 1 then Ok (tf_rsi (p_tf p)) s
       else if n = 2 then Ok (tf_rdx (p_tf p)) s
       else if n = 3 then Ok (tf_r10 (p_tf p)) s
       else if n = 4 then Ok (tf_r8 (p_tf p)) s
       else if n = 5 then Ok (tf_r9 (p_tf p)) s
       else Panic ''failed fetch'')"

definition argint :: "nat \<Rightarrow> 'z sched_st_scheme \<Rightarrow> (int, 'z sched_st_scheme) result" where
  "argint n s = bindR (fetcharg n s) (\<lambda>w s. Ok (sint (ucast w :: u32)) s)"

definition argaddr :: "nat \<Rightarrow> 'z sched_st_scheme \<Rightarrow> (u64, 'z sched_st_scheme) result" where
  "argaddr n s = fetcharg n s"

text \<open>
  \<open>argptr\<close> gives its return value, an unsigned \<open>addr_t\<close>, and the pointer it stores, if it stores one.
  The checks use the low 32 bits of the argument and 32-bit addition, as the casts do.
\<close>

definition argptr :: "nat \<Rightarrow> int \<Rightarrow> 'z sched_st_scheme \<Rightarrow> (u64 \<times> addr_t option, 'z sched_st_scheme) result" where
  "argptr n sz s =
     bindR (argaddr n s) (\<lambda>i s. bindR (myproc s) (\<lambda>p s.
       let lo = ucast i :: u32 in
       if sz < 0 \<or> ucast lo \<ge> p_sz p \<or> ucast (lo + word_of_int sz) > p_sz p then Ok (-1, None) s
       else Ok (0, Some i) s))"

text \<open>\<open>argstr\<close> keeps the pointer in an \<open>int\<close>, so it is truncated and sign-extended.\<close>

definition argstr :: "nat \<Rightarrow> 'z sched_st_scheme \<Rightarrow> (u8 list option, 'z sched_st_scheme) result" where
  "argstr n s = bindR (argint n s) (\<lambda>addr s. fetchstr (word_of_int addr) s)"

end
