(* ===== verification/Proc.thy ===== *)
theory Proc
  imports Syscall
begin

section \<open>Process life cycle (proc.c)\<close>

text \<open>
  Creation, growth, exit and reaping of processes, over the page tables, the file table and the
  inode cache. A routine runs for the process \<open>curproc\<close> until it returns, sleeps or gives the CPU
  to the scheduler for good. The initial user program is a parameter: the bytes that initcode.S
  assembles to.
\<close>

unbundle bit_operations_syntax

definition FL_IF :: u64 where [simp]: "FL_IF = 0x200"

text \<open>Bytes of a string literal.\<close>

definition cstr :: "string \<Rightarrow> u8 list" where
  "cstr xs = map (\<lambda>c. of_char c) xs"

text \<open>\<open>proc->name\<close>, 16 bytes, written by \<open>safestrcpy\<close>.\<close>

definition set_name :: "u8 list \<Rightarrow> proc \<Rightarrow> proc" where
  "set_name t p = p\<lparr>p_name := splice_at 0 (safestrcpy (reader_of t) 16) (p_name p)\<rparr>"

subsection \<open>Creation\<close>

definition allocproc :: "'z sched_st_scheme \<Rightarrow> (nat option, 'z sched_st_scheme) result" where
  "allocproc s =
     (case first_slot NPROC (\<lambda>i. p_state (ptable s i) = UNUSED) of
        None \<Rightarrow> Ok None s
      | Some i \<Rightarrow>
          (let s = (upd_proc i (\<lambda>p. p\<lparr>p_state := EMBRYO, p_pid := nextpid s\<rparr>) s)\<lparr>nextpid := nextpid s + 1\<rparr> in
           bindR (kalloc s) (\<lambda>k s.
             let s = upd_proc i (\<lambda>p. p\<lparr>p_kstack := k\<rparr>) s in
             if k = 0 then Ok None (upd_proc i (\<lambda>p. p\<lparr>p_state := UNUSED\<rparr>) s)
             else Ok (Some i) (upd_proc i (\<lambda>p. p\<lparr>p_context := zero_context\<lparr>c_rip := ForkretText\<rparr>\<rparr>) s))))"

definition userinit :: "('z file_st_scheme) devsw \<Rightarrow> u8 list \<Rightarrow> 'z file_st_scheme \<Rightarrow> (unit, 'z file_st_scheme) result" where
  "userinit dv initcode s =
     bindR (allocproc s) (\<lambda>np s.
       case np of None \<Rightarrow> Panic ''trap''
       | Some p \<Rightarrow>
         let s = s\<lparr>initproc := Some p\<rparr> in
         bindR (setupkvm s) (\<lambda>d s.
         let s = upd_proc p (\<lambda>q. q\<lparr>p_pgdir := d\<rparr>) s in
         if d = 0 then Panic ''userinit: out of memory?''
         else bindR (inituvm d initcode s) (\<lambda>_ s.
         let s = upd_proc p (\<lambda>q. q\<lparr>p_sz := PGSIZE * 2,
                   p_tf := zero_tf\<lparr>tf_r11 := FL_IF, tf_rsp := PGSIZE * 2, tf_rcx := PGSIZE\<rparr>\<rparr>) s;
             s = upd_proc p (set_name (cstr ''initcode'')) s in
         bindR (namei dv [SLASH] s) (\<lambda>ip s.
         Ok () (upd_proc p (\<lambda>q. q\<lparr>p_cwd := ip, p_state := RUNNABLE\<rparr>) s)))))"

definition growproc :: "int \<Rightarrow> 'z sched_st_scheme \<Rightarrow> (int, 'z sched_st_scheme) result" where
  "growproc n s =
     (case curproc s of
        None \<Rightarrow> Panic ''trap''
      | Some c \<Rightarrow>
          (let p = ptable s c; sz = p_sz p in
           bindR (if n > 0 then allocuvm (p_pgdir p) sz (sz + word_of_int n) s
                  else if n < 0 then deallocuvm (p_pgdir p) sz (sz + word_of_int n) s
                  else Ok sz s) (\<lambda>sz' s.
           if n \<noteq> 0 \<and> sz' = 0 then Ok (-1) s
           else bindR (switchuvm c (upd_proc c (\<lambda>q. q\<lparr>p_sz := sz'\<rparr>) s)) (\<lambda>_ s. Ok 0 s))))"

definition fork_file :: "nat \<Rightarrow> nat \<Rightarrow> nat \<Rightarrow> 'z file_st_scheme \<Rightarrow> (unit, 'z file_st_scheme) result" where
  "fork_file c np i s =
     (case p_ofile (ptable s c) i of
        None \<Rightarrow> Ok () s
      | Some f \<Rightarrow> bindR (filedup f s) (\<lambda>g s.
                   Ok () (upd_proc np (\<lambda>q. q\<lparr>p_ofile := (p_ofile q)(i := Some g)\<rparr>) s)))"

definition fork :: "'z file_st_scheme \<Rightarrow> (int, 'z file_st_scheme) result" where
  "fork s =
     bindR (allocproc s) (\<lambda>r s.
       case r of None \<Rightarrow> Ok (-1) s
       | Some np \<Rightarrow>
      (case curproc s of None \<Rightarrow> Panic ''trap''
       | Some c \<Rightarrow>
         bindR (copyuvm (p_pgdir (ptable s c)) (ucast (p_sz (ptable s c))) s) (\<lambda>d s.
         let s = upd_proc np (\<lambda>q. q\<lparr>p_pgdir := d\<rparr>) s in
         if d = 0 then bindR (kfree (p_kstack (ptable s np)) s) (\<lambda>_ s.
           Ok (-1) (upd_proc np (\<lambda>q. q\<lparr>p_kstack := 0, p_state := UNUSED\<rparr>) s))
         else let p = ptable s c;
                  s = upd_proc np (\<lambda>q. q\<lparr>p_sz := p_sz p, p_parent := Some c, p_tf := (p_tf p)\<lparr>tf_rax := 0\<rparr>\<rparr>) s in
         bindR (for_each (fork_file c np) [0..<NOFILE] s) (\<lambda>_ s.
         case p_cwd (ptable s c) of None \<Rightarrow> Panic ''trap''
         | Some w \<Rightarrow>
           let s = idup w s;
               s = upd_proc np (\<lambda>q. set_name (p_name (ptable s c)) (q\<lparr>p_cwd := Some w\<rparr>)) s;
               pid = p_pid (ptable s np)
           in Ok pid (upd_proc np (\<lambda>q. q\<lparr>p_state := RUNNABLE\<rparr>) s)))))"

subsection \<open>Exit and wait\<close>

definition exit_file :: "nat \<Rightarrow> nat \<Rightarrow> 'z file_st_scheme \<Rightarrow> (unit, 'z file_st_scheme) result" where
  "exit_file c fd s =
     (case p_ofile (ptable s c) fd of
        None \<Rightarrow> Ok () s
      | Some f \<Rightarrow> bindR (fileclose f s) (\<lambda>_ s.
                   Ok () (upd_proc c (\<lambda>q. q\<lparr>p_ofile := (p_ofile q)(fd := None)\<rparr>) s)))"

text \<open>One turn of the loop that hands the children of \<open>c\<close> to \<open>initproc\<close>.\<close>

definition reparent :: "nat \<Rightarrow> nat \<Rightarrow> 'z sched_st_scheme \<Rightarrow> 'z sched_st_scheme" where
  "reparent c i s =
     (if p_parent (ptable s i) = Some c
      then let s = upd_proc i (\<lambda>q. q\<lparr>p_parent := initproc s\<rparr>) s in
           (if p_state (ptable s i) = ZOMBIE
            then (case initproc s of Some j \<Rightarrow> wakeup1 (ProcChan j) s | None \<Rightarrow> s) else s)
      else s)"

text \<open>The part of \<open>exit\<close> under \<open>ptable.lock\<close>, up to the switch to the scheduler.\<close>

definition exit_locked :: "nat \<Rightarrow> 'z sched_st_scheme \<Rightarrow> 'z sched_st_scheme" where
  "exit_locked c s =
     (let s = (case p_parent (ptable s c) of Some j \<Rightarrow> wakeup1 (ProcChan j) s | None \<Rightarrow> s);
          s = fold (reparent c) [0..<NPROC] s
      in upd_proc c (\<lambda>q. q\<lparr>p_state := ZOMBIE\<rparr>) s)"

definition exit :: "'z file_st_scheme \<Rightarrow> ('a, 'z file_st_scheme) result" where
  "exit s =
     (case curproc s of
        None \<Rightarrow> Panic ''trap''
      | Some c \<Rightarrow>
          if initproc s = Some c then Panic ''init exiting''
          else bindR (for_each (exit_file c) [0..<NOFILE] s) (\<lambda>_ s.
               bindR (begin_op s) (\<lambda>_ s.
               case p_cwd (ptable s c) of None \<Rightarrow> Panic ''trap''
               | Some w \<Rightarrow>
                 bindR (iput w s) (\<lambda>_ s.
                 bindR (end_op s) (\<lambda>_ s.
                 Exits (exit_locked c (upd_proc c (\<lambda>q. q\<lparr>p_cwd := None\<rparr>) s)))))))"

text \<open>\<open>wait\<close> frees the first zombie child it meets.\<close>

definition reap :: "nat \<Rightarrow> 'z sched_st_scheme \<Rightarrow> (int, 'z sched_st_scheme) result" where
  "reap i s =
     (let pid = p_pid (ptable s i) in
      bindR (kfree (p_kstack (ptable s i)) s) (\<lambda>_ s.
      let s = upd_proc i (\<lambda>q. q\<lparr>p_kstack := 0\<rparr>) s in
      bindR (freevm (p_pgdir (ptable s i)) s) (\<lambda>_ s.
      Ok pid (upd_proc i (\<lambda>q. q\<lparr>p_pid := 0, p_parent := None, p_name := (p_name q)[0 := 0],
                                p_killed := False, p_state := UNUSED\<rparr>) s))))"

definition wait :: "'z sched_st_scheme \<Rightarrow> (int, 'z sched_st_scheme) result" where
  "wait s =
     (case curproc s of
        None \<Rightarrow> Panic ''trap''
      | Some c \<Rightarrow>
          (case first_slot NPROC (\<lambda>i. p_parent (ptable s i) = Some c \<and> p_state (ptable s i) = ZOMBIE) of
             Some i \<Rightarrow> reap i s
           | None \<Rightarrow>
               if first_slot NPROC (\<lambda>i. p_parent (ptable s i) = Some c) = None \<or> p_killed (ptable s c)
               then Ok (-1) s
               else sleep (ProcChan c) s))"

text \<open>
  \<open>forkret\<close>, where a new process's first turn starts; \<open>first\<close> is its static variable, and the
  result has its new value.
\<close>

definition forkret :: "bool \<Rightarrow> 'z fs_st_scheme \<Rightarrow> (bool, 'z fs_st_scheme) result" where
  "forkret first s =
     (if first
      then bindR (iinit ROOTDEV s) (\<lambda>_ s. bindR (initlog ROOTDEV s) (\<lambda>_ s. Ok False s))
      else Ok False s)"

end
