(* ===== verification/Exec.thy ===== *)
theory Exec
  imports Proc
begin

section \<open>Loading programs (exec.c, elf.h, loaduvm of vm.c)\<close>

text \<open>
  The ELF headers are decoded from the bytes \<open>readi\<close> returns, at the offsets the C structures have.
  The argument strings are byte lists without their zero. \<open>exec\<close> is split where the code has its
  loops; \<open>exec_bad\<close> is the code at the label \<open>bad\<close>.
\<close>

unbundle bit_operations_syntax

definition ELF_MAGIC :: u32 where [simp]: "ELF_MAGIC = 0x464C457F"
definition ELF_PROG_LOAD :: u32 where [simp]: "ELF_PROG_LOAD = 1"

record elfhdr =
  e_magic :: u32
  e_entry :: u64
  e_phoff :: u64
  e_phnum :: u16

record proghdr =
  ph_type :: u32
  ph_flags :: u32
  ph_off :: u64
  ph_vaddr :: u64
  ph_paddr :: u64
  ph_filesz :: u64
  ph_memsz :: u64
  ph_align :: u64

definition ELFHDR_SIZE :: nat where [simp]: "ELFHDR_SIZE = 64"
definition PROGHDR_SIZE :: nat where [simp]: "PROGHDR_SIZE = 56"

definition dec_elfhdr :: "u8 list \<Rightarrow> elfhdr" where
  "dec_elfhdr bs = \<lparr>e_magic = dec32 (slice 0 4 bs), e_entry = dec64 (slice 24 8 bs),
     e_phoff = dec64 (slice 32 8 bs), e_phnum = dec16 (slice 56 2 bs)\<rparr>"

definition dec_proghdr :: "u8 list \<Rightarrow> proghdr" where
  "dec_proghdr bs = \<lparr>ph_type = dec32 (slice 0 4 bs), ph_flags = dec32 (slice 4 4 bs), ph_off = dec64 (slice 8 8 bs),
     ph_vaddr = dec64 (slice 16 8 bs), ph_paddr = dec64 (slice 24 8 bs), ph_filesz = dec64 (slice 32 8 bs),
     ph_memsz = dec64 (slice 40 8 bs), ph_align = dec64 (slice 48 8 bs)\<rparr>"

definition enc64 :: "u64 \<Rightarrow> u8 list" where
  "enc64 w = enc32 (ucast w) @ enc32 (ucast (drop_bit 32 w))"

text \<open>
  The loop of \<open>loaduvm\<close>, over the page offsets. \<open>loaduvm\<close> does not test \<open>PTE_P\<close>: an absent page of
  an existing table is physical page 0.
\<close>

fun loaduvm_pages :: "('z fs_st_scheme) devsw \<Rightarrow> addr_t \<Rightarrow> addr_t \<Rightarrow> nat \<Rightarrow> u32 \<Rightarrow> u32 \<Rightarrow> u32 list \<Rightarrow>
    'z fs_st_scheme \<Rightarrow> (int, 'z fs_st_scheme) result" where
  "loaduvm_pages dv pgdir addr ip offset sz [] s = Ok 0 s"
| "loaduvm_pages dv pgdir addr ip offset sz (i # is) s =
     bindR (walkpgdir pgdir (addr + ucast i) False s) (\<lambda>pte s.
       if pte = 0 then Panic ''loaduvm: address should exist''
       else let pa = PTE_ADDR (load64 (mem s) pte);
                n = (if sz - i < 4096 then sz - i else 4096) in
       bindR (readi dv ip (offset + i) n s) (\<lambda>(r, bs) s.
         let s = s\<lparr>mem := poke (mem s) (P2V pa) bs\<rparr> in
         if r \<noteq> int (unat n) then Ok (-1) s else loaduvm_pages dv pgdir addr ip offset sz is s))"

definition loaduvm :: "('z fs_st_scheme) devsw \<Rightarrow> addr_t \<Rightarrow> addr_t \<Rightarrow> nat \<Rightarrow> u32 \<Rightarrow> u32 \<Rightarrow>
    'z fs_st_scheme \<Rightarrow> (int, 'z fs_st_scheme) result" where
  "loaduvm dv pgdir addr ip offset sz s =
     (if addr mod PGSIZE \<noteq> 0 then Panic ''loaduvm: addr must be page aligned''
      else loaduvm_pages dv pgdir addr ip offset sz (map (\<lambda>k. of_nat (k * 4096)) [0..<(unat sz + 4095) div 4096]) s)"

text \<open>The code at \<open>bad\<close>; \<open>ip\<close> is None once the file has been released.\<close>

definition exec_bad :: "addr_t \<Rightarrow> nat option \<Rightarrow> 'z fs_st_scheme \<Rightarrow> (int, 'z fs_st_scheme) result" where
  "exec_bad pgdir ip s =
     bindR (if pgdir \<noteq> 0 then freevm pgdir s else Ok () s) (\<lambda>_ s.
     bindR (case ip of None \<Rightarrow> Ok () s | Some i \<Rightarrow> bindR (iunlockput i s) (\<lambda>_ s. end_op s)) (\<lambda>_ s.
     Ok (-1) s))"

text \<open>The loop over the program headers; None is a jump to \<open>bad\<close>.\<close>

fun exec_load :: "('z fs_st_scheme) devsw \<Rightarrow> nat \<Rightarrow> addr_t \<Rightarrow> nat \<Rightarrow> u32 \<Rightarrow> u64 \<Rightarrow> 'z fs_st_scheme \<Rightarrow>
    (u64 option, 'z fs_st_scheme) result" where
  "exec_load dv ip pgdir 0 off sz s = Ok (Some sz) s"
| "exec_load dv ip pgdir (Suc k) off sz s =
     bindR (readi dv ip off (of_nat PROGHDR_SIZE) s) (\<lambda>(r, bs) s.
       let ph = dec_proghdr bs; off' = off + of_nat PROGHDR_SIZE in
       if r \<noteq> int PROGHDR_SIZE then Ok None s
       else if ph_type ph \<noteq> ELF_PROG_LOAD then exec_load dv ip pgdir k off' sz s
       else if ph_memsz ph < ph_filesz ph then Ok None s
       else if ph_vaddr ph + ph_memsz ph < ph_vaddr ph then Ok None s
       else bindR (allocuvm pgdir sz (ph_vaddr ph + ph_memsz ph) s) (\<lambda>sz' s.
         if sz' = 0 then Ok None s
         else if ph_vaddr ph mod PGSIZE \<noteq> 0 then Ok None s
         else bindR (loaduvm dv pgdir (ph_vaddr ph) ip (ucast (ph_off ph)) (ucast (ph_filesz ph)) s) (\<lambda>r s.
           if r < 0 then Ok None s else exec_load dv ip pgdir k off' sz' s)))"

text \<open>
  The loop that pushes the argument strings. The result has the stack pointer and the pointers
  to the strings, first argument first.
\<close>

fun exec_args :: "addr_t \<Rightarrow> nat \<Rightarrow> u8 list list \<Rightarrow> u64 \<Rightarrow> u64 list \<Rightarrow> 'z kmem_st_scheme \<Rightarrow>
    ((u64 \<times> u64 list) option, 'z kmem_st_scheme) result" where
  "exec_args pgdir argc [] sp ptrs s = Ok (Some (sp, ptrs)) s"
| "exec_args pgdir argc (a # as) sp ptrs s =
     (if argc \<ge> MAXARG then Ok None s
      else let sp' = (sp - of_nat (length a + 1)) AND NOT 7 in
      bindR (copyout pgdir sp' (a @ [0]) s) (\<lambda>r s.
        if r < 0 then Ok None s else exec_args pgdir (Suc argc) as sp' (ptrs @ [sp']) s))"

text \<open>The last element of a path, as the program's name.\<close>

definition base_name :: "u8 list \<Rightarrow> u8 list" where
  "base_name path = rev (takeWhile (\<lambda>c. c \<noteq> SLASH) (rev path))"

text \<open>The part of \<open>exec\<close> after the file has been released.\<close>

definition exec_stack :: "u8 list \<Rightarrow> u8 list list \<Rightarrow> elfhdr \<Rightarrow> addr_t \<Rightarrow> u64 \<Rightarrow> nat \<Rightarrow> addr_t \<Rightarrow>
    'z fs_st_scheme \<Rightarrow> (int, 'z fs_st_scheme) result" where
  "exec_stack path argv elf pgdir sz c oldpgdir s =
     (let sz = PGROUNDUP sz in
      bindR (allocuvm pgdir sz (sz + 2 * PGSIZE) s) (\<lambda>sz s.
      if sz = 0 then exec_bad pgdir None s
      else bindR (clearpteu pgdir (sz - 2 * PGSIZE) s) (\<lambda>_ s.
      bindR (exec_args pgdir 0 argv sz [] s) (\<lambda>r s.
      case r of None \<Rightarrow> exec_bad pgdir None s
      | Some (sp, ptrs) \<Rightarrow>
        let argc = of_nat (length argv);
            ustack = 0xFFFFFFFFFFFFFFFF # ptrs @ [0];
            s = upd_proc c (\<lambda>p. p\<lparr>p_tf := (p_tf p)\<lparr>tf_rdi := argc, tf_rsi := sp - (argc + 1) * 8\<rparr>\<rparr>) s;
            sp = sp - (1 + argc + 1) * 8 in
        bindR (copyout pgdir sp (concat (map enc64 ustack)) s) (\<lambda>r s.
        if r < 0 then exec_bad pgdir None s
        else let s = upd_proc c (\<lambda>p. set_name (base_name path) p) s;
                 s = upd_proc c (\<lambda>p. p\<lparr>p_pgdir := pgdir, p_sz := sz,
                       p_tf := (p_tf p)\<lparr>tf_rip := e_entry elf, tf_rcx := e_entry elf, tf_rsp := sp\<rparr>\<rparr>) s in
             bindR (switchuvm c s) (\<lambda>_ s. bindR (freevm oldpgdir s) (\<lambda>_ s. Ok 0 s)))))))"

definition exec :: "('z fs_st_scheme) devsw \<Rightarrow> u8 list \<Rightarrow> u8 list list \<Rightarrow> 'z fs_st_scheme \<Rightarrow> (int, 'z fs_st_scheme) result" where
  "exec dv path argv s =
     (case curproc s of None \<Rightarrow> Panic ''trap''
      | Some c \<Rightarrow>
        let oldpgdir = p_pgdir (ptable s c) in
        bindR (begin_op s) (\<lambda>_ s.
        bindR (namei dv path s) (\<lambda>r s.
        case r of None \<Rightarrow> bindR (end_op s) (\<lambda>_ s. Ok (-1) s)
        | Some ip \<Rightarrow>
          bindR (ilock ip s) (\<lambda>_ s.
          bindR (readi dv ip 0 (of_nat ELFHDR_SIZE) s) (\<lambda>(r, bs) s.
          let elf = dec_elfhdr bs in
          if r \<noteq> int ELFHDR_SIZE then exec_bad 0 (Some ip) s
          else if e_magic elf \<noteq> ELF_MAGIC then exec_bad 0 (Some ip) s
          else bindR (setupkvm s) (\<lambda>pgdir s.
          if pgdir = 0 then exec_bad 0 (Some ip) s
          else bindR (exec_load dv ip pgdir (unat (e_phnum elf)) (ucast (e_phoff elf)) PGSIZE s) (\<lambda>r s.
          case r of None \<Rightarrow> exec_bad pgdir (Some ip) s
          | Some sz \<Rightarrow>
            bindR (iunlockput ip s) (\<lambda>_ s.
            bindR (end_op s) (\<lambda>_ s.
            exec_stack path argv elf pgdir sz c oldpgdir s)))))))))"

end
