(* ===== verification/Sysfile.thy ===== *)
theory Sysfile
  imports Exec
begin

section \<open>File system calls (sysfile.c)\<close>

text \<open>
  Each system call as the code has it: arguments from the trap frame, transactions around the
  file-system work, every error path with the locks and references it drops. Results of type
  \<open>int\<close> are integers. \<open>argptr\<close> gives an unsigned value, so the tests \<open>argptr(...) < 0\<close> never hold; a
  call whose \<open>argptr\<close> stored no pointer goes on with an uninitialised one, which is \<open>Stuck\<close>. The
  buffer \<open>name[DIRSIZ]\<close> starts as zeros: only the bytes \<open>skipelem\<close> writes are read.
\<close>

unbundle bit_operations_syntax

subsection \<open>Descriptors\<close>

definition argfd :: "nat \<Rightarrow> 'z sched_st_scheme \<Rightarrow> ((nat \<times> nat) option, 'z sched_st_scheme) result" where
  "argfd n s =
     bindR (argint n s) (\<lambda>fd s. bindR (myproc s) (\<lambda>p s.
       if fd < 0 \<or> fd \<ge> int NOFILE then Ok None s
       else Ok (map_option (\<lambda>f. (nat fd, f)) (p_ofile p (nat fd))) s))"

definition set_ofile :: "nat \<Rightarrow> nat \<Rightarrow> nat option \<Rightarrow> 'z sched_st_scheme \<Rightarrow> 'z sched_st_scheme" where
  "set_ofile c fd v s = upd_proc c (\<lambda>p. p\<lparr>p_ofile := (p_ofile p)(fd := v)\<rparr>) s"

definition fdalloc :: "nat \<Rightarrow> 'z sched_st_scheme \<Rightarrow> (int, 'z sched_st_scheme) result" where
  "fdalloc f s =
     (case curproc s of
        None \<Rightarrow> Panic ''trap''
      | Some c \<Rightarrow>
          (case first_slot NOFILE (\<lambda>fd. p_ofile (ptable s c) fd = None) of
             None \<Rightarrow> Ok (-1) s
           | Some fd \<Rightarrow> Ok (int fd) (set_ofile c fd (Some f) s)))"

definition sys_dup :: "'z file_st_scheme \<Rightarrow> (int, 'z file_st_scheme) result" where
  "sys_dup s =
     bindR (argfd 0 s) (\<lambda>a s.
       case a of None \<Rightarrow> Ok (-1) s
       | Some (_, f) \<Rightarrow>
         bindR (fdalloc f s) (\<lambda>fd s.
           if fd < 0 then Ok (-1) s else bindR (filedup f s) (\<lambda>_ s. Ok fd s)))"

text \<open>The pointer \<open>argptr\<close> stored.\<close>

definition stored :: "u64 \<times> addr_t option \<Rightarrow> 's \<Rightarrow> (addr_t, 's) result" where
  "stored r s = (case snd r of Some p \<Rightarrow> Ok p s | None \<Rightarrow> Stuck)"

definition sys_read :: "('z file_st_scheme) devsw \<Rightarrow> 'z file_st_scheme \<Rightarrow> (int, 'z file_st_scheme) result" where
  "sys_read dv s =
     bindR (argfd 0 s) (\<lambda>a s.
       case a of None \<Rightarrow> Ok (-1) s
       | Some (_, f) \<Rightarrow>
         bindR (argint 2 s) (\<lambda>n s. bindR (argptr 1 n s) (\<lambda>q s. bindR (stored q s) (\<lambda>p s.
         bindR (fileread dv f n s) (\<lambda>(r, bs) s.
         bindR (uwrite p bs s) (\<lambda>_ s. Ok r s))))))"

text \<open>A file that is not writable is refused before the buffer is read.\<close>

definition sys_write :: "('z file_st_scheme) devsw \<Rightarrow> 'z file_st_scheme \<Rightarrow> (int, 'z file_st_scheme) result" where
  "sys_write dv s =
     bindR (argfd 0 s) (\<lambda>a s.
       case a of None \<Rightarrow> Ok (-1) s
       | Some (_, f) \<Rightarrow>
         bindR (argint 2 s) (\<lambda>n s. bindR (argptr 1 n s) (\<lambda>q s. bindR (stored q s) (\<lambda>p s.
         bindR (if f_writable (ftable s f) then uread p (nat n) s else Ok [] s) (\<lambda>bs s.
         filewrite dv f bs n s)))))"

definition sys_close :: "'z file_st_scheme \<Rightarrow> (int, 'z file_st_scheme) result" where
  "sys_close s =
     bindR (argfd 0 s) (\<lambda>a s.
       case a of None \<Rightarrow> Ok (-1) s
       | Some (fd, f) \<Rightarrow>
         (case curproc s of None \<Rightarrow> Panic ''trap''
          | Some c \<Rightarrow> bindR (fileclose f (set_ofile c fd None s)) (\<lambda>_ s. Ok 0 s)))"

text \<open>\<open>stati\<close> through a user pointer: the fields at their offsets in \<open>struct stat\<close>.\<close>

definition ustat :: "addr_t \<Rightarrow> stat \<Rightarrow> 'z vm_st_scheme \<Rightarrow> (unit, 'z vm_st_scheme) result" where
  "ustat p st s =
     bindR (uwrite (p + 4) (enc32 (of_nat (st_dev st))) s) (\<lambda>_ s.
     bindR (uwrite (p + 8) (enc32 (of_nat (st_ino st))) s) (\<lambda>_ s.
     bindR (uwrite p (enc16 (st_type st)) s) (\<lambda>_ s.
     bindR (uwrite (p + 12) (enc16 (st_nlink st)) s) (\<lambda>_ s.
     uwrite (p + 16) (enc32 (st_size st)) s))))"

definition sys_fstat :: "'z file_st_scheme \<Rightarrow> (int, 'z file_st_scheme) result" where
  "sys_fstat s =
     bindR (argfd 0 s) (\<lambda>a s.
       case a of None \<Rightarrow> Ok (-1) s
       | Some (_, f) \<Rightarrow>
         bindR (argptr 1 20 s) (\<lambda>q s. bindR (stored q s) (\<lambda>p s.
         bindR (filestat f s) (\<lambda>r s.
         case r of None \<Rightarrow> Ok (-1) s | Some st \<Rightarrow> bindR (ustat p st s) (\<lambda>_ s. Ok 0 s)))))"

subsection \<open>Links\<close>

fun isdirempty_from :: "('z fs_st_scheme) devsw \<Rightarrow> nat \<Rightarrow> nat list \<Rightarrow> 'z fs_st_scheme \<Rightarrow> (bool, 'z fs_st_scheme) result" where
  "isdirempty_from dv dp [] s = Ok True s"
| "isdirempty_from dv dp (off # offs) s =
     bindR (read_dirent dv ''isdirempty: readi'' dp off s) (\<lambda>de s.
       if de_inum de \<noteq> 0 then Ok False s else isdirempty_from dv dp offs s)"

definition isdirempty :: "('z fs_st_scheme) devsw \<Rightarrow> nat \<Rightarrow> 'z fs_st_scheme \<Rightarrow> (bool, 'z fs_st_scheme) result" where
  "isdirempty dv dp s = isdirempty_from dv dp (drop 2 (dir_offs (i_size (inodes s dp)))) s"

definition fail_op :: "'z log_st_scheme \<Rightarrow> (int, 'z log_st_scheme) result" where
  "fail_op s = bindR (end_op s) (\<lambda>_ s. Ok (-1) s)"

text \<open>The link count of an inode changed by \<open>k\<close>, written to the disk inode.\<close>

definition add_nlink :: "u16 \<Rightarrow> nat \<Rightarrow> 'z fs_st_scheme \<Rightarrow> (unit, 'z fs_st_scheme) result" where
  "add_nlink k ip s = iupdate ip (upd_inode ip (\<lambda>i. i\<lparr>i_nlink := i_nlink i + k\<rparr>) s)"

text \<open>The code at \<open>bad\<close> in \<open>sys_link\<close>.\<close>

definition link_bad :: "nat \<Rightarrow> 'z fs_st_scheme \<Rightarrow> (int, 'z fs_st_scheme) result" where
  "link_bad ip s =
     bindR (ilock ip s) (\<lambda>_ s.
     bindR (add_nlink (-1) ip s) (\<lambda>_ s.
     bindR (iunlockput ip s) (\<lambda>_ s. fail_op s)))"

definition sys_link :: "('z fs_st_scheme) devsw \<Rightarrow> 'z fs_st_scheme \<Rightarrow> (int, 'z fs_st_scheme) result" where
  "sys_link dv s =
     bindR (argstr 0 s) (\<lambda>old s. if old = None then Ok (-1) s else
     bindR (argstr 1 s) (\<lambda>new s. if new = None then Ok (-1) s else
     bindR (begin_op s) (\<lambda>_ s.
     bindR (namei dv (the old) s) (\<lambda>r s.
     case r of None \<Rightarrow> fail_op s
     | Some ip \<Rightarrow>
       bindR (ilock ip s) (\<lambda>_ s.
       if i_type (inodes s ip) = T_DIR then bindR (iunlockput ip s) (\<lambda>_ s. fail_op s)
       else bindR (add_nlink 1 ip s) (\<lambda>_ s.
       bindR (iunlock ip s) (\<lambda>_ s.
       bindR (nameiparent dv (the new) (replicate DIRSIZ 0) s) (\<lambda>(r, name) s.
       case r of None \<Rightarrow> link_bad ip s
       | Some dp \<Rightarrow>
         bindR (ilock dp s) (\<lambda>_ s.
         bindR (if i_dev (inodes s dp) \<noteq> i_dev (inodes s ip) then Ok (-1) s
                else dirlink dv dp name (i_inum (inodes s ip)) s) (\<lambda>r s.
         bindR (iunlockput dp s) (\<lambda>_ s.
         if r < 0 then link_bad ip s
         else bindR (iput ip s) (\<lambda>_ s. bindR (end_op s) (\<lambda>_ s. Ok 0 s)))))))))))))"

text \<open>The code at \<open>bad\<close> in \<open>sys_unlink\<close>.\<close>

definition unlink_bad :: "nat \<Rightarrow> 'z fs_st_scheme \<Rightarrow> (int, 'z fs_st_scheme) result" where
  "unlink_bad dp s = bindR (iunlockput dp s) (\<lambda>_ s. fail_op s)"

text \<open>\<open>sys_unlink\<close> from the point where the entry at \<open>off\<close> of \<open>dp\<close> is to be cleared.\<close>

definition unlink_entry :: "('z fs_st_scheme) devsw \<Rightarrow> nat \<Rightarrow> nat \<Rightarrow> nat \<Rightarrow> 'z fs_st_scheme \<Rightarrow> (int, 'z fs_st_scheme) result" where
  "unlink_entry dv dp ip off s =
     bindR (writei dv dp (replicate DIRENT_SIZE 0) (of_nat off) s) (\<lambda>r s.
     if r \<noteq> int DIRENT_SIZE then Panic ''unlink: writei''
     else bindR (if i_type (inodes s ip) = T_DIR then add_nlink (-1) dp s else Ok () s) (\<lambda>_ s.
     bindR (iunlockput dp s) (\<lambda>_ s.
     bindR (add_nlink (-1) ip s) (\<lambda>_ s.
     bindR (iunlockput ip s) (\<lambda>_ s.
     bindR (end_op s) (\<lambda>_ s. Ok 0 s))))))"

definition sys_unlink :: "('z fs_st_scheme) devsw \<Rightarrow> 'z fs_st_scheme \<Rightarrow> (int, 'z fs_st_scheme) result" where
  "sys_unlink dv s =
     bindR (argstr 0 s) (\<lambda>path s. if path = None then Ok (-1) s else
     bindR (begin_op s) (\<lambda>_ s.
     bindR (nameiparent dv (the path) (replicate DIRSIZ 0) s) (\<lambda>(r, name) s.
     case r of None \<Rightarrow> fail_op s
     | Some dp \<Rightarrow>
       bindR (ilock dp s) (\<lambda>_ s.
       if namecmp name (cstr ''.'') = 0 \<or> namecmp name (cstr ''..'') = 0 then unlink_bad dp s
       else bindR (dirlookup dv dp name s) (\<lambda>r s.
       case r of None \<Rightarrow> unlink_bad dp s
       | Some (ip, off) \<Rightarrow>
         bindR (ilock ip s) (\<lambda>_ s.
         if sint (i_nlink (inodes s ip)) < 1 then Panic ''unlink: nlink < 1''
         else bindR (if i_type (inodes s ip) = T_DIR then isdirempty dv ip s else Ok True s) (\<lambda>e s.
         if \<not> e then bindR (iunlockput ip s) (\<lambda>_ s. unlink_bad dp s)
         else unlink_entry dv dp ip off s)))))))"

subsection \<open>Creating and opening\<close>

text \<open>\<open>create\<close> when the name is free: the new inode, its entries, and its entry in \<open>dp\<close>.\<close>

definition create_new :: "('z fs_st_scheme) devsw \<Rightarrow> nat \<Rightarrow> u8 list \<Rightarrow> u16 \<Rightarrow> u16 \<Rightarrow> u16 \<Rightarrow> 'z fs_st_scheme \<Rightarrow>
    (nat option, 'z fs_st_scheme) result" where
  "create_new dv dp name ty major minor s =
     bindR (ialloc (i_dev (inodes s dp)) ty s) (\<lambda>ip s.
     bindR (ilock ip s) (\<lambda>_ s.
     bindR (iupdate ip (upd_inode ip (\<lambda>i. i\<lparr>i_major := major, i_minor := minor, i_nlink := 1\<rparr>) s)) (\<lambda>_ s.
     bindR (if ty = T_DIR
            then bindR (add_nlink 1 dp s) (\<lambda>_ s.
                 bindR (dirlink dv ip (cstr ''.'') (i_inum (inodes s ip)) s) (\<lambda>r s.
                 if r < 0 then Panic ''create dots''
                 else bindR (dirlink dv ip (cstr ''..'') (i_inum (inodes s dp)) s) (\<lambda>r s.
                 if r < 0 then Panic ''create dots'' else Ok () s)))
            else Ok () s) (\<lambda>_ s.
     bindR (dirlink dv dp name (i_inum (inodes s ip)) s) (\<lambda>r s.
     if r < 0 then Panic ''create: dirlink''
     else bindR (iunlockput dp s) (\<lambda>_ s. Ok (Some ip) s))))))"

definition create :: "('z fs_st_scheme) devsw \<Rightarrow> u8 list \<Rightarrow> u16 \<Rightarrow> u16 \<Rightarrow> u16 \<Rightarrow> 'z fs_st_scheme \<Rightarrow>
    (nat option, 'z fs_st_scheme) result" where
  "create dv path ty major minor s =
     bindR (nameiparent dv path (replicate DIRSIZ 0) s) (\<lambda>(r, name) s.
     case r of None \<Rightarrow> Ok None s
     | Some dp \<Rightarrow>
       bindR (ilock dp s) (\<lambda>_ s.
       bindR (dirlookup dv dp name s) (\<lambda>r s.
       case r of
         Some (ip, off) \<Rightarrow>
           bindR (iunlockput dp s) (\<lambda>_ s.
           bindR (ilock ip s) (\<lambda>_ s.
           if ty = T_FILE \<and> i_type (inodes s ip) = T_FILE then Ok (Some ip) s
           else bindR (iunlockput ip s) (\<lambda>_ s. Ok None s)))
       | None \<Rightarrow> create_new dv dp name ty major minor s)))"

text \<open>\<open>sys_open\<close> up to the locked inode; None when the call has already failed with -1.\<close>

definition open_inode :: "('z fs_st_scheme) devsw \<Rightarrow> u8 list \<Rightarrow> u32 \<Rightarrow> 'z fs_st_scheme \<Rightarrow> (nat option, 'z fs_st_scheme) result" where
  "open_inode dv path omode s =
     (if omode AND O_CREATE \<noteq> 0
      then bindR (create dv path T_FILE 0 0 s) (\<lambda>r s.
           if r = None then bindR (end_op s) (\<lambda>_ s. Ok None s) else Ok r s)
      else bindR (namei dv path s) (\<lambda>r s.
           case r of None \<Rightarrow> bindR (end_op s) (\<lambda>_ s. Ok None s)
           | Some ip \<Rightarrow>
             bindR (ilock ip s) (\<lambda>_ s.
             if i_type (inodes s ip) = T_DIR \<and> omode \<noteq> O_RDONLY
             then bindR (iunlockput ip s) (\<lambda>_ s. bindR (end_op s) (\<lambda>_ s. Ok None s))
             else Ok (Some ip) s)))"

text \<open>\<open>filealloc\<close> and \<open>fdalloc\<close>; on failure an allocated file is closed again.\<close>

definition open_fd :: "'z file_st_scheme \<Rightarrow> ((nat \<times> int) option, 'z file_st_scheme) result" where
  "open_fd s =
     (let (r, s) = filealloc s in
      case r of None \<Rightarrow> Ok None s
      | Some f \<Rightarrow>
        bindR (fdalloc f s) (\<lambda>fd s.
        if fd < 0 then bindR (fileclose f s) (\<lambda>_ s. Ok None s) else Ok (Some (f, fd)) s))"

definition sys_open :: "('z file_st_scheme) devsw \<Rightarrow> 'z file_st_scheme \<Rightarrow> (int, 'z file_st_scheme) result" where
  "sys_open dv s =
     bindR (argstr 0 s) (\<lambda>path s. if path = None then Ok (-1) s else
     bindR (argint 1 s) (\<lambda>m s. let omode = word_of_int m :: u32 in
     bindR (begin_op s) (\<lambda>_ s.
     bindR (open_inode dv (the path) omode s) (\<lambda>r s.
     case r of None \<Rightarrow> Ok (-1) s
     | Some ip \<Rightarrow>
       bindR (open_fd s) (\<lambda>r s.
       case r of None \<Rightarrow> bindR (iunlockput ip s) (\<lambda>_ s. fail_op s)
       | Some (f, fd) \<Rightarrow>
         bindR (iunlock ip s) (\<lambda>_ s.
         bindR (end_op s) (\<lambda>_ s.
         Ok fd (upd_file f (\<lambda>x. x\<lparr>f_type := FD_INODE, f_ip := ip, f_off := 0,
                 f_readable := (omode AND O_WRONLY = 0),
                 f_writable := (omode AND O_WRONLY \<noteq> 0 \<or> omode AND O_RDWR \<noteq> 0)\<rparr>) s))))))))"

text \<open>\<open>sys_mkdir\<close> and \<open>sys_mknod\<close> after the transaction has begun.\<close>

definition make_node :: "('z fs_st_scheme) devsw \<Rightarrow> u8 list option \<Rightarrow> u16 \<Rightarrow> u16 \<Rightarrow> u16 \<Rightarrow> 'z fs_st_scheme \<Rightarrow> (int, 'z fs_st_scheme) result" where
  "make_node dv path ty major minor s =
     (case path of None \<Rightarrow> fail_op s
      | Some path \<Rightarrow>
        bindR (create dv path ty major minor s) (\<lambda>r s.
        case r of None \<Rightarrow> fail_op s
        | Some ip \<Rightarrow> bindR (iunlockput ip s) (\<lambda>_ s. bindR (end_op s) (\<lambda>_ s. Ok 0 s))))"

definition sys_mkdir :: "('z fs_st_scheme) devsw \<Rightarrow> 'z fs_st_scheme \<Rightarrow> (int, 'z fs_st_scheme) result" where
  "sys_mkdir dv s =
     bindR (begin_op s) (\<lambda>_ s. bindR (argstr 0 s) (\<lambda>path s. make_node dv path T_DIR 0 0 s))"

definition sys_mknod :: "('z fs_st_scheme) devsw \<Rightarrow> 'z fs_st_scheme \<Rightarrow> (int, 'z fs_st_scheme) result" where
  "sys_mknod dv s =
     bindR (begin_op s) (\<lambda>_ s. bindR (argstr 0 s) (\<lambda>path s.
     if path = None then fail_op s
     else bindR (argint 1 s) (\<lambda>major s. bindR (argint 2 s) (\<lambda>minor s.
     make_node dv path T_DEV (word_of_int major) (word_of_int minor) s))))"

definition sys_chdir :: "('z fs_st_scheme) devsw \<Rightarrow> 'z fs_st_scheme \<Rightarrow> (int, 'z fs_st_scheme) result" where
  "sys_chdir dv s =
     bindR (begin_op s) (\<lambda>_ s. bindR (argstr 0 s) (\<lambda>path s.
     if path = None then fail_op s
     else bindR (namei dv (the path) s) (\<lambda>r s.
     case r of None \<Rightarrow> fail_op s
     | Some ip \<Rightarrow>
       bindR (ilock ip s) (\<lambda>_ s.
       if i_type (inodes s ip) \<noteq> T_DIR then bindR (iunlockput ip s) (\<lambda>_ s. fail_op s)
       else bindR (iunlock ip s) (\<lambda>_ s.
       case curproc s of None \<Rightarrow> Panic ''trap''
       | Some c \<Rightarrow>
        (case p_cwd (ptable s c) of None \<Rightarrow> Panic ''trap''
         | Some w \<Rightarrow>
           bindR (iput w s) (\<lambda>_ s.
           bindR (end_op s) (\<lambda>_ s.
           Ok 0 (upd_proc c (\<lambda>p. p\<lparr>p_cwd := Some ip\<rparr>) s)))))))))"

subsection \<open>exec and pipe\<close>

text \<open>The loop over \<open>uargv\<close>, from index \<open>i\<close> with \<open>k\<close> entries of \<open>argv\<close> left; None is -1.\<close>

fun fetch_argv :: "nat \<Rightarrow> nat \<Rightarrow> u64 \<Rightarrow> u8 list list \<Rightarrow> 'z sched_st_scheme \<Rightarrow> (u8 list list option, 'z sched_st_scheme) result" where
  "fetch_argv 0 i uargv acc s = Ok None s"
| "fetch_argv (Suc k) i uargv acc s =
     bindR (fetchaddr (uargv + 8 * of_nat i) s) (\<lambda>uarg s.
       case uarg of None \<Rightarrow> Ok None s
       | Some a \<Rightarrow>
         if a = 0 then Ok (Some acc) s
         else bindR (fetchstr a s) (\<lambda>str s.
           case str of None \<Rightarrow> Ok None s
           | Some str \<Rightarrow> fetch_argv k (Suc i) uargv (acc @ [str]) s))"

definition sys_exec :: "('z fs_st_scheme) devsw \<Rightarrow> 'z fs_st_scheme \<Rightarrow> (int, 'z fs_st_scheme) result" where
  "sys_exec dv s =
     bindR (argstr 0 s) (\<lambda>path s. if path = None then Ok (-1) s else
     bindR (argaddr 1 s) (\<lambda>uargv s.
     bindR (fetch_argv MAXARG 0 uargv [] s) (\<lambda>argv s.
     case argv of None \<Rightarrow> Ok (-1) s | Some argv \<Rightarrow> exec dv (the path) argv s)))"

text \<open>\<open>sys_pipe\<close> when a descriptor could not be allocated.\<close>

definition pipe_undo :: "nat \<Rightarrow> nat \<Rightarrow> 'z file_st_scheme \<Rightarrow> (int, 'z file_st_scheme) result" where
  "pipe_undo rfl wfl s = bindR (fileclose rfl s) (\<lambda>_ s. bindR (fileclose wfl s) (\<lambda>_ s. Ok (-1) s))"

definition sys_pipe :: "'z file_st_scheme \<Rightarrow> (int, 'z file_st_scheme) result" where
  "sys_pipe s =
     bindR (argptr 0 8 s) (\<lambda>q s. bindR (stored q s) (\<lambda>p s.
     bindR (pipealloc s) (\<lambda>r s.
     case r of None \<Rightarrow> Ok (-1) s
     | Some (rfl, wfl) \<Rightarrow>
       bindR (fdalloc rfl s) (\<lambda>fd0 s.
       if fd0 < 0 then pipe_undo rfl wfl s
       else bindR (fdalloc wfl s) (\<lambda>fd1 s.
       if fd1 < 0
       then (case curproc s of None \<Rightarrow> Panic ''trap''
             | Some c \<Rightarrow> pipe_undo rfl wfl (set_ofile c (nat fd0) None s))
       else bindR (uwrite p (enc32 (word_of_int fd0)) s) (\<lambda>_ s.
            bindR (uwrite (p + 4) (enc32 (word_of_int fd1)) s) (\<lambda>_ s. Ok 0 s)))))))"

end
