(* ===== verification/Console.thy ===== *)
theory Console
  imports Sysfile
begin

section \<open>Console, keyboard and serial port (console.c, kbd.c, kbd.h, uart.c)\<close>

text \<open>
  Output goes to the serial port, whose bytes are a trace, and to the screen memory with its
  cursor register. Input characters are the values \<open>getc\<close> returns; the line discipline keeps them in
  a ring with a read, a write and an edit index. A console that has panicked stops for ever, which
  is \<open>Stuck\<close>.
\<close>

unbundle bit_operations_syntax

subsection \<open>State\<close>

definition INPUT_BUF :: nat where [simp]: "INPUT_BUF = 128"
definition BACKSPACE :: int where [simp]: "BACKSPACE = 0x100"

record input =
  in_buf :: "u8 list"
  in_r :: u32
  in_w :: u32
  in_e :: u32

record cons_st = file_st +
  crt :: "nat \<Rightarrow> u16"
  crt_pos :: nat
  uart :: bool
  uart_out :: "u8 list"
  panicked :: bool
  inp :: input
  idt_loaded :: bool

subsection \<open>Output\<close>

text \<open>
  The screen cells from \<open>crt[0]\<close>. \<open>memset\<close>'s length is a 64-bit count of bytes, from \<open>pos\<close> to the
  end of line 24.
\<close>

definition cga_scroll :: "(nat \<Rightarrow> u16) \<times> nat \<Rightarrow> (nat \<Rightarrow> u16) \<times> nat" where
  "cga_scroll = (\<lambda>(m, pos).
     if pos div 80 \<ge> 24
     then let m = (\<lambda>i. if i < 23 * 80 then m (i + 80) else m i);
              pos = pos - 80;
              n = unat (2 * (24 * 80 - of_nat pos) :: u64) div 2
          in ((\<lambda>i. if pos \<le> i \<and> i < pos + n then 0 else m i), pos)
     else (m, pos))"

definition cgaputc :: "int \<Rightarrow> 'z cons_st_scheme \<Rightarrow> 'z cons_st_scheme" where
  "cgaputc c s =
     (let pos = crt_pos s;
          (m, pos) = (if c = 10 then (crt s, pos + (80 - pos mod 80))
                      else if c = BACKSPACE then (crt s, if pos > 0 then pos - 1 else pos)
                      else ((crt s)(pos := (word_of_int c AND 0xFF) OR 0x0700), pos + 1));
          (m, pos) = cga_scroll (m, pos)
      in s\<lparr>crt := m(pos := 0x20 OR 0x0700), crt_pos := pos\<rparr>)"

definition uartputc :: "int \<Rightarrow> 'z cons_st_scheme \<Rightarrow> 'z cons_st_scheme" where
  "uartputc c s = (if uart s then s\<lparr>uart_out := uart_out s @ [word_of_int c]\<rparr> else s)"

definition consputc :: "int \<Rightarrow> 'z cons_st_scheme \<Rightarrow> (unit, 'z cons_st_scheme) result" where
  "consputc c s =
     (if panicked s then Stuck
      else Ok () (cgaputc c (if c = BACKSPACE then uartputc 8 (uartputc 32 (uartputc 8 s)) else uartputc c s)))"

definition putbytes :: "u8 list \<Rightarrow> 'z cons_st_scheme \<Rightarrow> (unit, 'z cons_st_scheme) result" where
  "putbytes bs s = for_each (\<lambda>b s. consputc (uint b) s) bs s"

definition digits :: "u8 list" where
  "digits = cstr ''0123456789abcdef''"

text \<open>The characters the number printers emit, in order.\<close>

fun hex_digits :: "nat \<Rightarrow> nat \<Rightarrow> 'w::len word \<Rightarrow> u8 list" where
  "hex_digits 0 w x = []"
| "hex_digits (Suc k) w x = digits ! unat (drop_bit (w - 4) x) # hex_digits k w (push_bit 4 x)"

definition print_x64 :: "u64 \<Rightarrow> u8 list" where
  "print_x64 x = hex_digits 16 64 x"

definition print_x32 :: "u32 \<Rightarrow> u8 list" where
  "print_x32 x = hex_digits 8 32 x"

text \<open>The digits of \<open>x\<close>, least significant first, as \<open>print_d\<close> puts them into its buffer.\<close>

fun dec_digits :: "nat \<Rightarrow> u8 list" where
  "dec_digits x = digits ! (x mod 10) # (if x div 10 = 0 then [] else dec_digits (x div 10))"

declare dec_digits.simps [simp del]

definition print_d :: "int \<Rightarrow> u8 list" where
  "print_d v = rev (dec_digits (nat \<bar>v\<bar>) @ (if v < 0 then [45] else []))"

text \<open>Variable arguments: a register-sized word or a string pointer.\<close>

datatype carg = CWord u64 | CStr "u8 list option"

fun cprintf_out :: "u8 list \<Rightarrow> carg list \<Rightarrow> u8 list option" where
  "cprintf_out [] as = Some []"
| "cprintf_out (c # fmt) as =
     (if c \<noteq> 37 then map_option (\<lambda>r. c # r) (cprintf_out fmt as)
      else case fmt of
        [] \<Rightarrow> Some []
      | d # fmt' \<Rightarrow>
          if d = 100 then (case as of CWord w # as' \<Rightarrow> map_option ((@) (print_d (sint (ucast w :: u32)))) (cprintf_out fmt' as') | _ \<Rightarrow> None)
          else if d = 120 then (case as of CWord w # as' \<Rightarrow> map_option ((@) (print_x32 (ucast w))) (cprintf_out fmt' as') | _ \<Rightarrow> None)
          else if d = 112 then (case as of CWord w # as' \<Rightarrow> map_option ((@) (print_x64 w)) (cprintf_out fmt' as') | _ \<Rightarrow> None)
          else if d = 115 then (case as of CStr t # as' \<Rightarrow>
              map_option ((@) (case t of None \<Rightarrow> cstr ''(null)'' | Some x \<Rightarrow> x)) (cprintf_out fmt' as') | _ \<Rightarrow> None)
          else if d = 37 then map_option (\<lambda>r. 37 # r) (cprintf_out fmt' as)
          else map_option (\<lambda>r. 37 # d # r) (cprintf_out fmt' as))"

text \<open>A missing argument or one of the wrong kind is undefined.\<close>

definition cprintf :: "u8 list \<Rightarrow> carg list \<Rightarrow> 'z cons_st_scheme \<Rightarrow> (unit, 'z cons_st_scheme) result" where
  "cprintf fmt as s = (case cprintf_out fmt as of None \<Rightarrow> Stuck | Some out \<Rightarrow> putbytes out s)"

text \<open>
  Following the frame chain from \<open>rbp\<close>, as \<open>getstackpcs\<close> does; the remaining entries are zero.
\<close>

fun stack_walk :: "memory \<Rightarrow> nat \<Rightarrow> addr_t \<Rightarrow> addr_t list" where
  "stack_walk m 0 rbp = []"
| "stack_walk m (Suc k) rbp =
     (if rbp = 0 \<or> rbp < KERNBASE \<or> rbp = 0xFFFFFFFF then []
      else load64 m (rbp + 8) # stack_walk m k (load64 m rbp))"

definition getstackpcs :: "memory \<Rightarrow> addr_t \<Rightarrow> addr_t list" where
  "getstackpcs m rbp = (let ps = stack_walk m 10 rbp in ps @ replicate (10 - length ps) 0)"

text \<open>
  \<open>panic\<close> on cpu \<open>cpuid\<close> with the frame pointer \<open>rbp\<close>, up to its final loop. The message is used as
  a format.
\<close>

definition panic_report :: "u8 \<Rightarrow> addr_t \<Rightarrow> u8 list \<Rightarrow> 'z cons_st_scheme \<Rightarrow> (unit, 'z cons_st_scheme) result" where
  "panic_report cpuid rbp msg s =
     bindR (cprintf (cstr ''cpu%d: panic: '') [CWord (ucast cpuid)] s) (\<lambda>_ s.
     bindR (cprintf msg [] s) (\<lambda>_ s.
     bindR (putbytes [10] s) (\<lambda>_ s.
     bindR (for_each (\<lambda>pc s. cprintf (cstr '' %p'' @ [10]) [CWord pc] s) (getstackpcs (mem s) rbp) s) (\<lambda>_ s.
     Ok () (s\<lparr>panicked := True\<rparr>)))))"

subsection \<open>Process listing\<close>

definition state_name :: "procstate \<Rightarrow> u8 list" where
  "state_name st = cstr (case st of UNUSED \<Rightarrow> ''unused'' | EMBRYO \<Rightarrow> ''embryo'' | SLEEPING \<Rightarrow> ''sleep ''
     | RUNNABLE \<Rightarrow> ''runble'' | RUNNING \<Rightarrow> ''run   '' | ZOMBIE \<Rightarrow> ''zombie'')"

definition procdump_one :: "nat \<Rightarrow> 'z cons_st_scheme \<Rightarrow> (unit, 'z cons_st_scheme) result" where
  "procdump_one i s =
     (let p = ptable s i in
      if p_state p = UNUSED then Ok () s
      else bindR (cprintf (cstr ''%d %s %s'') [CWord (word_of_int (p_pid p)), CStr (Some (state_name (p_state p))),
                    CStr (Some (takeWhile (\<lambda>b. b \<noteq> 0) (p_name p)))] s) (\<lambda>_ s.
           bindR (if p_state p = SLEEPING
                  then for_each (\<lambda>pc s. cprintf (cstr '' %p'') [CWord pc] s)
                         (takeWhile (\<lambda>pc. pc \<noteq> 0) (getstackpcs (mem s) (c_rbp (p_context p) + 16))) s
                  else Ok () s) (\<lambda>_ s.
           putbytes [10] s)))"

definition procdump :: "'z cons_st_scheme \<Rightarrow> (unit, 'z cons_st_scheme) result" where
  "procdump s = for_each procdump_one [0..<NPROC] s"

subsection \<open>Input\<close>

definition ctrl :: "char \<Rightarrow> int" where
  "ctrl c = of_char c - 64"

definition in_put :: "u8 \<Rightarrow> input \<Rightarrow> input" where
  "in_put b q = q\<lparr>in_buf := (in_buf q)[unat (in_e q) mod INPUT_BUF := b], in_e := in_e q + 1\<rparr>"

definition at_newline :: "input \<Rightarrow> bool" where
  "at_newline q \<longleftrightarrow> in_buf q ! (unat (in_e q - 1) mod INPUT_BUF) = 10"

text \<open>
  \<open>^U\<close>: the number of characters the loop erases. The loop runs at most once round the ring: it
  ends at the write index, which is less than a ring behind.
\<close>

fun kill_count :: "nat \<Rightarrow> input \<Rightarrow> nat" where
  "kill_count 0 q = 0"
| "kill_count (Suc k) q =
     (if in_e q \<noteq> in_w q \<and> \<not> at_newline q then Suc (kill_count k (q\<lparr>in_e := in_e q - 1\<rparr>)) else 0)"

definition in_kill :: "input \<Rightarrow> nat \<times> input" where
  "in_kill q = (let n = kill_count (unat (in_e q - in_w q)) q in (n, q\<lparr>in_e := in_e q - of_nat n\<rparr>))"

text \<open>The default case for character \<open>c\<close>: the echoed character and whether readers are woken.\<close>

definition in_char :: "int \<Rightarrow> input \<Rightarrow> (int \<times> bool \<times> input) option" where
  "in_char c q =
     (if c \<noteq> 0 \<and> in_e q - in_r q < of_nat INPUT_BUF
      then let c = (if c = 13 then 10 else c);
               q = in_put (word_of_int c) q;
               wake = (c = 10 \<or> c = ctrl CHR ''D'' \<or> in_e q = in_r q + of_nat INPUT_BUF)
           in Some (c, wake, if wake then q\<lparr>in_w := in_e q\<rparr> else q)
      else None)"

definition consoleintr_char :: "int \<Rightarrow> 'z cons_st_scheme \<Rightarrow> (unit, 'z cons_st_scheme) result" where
  "consoleintr_char c s =
     (if c = ctrl CHR ''Z'' then Ok () (s\<lparr>idt_loaded := False\<rparr>)
      else if c = ctrl CHR ''P'' then procdump s
      else if c = ctrl CHR ''U''
      then let (n, q) = in_kill (inp s) in for_each (\<lambda>_ s. consputc BACKSPACE s) [0..<n] (s\<lparr>inp := q\<rparr>)
      else if c = ctrl CHR ''H'' \<or> c = 127
      then if in_e (inp s) \<noteq> in_w (inp s)
           then consputc BACKSPACE (s\<lparr>inp := (inp s)\<lparr>in_e := in_e (inp s) - 1\<rparr>\<rparr>)
           else Ok () s
      else case in_char c (inp s) of
             None \<Rightarrow> Ok () s
           | Some (c, wake, q) \<Rightarrow>
               bindR (consputc c (s\<lparr>inp := q\<rparr>)) (\<lambda>_ s.
               Ok () (if wake then wakeup InputChan s else s)))"

text \<open>\<open>cs\<close>: the values of \<open>getc\<close> before its first negative one.\<close>

definition consoleintr :: "int list \<Rightarrow> 'z cons_st_scheme \<Rightarrow> (unit, 'z cons_st_scheme) result" where
  "consoleintr cs s = for_each consoleintr_char cs s"

text \<open>\<open>com\<close>: the bytes waiting in the serial port; without a port \<open>uartgetc\<close> gives none of them.\<close>

definition uartintr :: "u8 list \<Rightarrow> 'z cons_st_scheme \<Rightarrow> (unit, 'z cons_st_scheme) result" where
  "uartintr com s = consoleintr (if uart s then map uint com else []) s"

text \<open>
  The copy loop of \<open>consoleread\<close>, with \<open>n\<close> of \<open>target\<close> bytes to go: the bytes copied, whether the loop is
  over (otherwise the reader must wait for input), and the ring.
\<close>

fun cons_take :: "nat \<Rightarrow> nat \<Rightarrow> input \<Rightarrow> u8 list \<times> bool \<times> input" where
  "cons_take target 0 q = ([], True, q)"
| "cons_take target (Suc n) q =
     (if in_r q = in_w q then ([], False, q)
      else let c = in_buf q ! (unat (in_r q) mod INPUT_BUF); q' = q\<lparr>in_r := in_r q + 1\<rparr> in
      if c = 4 then ([], True, if Suc n < target then q else q')
      else if c = 10 then ([c], True, q')
      else let (bs, done, q'') = cons_take target n q' in (c # bs, done, q''))"

text \<open>
  \<open>consoleread\<close> after \<open>iunlock\<close>, with \<open>got\<close> already copied; a reader that sleeps goes on from here
  with the bytes it has.
\<close>

definition consoleread_from :: "nat \<Rightarrow> nat \<Rightarrow> u8 list \<Rightarrow> 'z cons_st_scheme \<Rightarrow> (int \<times> u8 list, 'z cons_st_scheme) result" where
  "consoleread_from ip target got s =
     (let (bs, fin, q) = cons_take target (target - length got) (inp s); s = s\<lparr>inp := q\<rparr>; got = got @ bs in
      if fin then bindR (ilock ip s) (\<lambda>_ s. Ok (int (length got), got) s)
      else bindR (cur_killed s) (\<lambda>k s.
           if k then bindR (ilock ip s) (\<lambda>_ s. Ok (-1, got) s)
           else sleep InputChan s))"

definition consoleread :: "nat \<Rightarrow> u32 \<Rightarrow> u32 \<Rightarrow> 'z cons_st_scheme \<Rightarrow> (int \<times> u8 list, 'z cons_st_scheme) result" where
  "consoleread ip off n s = bindR (iunlock ip s) (\<lambda>_ s. consoleread_from ip (nat (sint n)) [] s)"

definition consolewrite :: "nat \<Rightarrow> u32 \<Rightarrow> u8 list \<Rightarrow> 'z cons_st_scheme \<Rightarrow> (int, 'z cons_st_scheme) result" where
  "consolewrite ip off buf s =
     bindR (iunlock ip s) (\<lambda>_ s.
     bindR (putbytes buf s) (\<lambda>_ s.
     bindR (ilock ip s) (\<lambda>_ s. Ok (int (length buf)) s)))"

definition CONSOLE :: nat where [simp]: "CONSOLE = 1"

text \<open>The device switch after \<open>consoleinit\<close>.\<close>

definition consoleinit :: "('z cons_st_scheme) devsw \<Rightarrow> ('z cons_st_scheme) devsw" where
  "consoleinit dv = dv(CONSOLE := (Some consoleread, Some consolewrite))"

end
