(* ===== verification/Kbd.thy ===== *)
theory Kbd
  imports Console
begin

section \<open>Keyboard (kbd.c, kbd.h)\<close>

text \<open>
  \<open>kbdgetc\<close> as a function of the scan code it reads and of its static variable \<open>shift\<close>. The key maps
  are the initialisers of kbd.h: a run of entries from index 0 and entries at explicit indices,
  all others zero.
\<close>

unbundle bit_operations_syntax

definition SHIFT :: u32 where [simp]: "SHIFT = 1"
definition CTL :: u32 where [simp]: "CTL = 2"
definition ALT :: u32 where [simp]: "ALT = 4"
definition CAPSLOCK :: u32 where [simp]: "CAPSLOCK = 8"
definition NUMLOCK :: u32 where [simp]: "NUMLOCK = 16"
definition SCROLLLOCK :: u32 where [simp]: "SCROLLLOCK = 32"
definition E0ESC :: u32 where [simp]: "E0ESC = 64"

definition shiftcode :: "u8 \<Rightarrow> u32" where
  "shiftcode d = (if d = 0x1D then CTL else if d = 0x2A then SHIFT else if d = 0x36 then SHIFT
     else if d = 0x38 then ALT else if d = 0x9D then CTL else if d = 0xB8 then ALT else 0)"

definition togglecode :: "u8 \<Rightarrow> u32" where
  "togglecode d = (if d = 0x3A then CAPSLOCK else if d = 0x45 then NUMLOCK else if d = 0x46 then SCROLLLOCK else 0)"

definition keymap :: "u8 list \<Rightarrow> (u8 \<times> u8) list \<Rightarrow> u8 \<Rightarrow> u8" where
  "keymap run at d =
     (case map_of at d of Some c \<Rightarrow> c | None \<Rightarrow> if unat d < length run then run ! unat d else 0)"

text \<open>Cursor and editing keys, which the three maps share.\<close>

definition extkeys :: "(u8 \<times> u8) list" where
  "extkeys = [(0xC8, 0xE2), (0xD0, 0xE3), (0xC9, 0xE6), (0xD1, 0xE7), (0xCB, 0xE4), (0xCD, 0xE5),
     (0x97, 0xE0), (0xCF, 0xE1), (0xD2, 0xE8), (0xD3, 0xE9)]"

definition normalmap :: "u8 \<Rightarrow> u8" where
  "normalmap = keymap
     ([0, 0x1B] @ cstr ''1234567890-='' @ [8, 9] @ cstr ''qwertyuiop[]'' @ [10, 0] @ cstr ''asdfghjkl;'' @
      [39, 96, 0, 92] @ cstr ''zxcvbnm,./'' @ [0] @ cstr ''*'' @ [0, 32] @ replicate 13 0 @ cstr ''789-456+1230.'' @
      replicate 4 0)
     ([(0x9C, 10), (0xB5, 47)] @ extkeys)"

definition shiftmap :: "u8 \<Rightarrow> u8" where
  "shiftmap = keymap
     ([0, 27] @ cstr ''!@#$%^&*()_+'' @ [8, 9] @ cstr ''QWERTYUIOP{}'' @ [10, 0] @ cstr ''ASDFGHJKL:'' @
      [34, 126, 0, 124] @ cstr ''ZXCVBNM<>?'' @ [0] @ cstr ''*'' @ [0, 32] @ replicate 13 0 @ cstr ''789-456+1230.'' @
      replicate 4 0)
     ([(0x9C, 10), (0xB5, 47)] @ extkeys)"

text \<open>\<open>C(x)\<close> is \<open>x - '@'\<close>.\<close>

definition ctls :: "string \<Rightarrow> u8 list" where
  "ctls xs = map (\<lambda>c. of_char c - 64) xs"

definition ctlmap :: "u8 \<Rightarrow> u8" where
  "ctlmap = keymap
     (replicate 16 0 @ ctls ''QWERTYUIOP'' @ [0, 0, 13, 0] @ ctls ''ASDFGHJKL'' @ [0, 0, 0, 0] @ [92 - 64] @
      ctls ''ZXCVBNM'' @ [0, 0] @ ctls ''/'' @ [0, 0])
     ([(0x9C, 13), (0xB5, 47 - 64)] @ extkeys)"

definition charcode :: "u32 \<Rightarrow> u8 \<Rightarrow> u8" where
  "charcode k = (if k = 0 then normalmap else if k = 1 then shiftmap else ctlmap)"

text \<open>The case change of CapsLock.\<close>

definition swapcase :: "u8 \<Rightarrow> u8" where
  "swapcase c = (if 97 \<le> c \<and> c \<le> 122 then c - 32 else if 65 \<le> c \<and> c \<le> 90 then c + 32 else c)"

text \<open>
  The result and the new value of \<open>shift\<close>, for the scan code \<open>data\<close>; None when the controller has
  no data.
\<close>

definition kbdgetc :: "u8 option \<Rightarrow> u32 \<Rightarrow> int \<times> u32" where
  "kbdgetc data shift =
     (case data of
        None \<Rightarrow> (-1, shift)
      | Some data \<Rightarrow>
          if data = 0xE0 then (0, shift OR E0ESC)
          else if data AND 0x80 \<noteq> 0
          then let data = (if shift AND E0ESC \<noteq> 0 then data else data AND 0x7F)
               in (0, shift AND NOT (shiftcode data OR E0ESC))
          else let (data, shift) = (if shift AND E0ESC \<noteq> 0 then (data OR 0x80, shift AND NOT E0ESC) else (data, shift));
                   shift = shift OR shiftcode data;
                   shift = shift XOR togglecode data;
                   c = charcode (shift AND (CTL OR SHIFT)) data
               in (uint (if shift AND CAPSLOCK \<noteq> 0 then swapcase c else c), shift))"

text \<open>
  \<open>kbdintr\<close>: the characters of a burst of scan codes, up to the first call that finds no data, go
  to \<open>consoleintr\<close>.
\<close>

fun kbd_chars :: "u8 list \<Rightarrow> u32 \<Rightarrow> int list \<times> u32" where
  "kbd_chars [] shift = ([], shift)"
| "kbd_chars (d # ds) shift =
     (let (c, shift) = kbdgetc (Some d) shift; (cs, shift) = kbd_chars ds shift in (c # cs, shift))"

definition kbdintr :: "u8 list \<Rightarrow> u32 \<Rightarrow> 'z cons_st_scheme \<Rightarrow> (u32, 'z cons_st_scheme) result" where
  "kbdintr ds shift s =
     (let (cs, shift) = kbd_chars ds shift in bindR (consoleintr cs s) (\<lambda>_ s. Ok shift s))"

end
