(* ===== verification/Trap.thy ===== *)
theory Trap
  imports Kbd
begin

section \<open>Traps and the system call table (trap.c, sysproc.c, syscall.c)\<close>

text \<open>
  The remaining system calls, the dispatcher and the trap handler. \<open>proc->tf\<close> is the trap frame of
  the call: what the handlers change in it is in the process record. Processor-dependent values
  (the cpu number and \<open>cr2\<close>) are arguments. A system call declared \<open>int\<close> but called through a table of
  functions returning \<open>addr_t\<close> defines only the low half of the result; the upper half is taken as
  zero.
\<close>

unbundle bit_operations_syntax

record kern_st = cons_st +
  ticks :: u32
  kshift :: u32

subsection \<open>Process system calls (sysproc.c)\<close>

definition sys_fork :: "'z file_st_scheme \<Rightarrow> (int, 'z file_st_scheme) result" where
  "sys_fork s = fork s"

definition sys_exit :: "'z file_st_scheme \<Rightarrow> (int, 'z file_st_scheme) result" where
  "sys_exit s = exit s"

definition sys_wait :: "'z sched_st_scheme \<Rightarrow> (int, 'z sched_st_scheme) result" where
  "sys_wait s = wait s"

definition sys_kill :: "'z sched_st_scheme \<Rightarrow> (int, 'z sched_st_scheme) result" where
  "sys_kill s = bindR (argint 0 s) (\<lambda>pid s. let (r, s) = kill pid s in Ok r s)"

definition sys_getpid :: "'z sched_st_scheme \<Rightarrow> (int, 'z sched_st_scheme) result" where
  "sys_getpid s = bindR (myproc s) (\<lambda>p s. Ok (p_pid p) s)"

definition sys_sbrk :: "'z sched_st_scheme \<Rightarrow> (u64, 'z sched_st_scheme) result" where
  "sys_sbrk s =
     bindR (argaddr 0 s) (\<lambda>n s. bindR (myproc s) (\<lambda>p s.
       let addr = p_sz p in
       bindR (growproc (sint n) s) (\<lambda>r s. if r < 0 then Ok (-1) s else Ok addr s)))"

text \<open>
  \<open>sys_sleep\<close> after it has read \<open>ticks0\<close>; the loop test compares as unsigned. A woken sleeper goes
  on from here.
\<close>

definition sys_sleep_from :: "int \<Rightarrow> u32 \<Rightarrow> 'z kern_st_scheme \<Rightarrow> (int, 'z kern_st_scheme) result" where
  "sys_sleep_from n ticks0 s =
     (if ticks s - ticks0 < word_of_int n
      then bindR (cur_killed s) (\<lambda>k s. if k then Ok (-1) s else sleep TicksChan s)
      else Ok 0 s)"

definition sys_sleep :: "'z kern_st_scheme \<Rightarrow> (int, 'z kern_st_scheme) result" where
  "sys_sleep s = bindR (argint 0 s) (\<lambda>n s. sys_sleep_from n (ticks s) s)"

definition sys_uptime :: "'z kern_st_scheme \<Rightarrow> (int, 'z kern_st_scheme) result" where
  "sys_uptime s = Ok (sint (ticks s)) s"

definition sys_triggerpanic :: "'z cons_st_scheme \<Rightarrow> (u64, 'z cons_st_scheme) result" where
  "sys_triggerpanic s =
     bindR (cprintf (cstr ''Kernel: Attempting to trigger controlled panic by dereferencing NULL...'' @ [10]) [] s) (\<lambda>_ s.
     bindR (uread 0 4 s) (\<lambda>bs s.
     bindR (cprintf (cstr ''Kernel: Should not reach here. Value: %d'' @ [10]) [CWord (ucast (dec32 bs))] s) (\<lambda>_ s.
     Ok 0 s)))"

subsection \<open>The dispatcher (syscall.c)\<close>

datatype sysno = SYS_fork | SYS_exit | SYS_wait | SYS_pipe | SYS_read | SYS_kill | SYS_exec | SYS_fstat | SYS_chdir
  | SYS_dup | SYS_getpid | SYS_sbrk | SYS_sleep | SYS_uptime | SYS_open | SYS_write | SYS_mknod | SYS_unlink
  | SYS_link | SYS_mkdir | SYS_close | SYS_triggerpanic

text \<open>The call numbers 1 to 22 of syscall.h, in order.\<close>

definition sysnos :: "sysno list" where
  "sysnos = [SYS_fork, SYS_exit, SYS_wait, SYS_pipe, SYS_read, SYS_kill, SYS_exec, SYS_fstat, SYS_chdir,
     SYS_dup, SYS_getpid, SYS_sbrk, SYS_sleep, SYS_uptime, SYS_open, SYS_write, SYS_mknod, SYS_unlink,
     SYS_link, SYS_mkdir, SYS_close, SYS_triggerpanic]"

definition sysno_of :: "u64 \<Rightarrow> sysno option" where
  "sysno_of num = (if num > 0 \<and> num < 23 then Some (sysnos ! (unat num - 1)) else None)"

definition int_ret :: "(int, 's) result \<Rightarrow> (u64, 's) result" where
  "int_ret m = bindR m (\<lambda>r s. Ok (ucast (word_of_int r :: u32)) s)"

definition syscalls :: "('z kern_st_scheme) devsw \<Rightarrow> sysno \<Rightarrow> 'z kern_st_scheme \<Rightarrow> (u64, 'z kern_st_scheme) result" where
  "syscalls dv n s =
     (case n of
        SYS_fork \<Rightarrow> int_ret (sys_fork s)
      | SYS_exit \<Rightarrow> int_ret (sys_exit s)
      | SYS_wait \<Rightarrow> int_ret (sys_wait s)
      | SYS_pipe \<Rightarrow> int_ret (sys_pipe s)
      | SYS_read \<Rightarrow> int_ret (sys_read dv s)
      | SYS_kill \<Rightarrow> int_ret (sys_kill s)
      | SYS_exec \<Rightarrow> int_ret (sys_exec dv s)
      | SYS_fstat \<Rightarrow> int_ret (sys_fstat s)
      | SYS_chdir \<Rightarrow> int_ret (sys_chdir dv s)
      | SYS_dup \<Rightarrow> int_ret (sys_dup s)
      | SYS_getpid \<Rightarrow> int_ret (sys_getpid s)
      | SYS_sbrk \<Rightarrow> sys_sbrk s
      | SYS_sleep \<Rightarrow> int_ret (sys_sleep s)
      | SYS_uptime \<Rightarrow> int_ret (sys_uptime s)
      | SYS_open \<Rightarrow> int_ret (sys_open dv s)
      | SYS_write \<Rightarrow> int_ret (sys_write dv s)
      | SYS_mknod \<Rightarrow> int_ret (sys_mknod dv s)
      | SYS_unlink \<Rightarrow> int_ret (sys_unlink dv s)
      | SYS_link \<Rightarrow> int_ret (sys_link dv s)
      | SYS_mkdir \<Rightarrow> int_ret (sys_mkdir dv s)
      | SYS_close \<Rightarrow> int_ret (sys_close s)
      | SYS_triggerpanic \<Rightarrow> sys_triggerpanic s)"

definition set_rax :: "nat \<Rightarrow> u64 \<Rightarrow> 'z sched_st_scheme \<Rightarrow> 'z sched_st_scheme" where
  "set_rax c v s = upd_proc c (\<lambda>p. p\<lparr>p_tf := (p_tf p)\<lparr>tf_rax := v\<rparr>\<rparr>) s"

definition syscall :: "('z kern_st_scheme) devsw \<Rightarrow> trapframe \<Rightarrow> 'z kern_st_scheme \<Rightarrow> (unit, 'z kern_st_scheme) result" where
  "syscall dv tf s =
     (case curproc s of None \<Rightarrow> Panic ''trap''
      | Some c \<Rightarrow>
        let s = upd_proc c (\<lambda>p. p\<lparr>p_tf := tf\<rparr>) s; num = tf_rax tf in
        bindR (case sysno_of num of
                 Some n \<Rightarrow> bindR (syscalls dv n s) (\<lambda>r s. Ok () (set_rax c r s))
               | None \<Rightarrow>
                   bindR (cprintf (cstr ''%d %s: unknown sys call %d'' @ [10])
                            [CWord (word_of_int (p_pid (ptable s c))), CStr (Some (takeWhile (\<lambda>b. b \<noteq> 0) (p_name (ptable s c)))), CWord num] s) (\<lambda>_ s.
                   Ok () (set_rax c (-1) s))) (\<lambda>_ s.
        if p_killed (ptable s c) then exit s else Ok () s))"

subsection \<open>Traps (trap.c)\<close>

definition T_IRQ0 :: u64 where [simp]: "T_IRQ0 = 32"
definition IRQ_TIMER :: u64 where [simp]: "IRQ_TIMER = 0"
definition IRQ_KBD :: u64 where [simp]: "IRQ_KBD = 1"
definition IRQ_COM1 :: u64 where [simp]: "IRQ_COM1 = 4"
definition IRQ_IDE :: u64 where [simp]: "IRQ_IDE = 14"
definition IRQ_SPURIOUS :: u64 where [simp]: "IRQ_SPURIOUS = 31"
definition DPL_USER :: u64 where [simp]: "DPL_USER = 3"

definition KERNEL_CS :: u32 where [simp]: "KERNEL_CS = 8"

text \<open>One gate of the interrupt descriptor table: its four 32-bit words.\<close>

definition mkgate :: "addr_t \<Rightarrow> u32 \<Rightarrow> u32 list" where
  "mkgate kva pl =
     [ucast (kva AND 0xFFFF) OR push_bit 16 KERNEL_CS,
      ucast (kva AND 0xFFFF0000) OR 0x8E00 OR push_bit 13 (pl AND 3),
      ucast (drop_bit 32 kva),
      0]"

text \<open>
  \<open>tvinit\<close>: a zeroed page with the 256 gates for the entry points \<open>vectors\<close>; the result is the new
  value of \<open>idt\<close>.
\<close>

definition tvinit :: "(nat \<Rightarrow> addr_t) \<Rightarrow> 'z kmem_st_scheme \<Rightarrow> (addr_t, 'z kmem_st_scheme) result" where
  "tvinit vectors s =
     bindR (kalloc s) (\<lambda>p s.
       let s = zero_page p s in
       Ok p (s\<lparr>mem := poke (mem s) p (concat (map (\<lambda>n. concat (map enc32 (mkgate (vectors n) 0))) [0..<256]))\<rparr>))"

text \<open>The clock interrupt, which only cpu 0 counts.\<close>

definition timer_tick :: "nat \<Rightarrow> 'z kern_st_scheme \<Rightarrow> 'z kern_st_scheme" where
  "timer_tick cpunum s = (if cpunum = 0 then wakeup TicksChan (s\<lparr>ticks := ticks s + 1\<rparr>) else s)"

text \<open>The device interrupts: \<open>kbd\<close> and \<open>com\<close> are what the keyboard and the serial port have to give.\<close>

definition dev_intr :: "nat \<Rightarrow> u8 list \<Rightarrow> u8 list \<Rightarrow> u64 \<Rightarrow> trapframe \<Rightarrow> 'z kern_st_scheme \<Rightarrow>
    (bool, 'z kern_st_scheme) result" where
  "dev_intr cpunum kbd com no tf s =
     (if no = T_IRQ0 + IRQ_TIMER then Ok True (timer_tick cpunum s)
      else if no = T_IRQ0 + IRQ_IDE then Ok True s
      else if no = T_IRQ0 + IRQ_IDE + 1 then Ok True s
      else if no = T_IRQ0 + IRQ_KBD
      then bindR (kbdintr kbd (kshift s) s) (\<lambda>sh s. Ok True (s\<lparr>kshift := sh\<rparr>))
      else if no = T_IRQ0 + IRQ_COM1
      then bindR (uartintr com s) (\<lambda>_ s. Ok True s)
      else if no = T_IRQ0 + 7 \<or> no = T_IRQ0 + IRQ_SPURIOUS
      then bindR (cprintf (cstr ''cpu%d: spurious interrupt at %p:%p'' @ [10]) [CWord (of_nat cpunum), CWord (tf_cs tf), CWord (tf_rip tf)] s) (\<lambda>_ s. Ok True s)
      else Ok False s)"

text \<open>The report for a fault of user code.\<close>

definition crash_report :: "nat \<Rightarrow> u64 \<Rightarrow> proc \<Rightarrow> trapframe \<Rightarrow> 'z cons_st_scheme \<Rightarrow> (unit, 'z cons_st_scheme) result" where
  "crash_report cpunum cr2 p tf s =
     (let name = CStr (Some (takeWhile (\<lambda>b. b \<noteq> 0) (p_name p))); pid = CWord (word_of_int (p_pid p)) in
      bindR (cprintf ([10] @ cstr ''=== XV6 USER CRASH REPORT ==='' @ [10]) [] s) (\<lambda>_ s.
      bindR (cprintf (cstr ''Process: %s (pid %d)'' @ [10]) [name, pid] s) (\<lambda>_ s.
      bindR (cprintf (cstr ''Trap: %d (Error: %d)'' @ [10]) [CWord (tf_trapno tf), CWord (tf_err tf)] s) (\<lambda>_ s.
      bindR (cprintf (cstr ''RIP: %p RSP: %p'' @ [10]) [CWord (tf_rip tf), CWord (tf_rsp tf)] s) (\<lambda>_ s.
      bindR (cprintf (cstr ''RAX: %p RBX: %p RCX: %p RDX: %p'' @ [10])
               [CWord (tf_rax tf), CWord (tf_rbx tf), CWord (tf_rcx tf), CWord (tf_rdx tf)] s) (\<lambda>_ s.
      bindR (cprintf (cstr ''RDI: %p RSI: %p RBP: %p'' @ [10]) [CWord (tf_rdi tf), CWord (tf_rsi tf), CWord (tf_rbp tf)] s) (\<lambda>_ s.
      bindR (cprintf (cstr ''=== END REPORT ==='' @ [10]) [] s) (\<lambda>_ s.
      cprintf (cstr ''pid %d %s: trap %d err %d on cpu %d rip 0x%p addr 0x%p--kill proc'' @ [10])
        [pid, name, CWord (tf_trapno tf), CWord (tf_err tf), CWord (of_nat cpunum), CWord (tf_rip tf), CWord cr2] s))))))))"

definition trap_fault :: "nat \<Rightarrow> u64 \<Rightarrow> trapframe \<Rightarrow> 'z cons_st_scheme \<Rightarrow> (unit, 'z cons_st_scheme) result" where
  "trap_fault cpunum cr2 tf s =
     (case curproc s of
        None \<Rightarrow> Panic ''trap''
      | Some c \<Rightarrow>
          if tf_cs tf AND 3 = 0 then Panic ''trap''
          else bindR (crash_report cpunum cr2 (ptable s c) tf s) (\<lambda>_ s.
               Ok () (upd_proc c (\<lambda>p. p\<lparr>p_killed := True\<rparr>) s)))"

text \<open>Whether \<open>trap\<close> forces the current process to exit.\<close>

definition must_exit :: "trapframe \<Rightarrow> 'z sched_st_scheme \<Rightarrow> bool" where
  "must_exit tf s =
     (case curproc s of None \<Rightarrow> False | Some c \<Rightarrow> p_killed (ptable s c) \<and> tf_cs tf AND 3 = DPL_USER)"

text \<open>
  \<open>trap\<close> up to its return or its switch to the scheduler; the result says whether it yielded, after
  which only \<open>trap_resume\<close> is left to run.
\<close>

definition trap :: "nat \<Rightarrow> u64 \<Rightarrow> u8 list \<Rightarrow> u8 list \<Rightarrow> trapframe \<Rightarrow> 'z kern_st_scheme \<Rightarrow> (bool, 'z kern_st_scheme) result" where
  "trap cpunum cr2 kbd com tf s =
     bindR (dev_intr cpunum kbd com (tf_trapno tf) tf s) (\<lambda>handled s.
     bindR (if handled then Ok () s else trap_fault cpunum cr2 tf s) (\<lambda>_ s.
     if must_exit tf s then exit s
     else case curproc s of
            None \<Rightarrow> Ok False s
          | Some c \<Rightarrow>
              if p_state (ptable s c) = RUNNING \<and> tf_trapno tf = T_IRQ0 + IRQ_TIMER
              then Ok True (yield s)
              else Ok False s))"

definition trap_resume :: "trapframe \<Rightarrow> 'z file_st_scheme \<Rightarrow> (unit, 'z file_st_scheme) result" where
  "trap_resume tf s = (if must_exit tf s then exit s else Ok () s)"

end
