(* ===== verification/Terminal.thy ===== *)
theory Terminal
  imports Console
begin

section \<open>What the console promises\<close>

text \<open>
  Properties of console.c: numbers are printed so that they can be read back, output never leaves
  the screen memory, and the input ring with its three indices is a line editor. The line editor's
  specification works on two lists, the bytes readers may have and the line being edited.
\<close>

unbundle bit_operations_syntax

text \<open>A console for examples: empty, with the input indices about to wrap.\<close>

definition cons_boot :: cons_st where
  "cons_boot = file_st.extend file_boot
     (cons_st.fields (\<lambda>_. 0) 1919 True [] False \<lparr>in_buf = replicate 128 0, in_r = 0xFFFFFFFE, in_w = 0xFFFFFFFE, in_e = 0xFFFFFFFE\<rparr> True)"

lemma cons_boot_simps [simp]:
  "\<not> panicked cons_boot" "crt_pos cons_boot = 1919"
  "inp cons_boot = \<lparr>in_buf = replicate 128 0, in_r = 0xFFFFFFFE, in_w = 0xFFFFFFFE, in_e = 0xFFFFFFFE\<rparr>"
  by (simp_all add: cons_boot_def file_st.defs cons_st.defs)

subsection \<open>Numbers\<close>

definition digit_val :: "u8 \<Rightarrow> nat" where
  "digit_val c = (if c < 58 then unat c - 48 else unat c - 87)"

definition num_val :: "nat \<Rightarrow> u8 list \<Rightarrow> nat" where
  "num_val b ds = foldl (\<lambda>a d. a * b + digit_val d) 0 ds"

definition int_val :: "u8 list \<Rightarrow> int" where
  "int_val ds = (if ds \<noteq> [] \<and> hd ds = 45 then - int (num_val 10 (tl ds)) else int (num_val 10 ds))"

lemma digit_val_digits: "k < 16 \<Longrightarrow> digit_val (digits ! k) = k \<and> digits ! k \<noteq> 45"
proof -
  have "\<forall>k\<in>{..<16}. digit_val (digits ! k) = k \<and> digits ! k \<noteq> 45"
    by (simp add: lessThan_nat_numeral digits_def cstr_def digit_val_def)
  then show "k < 16 \<Longrightarrow> digit_val (digits ! k) = k \<and> digits ! k \<noteq> 45" by simp
qed

lemma num_val_snoc: "num_val b (ds @ [d]) = num_val b ds * b + digit_val d"
  by (simp add: num_val_def)

lemma num_val_rev_dec: "num_val 10 (rev (dec_digits n)) = n"
proof (induction n rule: dec_digits.induct)
  case (1 n)
  have d: "digit_val (digits ! (n mod 10)) = n mod 10" using digit_val_digits [of "n mod 10"] by (simp add: less_trans [of _ 10])
  show ?case
  proof (cases "n div 10 = 0")
    case True
    then have "n mod 10 = n" by (simp add: div_eq_0_iff)
    then show ?thesis using True d by (subst dec_digits.simps) (simp add: num_val_def)
  next
    case False
    then show ?thesis using 1 d by (subst dec_digits.simps) (simp add: num_val_snoc)
  qed
qed

lemma hd_rev_dec: "dec_digits n \<noteq> [] \<and> hd (rev (dec_digits n)) \<noteq> 45"
proof (induction n rule: dec_digits.induct)
  case (1 n)
  show ?case
    using 1 digit_val_digits [of "n mod 10"]
    by (subst (1 2) dec_digits.simps) (auto simp: hd_append less_trans [of _ 10])
qed

lemma num_val_Cons: "num_val b (d # ds) = digit_val d * b ^ length ds + num_val b ds"
proof -
  have "foldl (\<lambda>a d. a * b + digit_val d) z ds = z * b ^ length ds + foldl (\<lambda>a d. a * b + digit_val d) 0 ds" for z
  proof (induction ds rule: rev_induct)
    case (snoc e ds)
    then show ?case by (simp add: algebra_simps)
  qed simp
  from this [of "digit_val d"] show ?thesis by (simp add: num_val_def)
qed

lemma length_hex_digits [simp]: "length (hex_digits k w x) = k"
  by (induction k arbitrary: x) auto

lemma pow2_16: "4 \<le> m \<Longrightarrow> (2 :: nat) ^ m = 16 * 2 ^ (m - 4)"
  using power_add [of "2 :: nat" 4 "m - 4"] by simp

text \<open>The digits of a word shifted left hold its upper bits.\<close>

lemma num_val_hex:
  assumes w: "LENGTH('w) = w" and k: "4 * k \<le> w"
  shows "num_val 16 (hex_digits k w (x :: 'w::len word)) = unat x div 2 ^ (w - 4 * k)"
  using k
proof (induction k arbitrary: x)
  case 0
  then show ?case using unsigned_less [of x, where 'a = nat] w by (simp add: num_val_def)
next
  case (Suc k)
  let ?n = "unat x"
  have top: "unat (drop_bit (w - 4) x) = ?n div 2 ^ (w - 4)"
    by (simp only: unat_drop_bit_eq) (simp add: drop_bit_eq_div)
  have lt: "?n < 2 ^ w" using unsigned_less [of x, where 'a = nat] w by simp
  have p: "(2 :: nat) ^ w = 16 * 2 ^ (w - 4)" using Suc.prems by (intro pow2_16) simp
  have t16: "?n div 2 ^ (w - 4) < 16" using lt p by (simp add: less_mult_imp_div_less mult.commute)
  have sh: "unat (push_bit 4 x) = 16 * ?n mod 2 ^ w"
    by (simp only: unsigned_push_bit_eq w) (simp add: take_bit_eq_mod push_bit_eq_mult mult.commute)
  have "num_val 16 (hex_digits k w (push_bit 4 x)) = (16 * ?n mod 2 ^ w) div 2 ^ (w - 4 * k)"
    using Suc sh by simp
  also have "\<dots> = (?n mod 2 ^ (w - 4)) div 2 ^ (w - 4 - 4 * k)"
  proof -
    have "16 * ?n mod 2 ^ w = 16 * (?n mod 2 ^ (w - 4))" by (simp only: p mult_mod_right)
    moreover have "(2 :: nat) ^ (w - 4 * k) = 16 * 2 ^ (w - 4 - 4 * k)"
      using Suc.prems pow2_16 [of "w - 4 * k"] by (simp add: diff_diff_add add.commute)
    ultimately show ?thesis by simp
  qed
  finally have rec: "num_val 16 (hex_digits k w (push_bit 4 x)) = (?n mod 2 ^ (w - 4)) div 2 ^ (w - 4 - 4 * k)" .
  have "?n div 2 ^ (w - 4 - 4 * k) = (?n div 2 ^ (w - 4)) * 16 ^ k + (?n mod 2 ^ (w - 4)) div 2 ^ (w - 4 - 4 * k)"
  proof -
    have e: "(2 :: nat) ^ (w - 4) = 16 ^ k * 2 ^ (w - 4 - 4 * k)"
      using Suc.prems power_add [of "2 :: nat" "4 * k" "w - 4 - 4 * k"] power_mult [of "2 :: nat" 4 k] by simp
    have "?n = (?n div 2 ^ (w - 4)) * (16 ^ k * 2 ^ (w - 4 - 4 * k)) + ?n mod 2 ^ (w - 4)"
      unfolding e [symmetric] by (rule div_mult_mod_eq [symmetric])
    then have "?n div 2 ^ (w - 4 - 4 * k) =
        ((?n div 2 ^ (w - 4) * 16 ^ k) * 2 ^ (w - 4 - 4 * k) + ?n mod 2 ^ (w - 4)) div 2 ^ (w - 4 - 4 * k)"
      by (simp only: mult.assoc)
    then show ?thesis by (simp only: div_mult_self3 power_not_zero zero_neq_numeral not_False_eq_True)
  qed
  then show ?case
    using rec top t16 digit_val_digits [of "?n div 2 ^ (w - 4)"] by (simp add: num_val_Cons)
qed

text \<open>
  C30. The number formats of \<open>cprintf\<close> lose nothing: a printed \<open>%d\<close> reads back as the integer, negative
  ones included, and \<open>%x\<close> and \<open>%p\<close> print all 8 or 16 hexadecimal digits of the word.
\<close>

theorem printed_numbers_read_back:
  "int_val (print_d v) = v
   \<and> length (print_x64 x) = 16 \<and> num_val 16 (print_x64 x) = unat x
   \<and> length (print_x32 y) = 8 \<and> num_val 16 (print_x32 y) = unat y"
proof -
  have "int_val (print_d v) = v"
    using num_val_rev_dec [of "nat \<bar>v\<bar>"] hd_rev_dec [of "nat \<bar>v\<bar>"] by (auto simp: print_d_def int_val_def)
  moreover have "num_val 16 (print_x64 x) = unat x" using num_val_hex [of 64 16 x] by (simp add: print_x64_def)
  moreover have "num_val 16 (print_x32 y) = unat y" using num_val_hex [of 32 8 y] by (simp add: print_x32_def)
  ultimately show ?thesis by (simp add: print_x64_def print_x32_def)
qed

subsection \<open>The screen\<close>

definition on_screen :: "'z cons_st_scheme \<Rightarrow> bool" where
  "on_screen s \<longleftrightarrow> crt_pos s < 24 * 80"

lemma scroll_length: "pos \<le> 1920 \<Longrightarrow> unat (2 * (1920 - of_nat pos) :: u64) div 2 = 1920 - pos"
proof -
  assume p: "pos \<le> 1920"
  have "2 * (1920 - of_nat pos) = (of_nat (2 * (1920 - pos)) :: u64)" using p by (simp add: of_nat_diff)
  moreover have "unat (of_nat (2 * (1920 - pos)) :: u64) = 2 * (1920 - pos)" by (rule unat_of_nat_small) simp
  ultimately show ?thesis by simp
qed

lemma cga_scroll_bounds:
  assumes "pos \<le> 1920" and "cga_scroll (m, pos) = (m', pos')"
  shows "pos' < 1920 \<and> (\<forall>i\<ge>1920. m' i = m i)"
proof (cases "pos div 80 \<ge> 24")
  case True
  then have "pos = 1920" using assms(1) by (simp add: less_eq_div_iff_mult_less_eq)
  then show ?thesis using assms(2) scroll_length [of 1840] by (auto simp: cga_scroll_def Let_def)
next
  case False
  then have "pos < 1920" by (simp add: not_le less_mult_imp_div_less div_less_iff_less_mult)
  then show ?thesis using False assms(2) by (auto simp: cga_scroll_def)
qed

lemma cgaputc_on_screen:
  assumes "on_screen s"
  shows "on_screen (cgaputc c s) \<and> (\<forall>i\<ge>24 * 80. crt (cgaputc c s) i = crt s i)"
proof -
  obtain m pos where mp: "(if c = 10 then (crt s, crt_pos s + (80 - crt_pos s mod 80))
       else if c = BACKSPACE then (crt s, if crt_pos s > 0 then crt_pos s - 1 else crt_pos s)
       else ((crt s)(crt_pos s := (word_of_int c AND 0xFF) OR 0x0700), crt_pos s + 1)) = (m, pos)"
    by fastforce
  have nl: "crt_pos s + (80 - crt_pos s mod 80) \<le> 1920"
  proof -
    have "crt_pos s div 80 < 24" using assms by (simp add: on_screen_def less_mult_imp_div_less)
    moreover have "crt_pos s + (80 - crt_pos s mod 80) = (crt_pos s div 80 + 1) * 80"
      by presburger
    ultimately show ?thesis by simp
  qed
  have p: "pos \<le> 1920" and m: "\<forall>i\<ge>1920. m i = crt s i"
    using mp assms nl by (auto simp: on_screen_def split: if_splits)
  obtain m' pos' where sc: "cga_scroll (m, pos) = (m', pos')" by fastforce
  have "cgaputc c s = s\<lparr>crt := m'(pos' := 0x20 OR 0x0700), crt_pos := pos'\<rparr>"
    unfolding cgaputc_def Let_def mp by (simp add: sc)
  then show ?thesis using cga_scroll_bounds [OF p sc] m by (auto simp: on_screen_def)
qed

lemma uartputc_simps [simp]:
  "crt (uartputc c s) = crt s" "crt_pos (uartputc c s) = crt_pos s" "panicked (uartputc c s) = panicked s"
  "inp (uartputc c s) = inp s" "ptable (uartputc c s) = ptable s" "curproc (uartputc c s) = curproc s"
  by (simp_all add: uartputc_def)

lemma cgaputc_frame [simp]: "panicked (cgaputc c s) = panicked s" "inp (cgaputc c s) = inp s" "ptable (cgaputc c s) = ptable s"
  "curproc (cgaputc c s) = curproc s"
  by (simp_all add: cgaputc_def Let_def split: prod.split)

text \<open>What printing leaves alone.\<close>

definition printed :: "'z cons_st_scheme \<Rightarrow> 'z cons_st_scheme \<Rightarrow> bool" where
  "printed s t \<longleftrightarrow> panicked t = panicked s \<and> inp t = inp s \<and> ptable t = ptable s \<and> curproc t = curproc s
     \<and> (on_screen s \<longrightarrow> on_screen t \<and> (\<forall>i\<ge>24 * 80. crt t i = crt s i))"

lemma printed_refl [simp]: "printed s s"
  by (simp add: printed_def)

lemma printed_trans: "printed s t \<Longrightarrow> printed t u \<Longrightarrow> printed s u"
  by (auto simp: printed_def)

lemma wp_consputc: "\<not> panicked s \<Longrightarrow> wp (consputc c s) (\<lambda>_ t. printed s t)"
  using cgaputc_on_screen [of "uartputc c s" c]
    cgaputc_on_screen [of "uartputc 8 (uartputc 32 (uartputc 8 s))" c]
  by (auto simp: consputc_def printed_def on_screen_def)

lemma wp_for_printed:
  assumes "\<And>x t. printed s t \<Longrightarrow> wp (f x t) (\<lambda>_ u. printed t u)"
  shows "wp (for_each f xs s) (\<lambda>_ t. printed s t)"
proof -
  have "printed s t \<Longrightarrow> wp (for_each f xs t) (\<lambda>_ u. printed s u)" for t
  proof (induction xs arbitrary: t)
    case (Cons x xs)
    show ?case unfolding for_each.simps wp_bind
      by (rule wp_mono [OF assms [OF Cons.prems]]) (metis Cons.IH Cons.prems printed_trans)
  qed simp
  then show ?thesis by simp
qed

lemma wp_putbytes: "\<not> panicked s \<Longrightarrow> wp (putbytes bs s) (\<lambda>_ t. printed s t)"
  unfolding putbytes_def by (rule wp_for_printed) (rule wp_consputc, simp add: printed_def)

lemma wp_cprintf: "\<not> panicked s \<Longrightarrow> cprintf_out fmt as \<noteq> None \<Longrightarrow> wp (cprintf fmt as s) (\<lambda>_ t. printed s t)"
  by (auto simp: cprintf_def wp_putbytes)



subsection \<open>The line editor\<close>

text \<open>The bytes readers may have, and the line being edited.\<close>

definition committed :: "input \<Rightarrow> u8 list" where
  "committed q = ring_bytes (in_buf q) (in_r q) (in_w q)"

definition editing :: "input \<Rightarrow> u8 list" where
  "editing q = ring_bytes (in_buf q) (in_w q) (in_e q)"

definition in_ok :: "input \<Rightarrow> bool" where
  "in_ok q \<longleftrightarrow> length (in_buf q) = INPUT_BUF \<and> unat (in_e q - in_r q) \<le> INPUT_BUF
     \<and> unat (in_w q - in_r q) \<le> unat (in_e q - in_r q) \<and> 10 \<notin> set (editing q)"

lemma ring_diff:
  "unat (w - r :: u32) \<le> unat (e - r) \<Longrightarrow> unat (e - w) = unat (e - r) - unat (w - r)"
proof -
  assume le: "unat (w - r :: u32) \<le> unat (e - r)"
  have "e - w = (e - r) - (w - r)" by simp
  then show ?thesis using le by (metis unat_sub word_le_nat_alt)
qed

lemma ring_bytes_split:
  assumes le: "unat (w - r) \<le> unat (e - r)"
  shows "ring_bytes d r e = ring_bytes d r w @ ring_bytes d w e"
proof -
  let ?a = "unat (w - r)" and ?b = "unat (e - w)"
  have n: "unat (e - r) = ?a + ?b" using ring_diff [OF le] le by simp
  have w: "r + of_nat ?a = w" by simp
  have "ring_bytes d r e ! k = (ring_bytes d r w @ ring_bytes d w e) ! k" if k: "k < ?a + ?b" for k
  proof (cases "k < ?a")
    case False
    then have "r + of_nat k = w + of_nat (k - ?a)" using w by (simp add: of_nat_diff)
    then show ?thesis using False k n by (simp add: ring_bytes_def nth_append add.commute)
  qed (use k n in \<open>simp add: ring_bytes_def nth_append\<close>)
  then show ?thesis using n by (intro nth_equalityI) simp_all
qed

lemma ring_bytes_last:
  assumes "w \<noteq> e"
  shows "ring_bytes d w e = ring_bytes d w (e - 1) @ [ring_get d (e - 1)]"
proof -
  have ne: "e - w \<noteq> 0" using assms by simp
  have "e - 1 - w = (e - w) - 1" by simp
  then have n: "unat (e - w) = Suc (unat (e - 1 - w))"
    using ne by (metis Suc_pred' unat_gt_0 unat_minus_one)
  have "w + of_nat (unat (e - 1 - w)) = e - 1" by simp
  then show ?thesis by (simp add: ring_bytes_def n)
qed

lemma length_tty:
  "in_ok q \<Longrightarrow> length (committed q) + length (editing q) = unat (in_e q - in_r q)"
  using ring_diff [of "in_w q" "in_r q" "in_e q"] by (simp add: in_ok_def committed_def editing_def)

text \<open>The specification: one typed character.\<close>

definition tty_char :: "int \<Rightarrow> u8 list \<times> u8 list \<Rightarrow> u8 list \<times> u8 list" where
  "tty_char c = (\<lambda>(q, l).
     if c = ctrl CHR ''Z'' \<or> c = ctrl CHR ''P'' then (q, l)
     else if c = ctrl CHR ''U'' then (q, [])
     else if c = ctrl CHR ''H'' \<or> c = 127 then (q, butlast l)
     else if c = 0 \<or> length q + length l \<ge> INPUT_BUF then (q, l)
     else let b = (if c = 13 then 10 else word_of_int c); l = l @ [b] in
          if b = 10 \<or> b = 4 \<or> length q + length l = INPUT_BUF then (q @ l, []) else (q, l))"

definition tty :: "input \<Rightarrow> u8 list \<times> u8 list" where
  "tty q = (committed q, editing q)"

lemma in_back:
  assumes ok: "in_ok q" and ne: "in_e q \<noteq> in_w q"
  defines "q' \<equiv> q\<lparr>in_e := in_e q - 1\<rparr>"
  shows "in_ok q' \<and> committed q' = committed q \<and> editing q' = butlast (editing q)
    \<and> unat (in_e q - in_w q) = Suc (unat (in_e q' - in_w q'))"
proof -
  have ed: "editing q = editing q' @ [ring_get (in_buf q) (in_e q - 1)]"
    using ring_bytes_last [of "in_w q" "in_e q"] ne by (simp add: editing_def q'_def)
  have len: "length (committed q) + length (editing q) = unat (in_e q - in_r q)" by (rule length_tty [OF ok])
  then have "in_e q - in_r q \<noteq> 0" using ed by auto
  moreover have "in_e q - 1 - in_r q = (in_e q - in_r q) - 1" by simp
  ultimately have n: "unat (in_e q - in_r q) = Suc (unat (in_e q - 1 - in_r q))"
    by (metis Suc_pred' unat_gt_0 unat_minus_one)
  have "length (committed q) \<le> unat (in_e q - 1 - in_r q)" using n len ed by simp
  then have "in_ok q'" using ok n ed by (simp add: in_ok_def q'_def committed_def)
  moreover have "unat (in_e q - in_w q) = Suc (unat (in_e q' - in_w q'))"
    using arg_cong [OF ed, of length] by (simp add: editing_def)
  ultimately show ?thesis using ed by (simp add: committed_def q'_def)
qed

lemma not_at_newline:
  assumes ok: "in_ok q" and ne: "in_e q \<noteq> in_w q"
  shows "\<not> at_newline q"
proof -
  have "editing q = ring_bytes (in_buf q) (in_w q) (in_e q - 1) @ [ring_get (in_buf q) (in_e q - 1)]"
    using ring_bytes_last [of "in_w q" "in_e q"] ne by (simp add: editing_def)
  then have "ring_get (in_buf q) (in_e q - 1) \<noteq> 10" using ok by (auto simp: in_ok_def)
  then show ?thesis using ok by (simp add: at_newline_def ring_get_def in_ok_def)
qed

lemma kill_count_all: "in_ok q \<Longrightarrow> unat (in_e q - in_w q) = n \<Longrightarrow> kill_count n q = n"
proof (induction n arbitrary: q)
  case (Suc n)
  then have ne: "in_e q \<noteq> in_w q" by auto
  show ?case using Suc not_at_newline [OF Suc.prems(1) ne] in_back [OF Suc.prems(1) ne] ne by simp
qed simp

lemma in_kill_all:
  assumes ok: "in_ok q"
  shows "in_kill q = (unat (in_e q - in_w q), q\<lparr>in_e := in_w q\<rparr>)"
  using kill_count_all [OF ok refl] by (simp add: in_kill_def Let_def)

lemma in_ok_killed: "in_ok q \<Longrightarrow> in_ok (q\<lparr>in_e := in_w q\<rparr>)"
  by (simp add: in_ok_def editing_def)

lemma in_put_ring:
  assumes ok: "in_ok q" and room: "in_e q - in_r q < of_nat INPUT_BUF"
  shows "committed (in_put b q) = committed q \<and> editing (in_put b q) = editing q @ [b]
    \<and> unat (in_e (in_put b q) - in_r q) = Suc (unat (in_e q - in_r q))
    \<and> length (in_buf (in_put b q)) = INPUT_BUF \<and> unat (in_e q - in_r q) < INPUT_BUF"
proof -
  let ?d = "in_buf q" and ?r = "in_r q" and ?w = "in_w q" and ?e = "in_e q"
  have l: "length ?d = 128" and le: "unat (?w - ?r) \<le> unat (?e - ?r)" using ok by (simp_all add: in_ok_def)
  have lt: "unat (?e - ?r) < 128" using room by (simp add: word_less_nat_alt)
  have e1: "unat (?e + 1 - ?r) = Suc (unat (?e - ?r))" using lt by (intro unat_Suc_diff) simp
  have le1: "unat (?w - ?r) \<le> unat (?e + 1 - ?r)" using le e1 by simp
  let ?d' = "ring_set ?d ?e b"
  have "ring_bytes ?d' ?r (?e + 1) = ring_bytes ?d ?r ?e @ [b]" using lt l by (intro ring_bytes_push) simp_all
  then have "ring_bytes ?d' ?r ?w @ ring_bytes ?d' ?w (?e + 1) = ring_bytes ?d ?r ?w @ (ring_bytes ?d ?w ?e @ [b])"
    using ring_bytes_split [OF le1, of ?d'] ring_bytes_split [OF le, of ?d] by simp
  then have "ring_bytes ?d' ?r ?w = ring_bytes ?d ?r ?w \<and> ring_bytes ?d' ?w (?e + 1) = ring_bytes ?d ?w ?e @ [b]"
    by (subst (asm) append_eq_append_conv) simp_all
  then show ?thesis using l lt e1 by (simp add: in_put_def committed_def editing_def ring_set_def)
qed

lemma in_char_spec:
  assumes ok: "in_ok q" and c: "0 \<le> c" "c < 256"
  shows "case in_char c q of
      None \<Rightarrow> c = 0 \<or> length (committed q) + length (editing q) \<ge> INPUT_BUF
    | Some (c', wake, q') \<Rightarrow> c \<noteq> 0 \<and> length (committed q) + length (editing q) < INPUT_BUF \<and> in_ok q' \<and>
        (let b = (if c = 13 then 10 else word_of_int c); l = editing q @ [b] in
         tty q' = (if b = 10 \<or> b = 4 \<or> length (committed q) + length l = INPUT_BUF then (committed q @ l, [])
                   else (committed q, l)))"
proof (cases "c \<noteq> 0 \<and> in_e q - in_r q < of_nat INPUT_BUF")
  case False
  then show ?thesis using length_tty [OF ok] by (auto simp: in_char_def word_less_nat_alt)
next
  case True
  define b :: u8 where "b = (if c = 13 then 10 else word_of_int c)"
  define q1 where "q1 = in_put b q"
  define wake where "wake \<longleftrightarrow> b = 10 \<or> b = 4 \<or> in_e q1 = in_r q1 + 128"
  note put = in_put_ring [OF ok, of b, folded q1_def]
  have P: "committed q1 = committed q" "editing q1 = editing q @ [b]"
    "unat (in_e q1 - in_r q) = Suc (unat (in_e q - in_r q))" "length (in_buf q1) = 128" "unat (in_e q - in_r q) < 128"
    using put True by simp_all
  have r: "in_r q1 = in_r q" "in_w q1 = in_w q" by (simp_all add: q1_def in_put_def)
  have u: "uint (word_of_int c :: u8) = c" using c by (simp add: unsigned_of_int take_bit_eq_mod)
  have w: "word_of_int c = (k :: u8) \<longleftrightarrow> c = uint k" for k using u by auto
  have cb: "(if c = 13 then 10 else c) = 10 \<longleftrightarrow> b = 10" "(if c = 13 then 10 else c) = ctrl CHR ''D'' \<longleftrightarrow> b = 4"
    "word_of_int (if c = 13 then 10 else c) = b"
    using w [of 10] w [of 4] by (auto simp: b_def ctrl_def)
  have ic: "in_char c q = Some (if c = 13 then 10 else c, wake, if wake then q1\<lparr>in_w := in_e q1\<rparr> else q1)"
    using True cb by (simp add: in_char_def Let_def q1_def wake_def)
  have full: "in_e q1 = in_r q1 + 128 \<longleftrightarrow> length (committed q) + length (editing q @ [b]) = 128"
  proof -
    have "in_e q1 = in_r q1 + 128 \<longleftrightarrow> in_e q1 - in_r q1 = 128" by (simp add: algebra_simps)
    also have "\<dots> \<longleftrightarrow> unat (in_e q1 - in_r q) = 128" by (subst word_unat_eq_iff) (simp add: r)
    finally show ?thesis using P(3) length_tty [OF ok] by simp
  qed
  have le: "unat (in_w q1 - in_r q1) \<le> unat (in_e q1 - in_r q1)" using ok P(3) r by (simp add: in_ok_def)
  show ?thesis
  proof (cases wake)
    case w: True
    have "ring_bytes (in_buf q1) (in_r q1) (in_e q1) = committed q @ editing q @ [b]"
      using ring_bytes_split [OF le, of "in_buf q1"] P(1,2) by (simp add: committed_def editing_def)
    then show ?thesis
      using ic w True P full r length_tty [OF ok]
      by (auto simp: wake_def b_def [symmetric] Let_def tty_def committed_def editing_def in_ok_def)
  next
    case w: False
    then have "in_ok q1" using ok P r by (auto simp: in_ok_def wake_def committed_def)
    then show ?thesis
      using ic w True P full r length_tty [OF ok] by (auto simp: wake_def b_def [symmetric] Let_def tty_def)
  qed
qed

lemma wp_procdump: "\<not> panicked s \<Longrightarrow> wp (procdump s) (\<lambda>_ t. printed s t)"
proof -
  have pcs: "wp (for_each (\<lambda>pc s. cprintf (cstr '' %p'') [CWord pc] s) xs s) (\<lambda>_ t. printed s t)"
    if "\<not> panicked s" for xs and s :: "'a cons_st_scheme"
    by (rule wp_for_printed, rule wp_cprintf) (use that in \<open>simp_all add: printed_def cstr_def\<close>)
  have one: "wp (procdump_one i s) (\<lambda>_ t. printed s t)" if np: "\<not> panicked s" for i and s :: "'a cons_st_scheme"
  proof (cases "p_state (ptable s i) = UNUSED")
    case False
    let ?a = "[CWord (word_of_int (p_pid (ptable s i))), CStr (Some (state_name (p_state (ptable s i)))),
       CStr (Some (takeWhile (\<lambda>b. b \<noteq> 0) (p_name (ptable s i))))]"
    have "wp (cprintf (cstr ''%d %s %s'') ?a s) (\<lambda>_ t. printed s t)"
      by (rule wp_cprintf [OF np]) (simp add: cstr_def)
    then show ?thesis
      unfolding procdump_one_def Let_def if_not_P [OF False] wp_bind
    proof (rule wp_mono)
      fix a :: unit and t :: "'a cons_st_scheme" assume t: "printed s t"
      then have nt: "\<not> panicked t" using np by (simp add: printed_def)
      have "wp (if p_state (ptable s i) = SLEEPING then for_each (\<lambda>pc s. cprintf (cstr '' %p'') [CWord pc] s)
          (takeWhile (\<lambda>pc. pc \<noteq> 0) (getstackpcs (mem t) (c_rbp (p_context (ptable s i)) + 16))) t else Ok () t)
          (\<lambda>_ u. printed t u)"
        using pcs [OF nt] by simp
      then show "wp (if p_state (ptable s i) = SLEEPING then for_each (\<lambda>pc s. cprintf (cstr '' %p'') [CWord pc] s)
          (takeWhile (\<lambda>pc. pc \<noteq> 0) (getstackpcs (mem t) (c_rbp (p_context (ptable s i)) + 16))) t else Ok () t)
          (\<lambda>_ u. wp (putbytes [10] u) (\<lambda>_ v. printed s v))"
      proof (rule wp_mono)
        fix b :: unit and u :: "'a cons_st_scheme"
        assume u: "printed t u"
        then have "\<not> panicked u" using nt by (simp add: printed_def)
        from wp_putbytes [OF this] show "wp (putbytes [10] u) (\<lambda>_ v. printed s v)"
          by (rule wp_mono) (blast intro: printed_trans t u)
      qed
    qed
  qed (simp add: procdump_one_def)
  show "\<not> panicked s \<Longrightarrow> wp (procdump s) (\<lambda>_ t. printed s t)"
    unfolding procdump_def by (rule wp_for_printed, rule one) (simp add: printed_def)
qed

lemma wp_consoleintr_char:
  assumes ok: "in_ok (inp s)" and np: "\<not> panicked s" and c: "0 \<le> c" "c < 256"
  shows "wp (consoleintr_char c s) (\<lambda>_ t. in_ok (inp t) \<and> \<not> panicked t \<and> tty (inp t) = tty_char c (tty (inp s)))"
proof -
  let ?Q = "\<lambda>_ t. in_ok (inp t) \<and> \<not> panicked t \<and> tty (inp t) = tty_char c (tty (inp s))"
  have pr: "wp m ?Q" if "wp m (\<lambda>_ t. printed (s\<lparr>inp := q\<rparr>) t)" "in_ok q" "tty q = tty_char c (tty (inp s))" for m q
    by (rule wp_mono [OF that(1)]) (use that(2,3) np in \<open>simp add: printed_def\<close>)
  have np': "\<not> panicked (s\<lparr>inp := q\<rparr>)" for q using np by simp
  consider (z) "c = ctrl CHR ''Z''" | (p) "c = ctrl CHR ''P''" | (u) "c = ctrl CHR ''U''"
    | (h) "c = ctrl CHR ''H'' \<or> c = 127"
    | (d) "c \<noteq> ctrl CHR ''Z''" "c \<noteq> ctrl CHR ''P''" "c \<noteq> ctrl CHR ''U''" "\<not> (c = ctrl CHR ''H'' \<or> c = 127)"
    by blast
  then show ?thesis
  proof cases
    case z
    then show ?thesis using ok np by (simp add: consoleintr_char_def tty_char_def tty_def)
  next
    case p
    then have run: "consoleintr_char c s = procdump (s\<lparr>inp := inp s\<rparr>)" by (simp add: consoleintr_char_def ctrl_def)
    show ?thesis unfolding run
      by (rule pr [OF wp_procdump [OF np'] ok]) (simp add: p tty_char_def tty_def)
  next
    case u
    let ?q = "(inp s)\<lparr>in_e := in_w (inp s)\<rparr>"
    have run: "consoleintr_char c s = for_each (\<lambda>_ s. consputc BACKSPACE s) [0..<unat (in_e (inp s) - in_w (inp s))] (s\<lparr>inp := ?q\<rparr>)"
      using u in_kill_all [OF ok] by (simp add: consoleintr_char_def ctrl_def)
    have w: "wp (consoleintr_char c s) (\<lambda>_ t. printed (s\<lparr>inp := ?q\<rparr>) t)"
      unfolding run by (rule wp_for_printed, rule wp_consputc) (use np in \<open>simp add: printed_def\<close>)
    show ?thesis
      by (rule pr [OF w in_ok_killed [OF ok]]) (simp add: u tty_char_def tty_def committed_def editing_def ctrl_def)
  next
    case h
    show ?thesis
    proof (cases "in_e (inp s) = in_w (inp s)")
      case True
      then have "editing (inp s) = []" by (simp add: editing_def)
      then show ?thesis using h ok np True by (auto simp: consoleintr_char_def tty_char_def tty_def ctrl_def)
    next
      case False
      let ?q = "(inp s)\<lparr>in_e := in_e (inp s) - 1\<rparr>"
      have run: "consoleintr_char c s = consputc BACKSPACE (s\<lparr>inp := ?q\<rparr>)"
        using h False by (auto simp: consoleintr_char_def ctrl_def)
      have "tty ?q = tty_char c (tty (inp s))" using h in_back [OF ok False] by (auto simp: tty_char_def tty_def ctrl_def)
      then show ?thesis unfolding run using in_back [OF ok False] by (intro pr [OF wp_consputc [OF np']]) auto
    qed
  next
    case d
    show ?thesis
    proof (cases "in_char c (inp s)")
      case None
      then show ?thesis using d ok np in_char_spec [OF ok c] by (auto simp: consoleintr_char_def tty_char_def tty_def)
    next
      case (Some r)
      obtain c' wake q where r: "r = (c', wake, q)" by (cases r)
      have t: "in_ok q" "tty q = tty_char c (tty (inp s))"
        using in_char_spec [OF ok c] Some r d by (auto simp: tty_char_def tty_def Let_def)
      have run: "consoleintr_char c s = bindR (consputc c' (s\<lparr>inp := q\<rparr>)) (\<lambda>_ s. Ok () (if wake then wakeup InputChan s else s))"
        using d Some r by (simp add: consoleintr_char_def)
      show ?thesis unfolding run wp_bind
        by (rule wp_mono [OF pr [OF wp_consputc [OF np'] t]]) (simp add: wakeup_def wakeup1_def)
    qed
  qed
qed

text \<open>
  C27. The console's input is a line editor: whatever characters arrive, the ring with its three
  wrapping indices holds exactly what the specification on two lists says (typing appends, backspace
  drops the last character, control-U the whole line, a newline, control-D or a full buffer commits
  the line), readers never see an uncommitted byte, and the interrupt handler returns.
\<close>

theorem console_line_editor:
  fixes s :: "'z cons_st_scheme"
  assumes "in_ok (inp s)" and "\<not> panicked s" and "\<forall>c\<in>set cs. 0 \<le> c \<and> c < 256"
  shows "\<exists>t. consoleintr cs s = Ok () t \<and> in_ok (inp t)
       \<and> (committed (inp t), editing (inp t)) = fold tty_char cs (committed (inp s), editing (inp s))"
proof -
  have "in_ok (inp s) \<Longrightarrow> \<not> panicked s \<Longrightarrow> \<forall>c\<in>set cs. 0 \<le> c \<and> c < 256 \<Longrightarrow>
      wp (for_each consoleintr_char cs s) (\<lambda>_ t. in_ok (inp t) \<and> tty (inp t) = fold tty_char cs (tty (inp s)))" for s :: "'z cons_st_scheme"
  proof (induction cs arbitrary: s)
    case (Cons c cs)
    have "wp (consoleintr_char c s) (\<lambda>_ t. in_ok (inp t) \<and> \<not> panicked t \<and> tty (inp t) = tty_char c (tty (inp s)))"
      by (rule wp_consoleintr_char) (use Cons.prems in auto)
    then show ?case unfolding for_each.simps wp_bind
    proof (rule wp_mono)
      fix a :: unit and t :: "'z cons_st_scheme"
      assume t: "in_ok (inp t) \<and> \<not> panicked t \<and> tty (inp t) = tty_char c (tty (inp s))"
      then have "wp (for_each consoleintr_char cs t) (\<lambda>_ u. in_ok (inp u) \<and> tty (inp u) = fold tty_char cs (tty (inp t)))"
        using Cons.IH [of t] Cons.prems(3) by simp
      then show "wp (for_each consoleintr_char cs t) (\<lambda>_ u. in_ok (inp u) \<and> tty (inp u) = fold tty_char (c # cs) (tty (inp s)))"
        using t by simp
    qed
  qed simp
  from this [OF assms] show ?thesis by (auto simp: consoleintr_def tty_def elim: wpE)
qed

theorem console_line_editor_witness:
  "\<exists>t. consoleintr [97, 98, 8, 99, 13, 120] cons_boot = Ok () t \<and> committed (inp t) = [97, 99, 10] \<and> editing (inp t) = [120]"
proof -
  have "in_ok (inp cons_boot)" by (simp add: in_ok_def editing_def)
  from console_line_editor [OF this, of "[97, 98, 8, 99, 13, 120]"] show ?thesis
    by (auto simp: committed_def editing_def tty_char_def ctrl_def)
qed

subsection \<open>Reading\<close>

text \<open>Taking one committed byte.\<close>

lemma in_get:
  assumes ok: "in_ok q" and ne: "in_r q \<noteq> in_w q"
  defines "q' \<equiv> q\<lparr>in_r := in_r q + 1\<rparr>"
  shows "in_ok q' \<and> editing q' = editing q \<and> committed q = in_buf q ! (unat (in_r q) mod INPUT_BUF) # committed q'"
proof -
  have c: "committed q = ring_get (in_buf q) (in_r q) # committed q'"
    unfolding committed_def q'_def using ring_bytes_pop [OF ne] by simp
  have all: "ring_bytes (in_buf q) (in_r q) (in_e q) = committed q @ editing q"
    using ring_bytes_split [of "in_w q" "in_r q" "in_e q"] ok by (simp add: in_ok_def committed_def editing_def)
  then have "in_r q \<noteq> in_e q" using c by auto
  then have "ring_bytes (in_buf q) (in_r q) (in_e q) = ring_get (in_buf q) (in_r q) # ring_bytes (in_buf q) (in_r q + 1) (in_e q)"
    by (rule ring_bytes_pop)
  then have "ring_bytes (in_buf q) (in_r q + 1) (in_e q) = committed q' @ editing q" using all c by simp
  then have len: "unat (in_e q - (in_r q + 1)) = length (committed q') + length (editing q)"
    by (metis length_append length_ring_bytes)
  moreover have "unat (in_e q - in_r q) = Suc (length (committed q') + length (editing q))"
    using length_tty [OF ok] c by simp
  moreover have "unat (in_w q - (in_r q + 1)) = length (committed q')" by (simp add: committed_def q'_def)
  ultimately have "in_ok q'" using ok by (simp add: in_ok_def q'_def editing_def)
  then show ?thesis using c ok by (simp add: ring_get_def in_ok_def editing_def q'_def)
qed

lemma cons_take_spec:
  "in_ok q \<Longrightarrow> n \<le> target \<Longrightarrow> cons_take target n q = (bs, fin, q') \<Longrightarrow>
     in_ok q' \<and> editing q' = editing q
   \<and> (\<exists>rest. committed q = bs @ rest \<and> 4 \<notin> set bs \<and> 10 \<notin> set (butlast bs) \<and> length bs \<le> n
       \<and> (\<not> fin \<longrightarrow> rest = [] \<and> length bs < n \<and> 10 \<notin> set bs)
       \<and> (fin \<longrightarrow> length bs = n \<or> bs \<noteq> [] \<and> last bs = 10 \<or> rest \<noteq> [] \<and> hd rest = 4)
       \<and> committed q' = (if fin \<and> bs = [] \<and> 0 < n \<and> n = target then tl rest else rest))"
proof (induction n arbitrary: q bs fin q')
  case (Suc n)
  show ?case
  proof (cases "in_r q = in_w q")
    case True
    then have "committed q = []" by (simp add: committed_def)
    then show ?thesis using Suc.prems True by auto
  next
    case False
    define c where "c = in_buf q ! (unat (in_r q) mod INPUT_BUF)"
    define q1 where "q1 = q\<lparr>in_r := in_r q + 1\<rparr>"
    have g: "in_ok q1" "editing q1 = editing q" "committed q = c # committed q1"
      using in_get [OF Suc.prems(1) False] by (simp_all add: c_def q1_def)
    have step: "cons_take target (Suc n) q = (if c = 4 then ([], True, if Suc n < target then q else q1)
        else if c = 10 then ([c], True, q1)
        else let (bs, done, q'') = cons_take target n q1 in (c # bs, done, q''))"
      using False by (simp add: c_def q1_def Let_def)
    show ?thesis
    proof (cases "c = 4 \<or> c = 10")
      case True
      then show ?thesis using step g Suc.prems by auto
    next
      case nc: False
      obtain bs1 fin1 q2 where t: "cons_take target n q1 = (bs1, fin1, q2)" by (cases "cons_take target n q1")
      have e: "bs = c # bs1" "fin = fin1" "q' = q2" using step t nc Suc.prems(3) by auto
      obtain rest where "in_ok q2" "editing q2 = editing q1" "committed q1 = bs1 @ rest" "4 \<notin> set bs1"
          "10 \<notin> set (butlast bs1)" "length bs1 \<le> n"
          "\<not> fin1 \<longrightarrow> rest = [] \<and> length bs1 < n \<and> 10 \<notin> set bs1"
          "fin1 \<longrightarrow> length bs1 = n \<or> bs1 \<noteq> [] \<and> last bs1 = 10 \<or> rest \<noteq> [] \<and> hd rest = 4"
          "committed q2 = rest"
        using Suc.IH [OF g(1) _ t] Suc.prems(2) by auto
      then show ?thesis using e g nc by auto
    qed
  qed
qed auto

text \<open>
  C28. A read of the console takes the committed bytes in order and stops at the end of a line or of
  the input: it delivers no more than asked for, nothing after a newline, never the control-D that
  marks the end of file (which is consumed only by a read that returns nothing), and it waits only when no
  committed byte is left.
\<close>

theorem console_reads_lines:
  assumes "in_ok q" and "cons_take n n q = (bs, fin, q')"
  shows "\<exists>rest. committed q = bs @ rest \<and> editing q' = editing q \<and> in_ok q'
       \<and> length bs \<le> n \<and> 4 \<notin> set bs \<and> 10 \<notin> set (butlast bs)
       \<and> (\<not> fin \<longrightarrow> committed q' = [] \<and> length bs < n \<and> 10 \<notin> set bs)
       \<and> (fin \<longrightarrow> length bs = n \<or> bs \<noteq> [] \<and> last bs = 10 \<or> rest \<noteq> [] \<and> hd rest = 4)
       \<and> committed q' = (if fin \<and> bs = [] \<and> 0 < n then tl rest else rest)"
proof -
  obtain rest where "in_ok q'" "editing q' = editing q" "committed q = bs @ rest" "4 \<notin> set bs" "10 \<notin> set (butlast bs)"
      "length bs \<le> n" "\<not> fin \<longrightarrow> rest = [] \<and> length bs < n \<and> 10 \<notin> set bs"
      "fin \<longrightarrow> length bs = n \<or> bs \<noteq> [] \<and> last bs = 10 \<or> rest \<noteq> [] \<and> hd rest = 4"
      "committed q' = (if fin \<and> bs = [] \<and> 0 < n \<and> n = n then tl rest else rest)"
    using cons_take_spec [OF assms(1) order_refl assms(2)] by blast
  then show ?thesis by (intro exI [of _ rest]) simp
qed

theorem console_reads_lines_witness:
  "\<exists>q q'. cons_take (Suc (Suc (Suc (Suc 0)))) (Suc (Suc (Suc (Suc 0)))) q = ([104, 105, 10], True, q') \<and> in_ok q \<and> committed q = [104, 105, 10] @ committed q'"
proof -
  define q where "q = \<lparr>in_buf = [104, 105, 10, 4] @ replicate 124 0, in_r = 0, in_w = 4, in_e = 4\<rparr>"
  have ok: "in_ok q" by (simp add: q_def in_ok_def editing_def)
  have t: "cons_take (Suc (Suc (Suc (Suc 0)))) (Suc (Suc (Suc (Suc 0)))) q = ([104, 105, 10], True, q\<lparr>in_r := 3\<rparr>)"
    by (simp add: q_def nth_append)
  have "committed q = [104, 105, 10] @ committed (q\<lparr>in_r := 3\<rparr>)" using console_reads_lines [OF ok t] by auto
  then show ?thesis using t ok by blast
qed

end
