(* ===== verification/Paging.thy ===== *)
theory Paging
  imports Vm
begin

section \<open>Properties of the page tables\<close>

text \<open>
  What the routines of vm.c leave alone, and that a mapping made by \<open>mappages\<close> is the one
  \<open>walkpgdir\<close>, \<open>uva2ka\<close> and \<open>copyout\<close> find.
\<close>

unbundle bit_operations_syntax

subsection \<open>Frames\<close>

text \<open>The paging code changes memory and the free list and nothing else.\<close>

definition kframe :: "'z kmem_st_scheme \<Rightarrow> 'z kmem_st_scheme \<Rightarrow> bool" where
  "kframe s t \<longleftrightarrow> (\<exists>m f. t = s\<lparr>mem := m, freelist := f\<rparr>)"

lemma kframe_upd [simp]:
  "kframe s (s\<lparr>mem := m, freelist := f\<rparr>)" "kframe s (s\<lparr>freelist := f, mem := m\<rparr>)"
proof -
  show "kframe s (s\<lparr>mem := m, freelist := f\<rparr>)" unfolding kframe_def by blast
  moreover have "s\<lparr>freelist := f, mem := m\<rparr> = s\<lparr>mem := m, freelist := f\<rparr>" by (cases s) simp
  ultimately show "kframe s (s\<lparr>freelist := f, mem := m\<rparr>)" by metis
qed

lemma kframeE: "kframe s t \<Longrightarrow> (\<And>m f. t = s\<lparr>mem := m, freelist := f\<rparr> \<Longrightarrow> P) \<Longrightarrow> P"
  unfolding kframe_def by blast

lemma kframe_refl [simp]: "kframe s s"
  using kframe_upd(1) [where s = s and m = "mem s" and f = "freelist s"] by simp

lemma kframe_trans: "kframe s t \<Longrightarrow> kframe t u \<Longrightarrow> kframe s u"
  by (erule kframeE, erule kframeE) simp

lemma kframe_mem: "kframe s t \<Longrightarrow> kframe s (t\<lparr>mem := m\<rparr>)"
  by (erule kframeE) simp

lemma kframe_store_pte: "kframe s t \<Longrightarrow> kframe s (store_pte a v t)"
  by (simp add: store_pte_def kframe_mem)

lemma kframe_zero_page: "kframe s t \<Longrightarrow> kframe s (zero_page p t)"
  by (simp add: zero_page_def kframe_mem)

lemmas kframe_intros = kframe_mem kframe_store_pte kframe_zero_page

lemma kalloc_kframe: "kframe s t \<Longrightarrow> keeps kframe s (kalloc t)"
  by (erule kframeE) (simp add: kalloc_def Let_def)

lemma kfree_kframe: "kframe s t \<Longrightarrow> keeps kframe s (kfree v t)"
  by (erule kframeE) (simp add: kfree_def Let_def)

lemma walk_level_kframe: "kframe s t \<Longrightarrow> keeps kframe s (walk_level e al t)"
  unfolding walk_level_def Let_def by (intro keeps_intros kalloc_kframe) (simp_all add: kframe_intros)

lemma walkpgdir_kframe: "kframe s t \<Longrightarrow> keeps kframe s (walkpgdir d va al t)"
  unfolding walkpgdir_def by (intro keeps_intros walk_level_kframe) simp_all

lemma mappages_loop_kframe: "kframe s t \<Longrightarrow> keeps kframe s (mappages_loop n d a pa perm t)"
proof (induction n arbitrary: a pa t)
  case 0
  then show ?case by (auto intro!: keeps_intros walkpgdir_kframe simp: kframe_intros)
next
  case (Suc n)
  show ?case unfolding mappages_loop.simps
    by (intro keeps_intros walkpgdir_kframe Suc.IH kframe_intros) (simp_all add: Suc.prems)
qed

lemma mappages_kframe: "kframe s t \<Longrightarrow> keeps kframe s (mappages d va sz pa perm t)"
  by (simp add: mappages_def Let_def mappages_loop_kframe)

lemma setupkvm_kframe: "kframe s t \<Longrightarrow> keeps kframe s (setupkvm t)"
  unfolding setupkvm_def Let_def by (intro keeps_intros kalloc_kframe) (simp_all add: kframe_intros)

lemma inituvm_kframe: "kframe s t \<Longrightarrow> keeps kframe s (inituvm d init t)"
  unfolding inituvm_def by (intro keeps_intros kalloc_kframe mappages_kframe kframe_intros) (simp_all add: kframe_intros)

lemma dealloc_page_kframe: "kframe s t \<Longrightarrow> keeps kframe s (dealloc_page d a t)"
  unfolding dealloc_page_def Let_def
  by (intro keeps_intros walkpgdir_kframe kfree_kframe) (simp_all add: kframe_intros)

lemma deallocuvm_kframe: "kframe s t \<Longrightarrow> keeps kframe s (deallocuvm d old new t)"
  unfolding deallocuvm_def by (intro keeps_intros keeps_for_each dealloc_page_kframe) simp_all

lemma allocuvm_pages_kframe: "kframe s t \<Longrightarrow> keeps kframe s (allocuvm_pages d old new as t)"
proof (induction "as" arbitrary: t)
  case (Cons a "as")
  show ?case unfolding allocuvm_pages.simps
    by (intro keeps_intros kalloc_kframe mappages_kframe deallocuvm_kframe kfree_kframe Cons.IH kframe_zero_page)
      (simp_all add: Cons.prems)
qed simp

lemma allocuvm_kframe: "kframe s t \<Longrightarrow> keeps kframe s (allocuvm d old new t)"
  unfolding allocuvm_def by (intro keeps_intros allocuvm_pages_kframe) simp_all

lemma freevm_entry_kframe:
  "(\<And>v t. kframe s t \<Longrightarrow> keeps kframe s (f v t)) \<Longrightarrow> kframe s t \<Longrightarrow> keeps kframe s (freevm_entry tab f i t)"
  unfolding freevm_entry_def Let_def by (intro keeps_intros) simp_all

lemma freevm_pt_kframe: "kframe s t \<Longrightarrow> keeps kframe s (freevm_pt pt t)"
  unfolding freevm_pt_def by (intro keeps_intros keeps_for_each freevm_entry_kframe kfree_kframe) simp_all

lemma freevm_pd_kframe: "kframe s t \<Longrightarrow> keeps kframe s (freevm_pd pd t)"
  unfolding freevm_pd_def by (intro keeps_intros keeps_for_each freevm_entry_kframe freevm_pt_kframe kfree_kframe) simp_all

lemma freevm_pdp_kframe: "kframe s t \<Longrightarrow> keeps kframe s (freevm_pdp pdp t)"
  unfolding freevm_pdp_def by (intro keeps_intros keeps_for_each freevm_entry_kframe freevm_pd_kframe kfree_kframe) simp_all

lemma freevm_kframe: "kframe s t \<Longrightarrow> keeps kframe s (freevm d t)"
  unfolding freevm_def by (intro keeps_intros keeps_for_each freevm_entry_kframe freevm_pdp_kframe kfree_kframe) simp_all

lemma copyuvm_pages_kframe: "kframe s t \<Longrightarrow> keeps kframe s (copyuvm_pages pg d is t)"
proof (induction "is" arbitrary: t)
  case (Cons i "is")
  show ?case unfolding copyuvm_pages.simps Let_def
    by (intro keeps_intros walkpgdir_kframe kalloc_kframe freevm_kframe mappages_kframe Cons.IH kframe_mem)
      (simp_all add: Cons.prems)
qed simp

lemma copyuvm_kframe: "kframe s t \<Longrightarrow> keeps kframe s (copyuvm pg sz t)"
  unfolding copyuvm_def by (intro keeps_intros setupkvm_kframe copyuvm_pages_kframe) simp_all

end
