(* ===== verification/Lifecycle.thy ===== *)
theory Lifecycle
  imports Proc Paging
begin

section \<open>Properties of processes\<close>

text \<open>
  Process identifiers stay unique, \<open>fork\<close> makes a copy of the caller with the reference counts that
  go with it, a process that exits wakes a parent waiting for it and hands its children to init,
  and \<open>wakeup\<close> and \<open>kill\<close> make exactly the processes runnable that they should.
\<close>

subsection \<open>fork\<close>

lemma kframe_fields:
  "kframe s t \<Longrightarrow> ptable t = ptable s \<and> curproc t = curproc s \<and> nextpid t = nextpid s \<and> initproc t = initproc s"
  by (erule kframeE) simp

lemma kframe_file_fields:
  "kframe s t \<Longrightarrow> ftable t = ftable s \<and> inodes t = inodes s"
  by (erule kframeE) simp

definition embryo :: "nat \<Rightarrow> addr_t \<Rightarrow> 'z sched_st_scheme \<Rightarrow> proc" where
  "embryo np k s = (ptable s np)\<lparr>p_state := EMBRYO, p_pid := nextpid s, p_kstack := k,
     p_context := zero_context\<lparr>c_rip := ForkretText\<rparr>\<rparr>"

lemma allocproc_Some:
  assumes "allocproc s = Ok (Some np) u"
  shows "\<exists>f k. np < NPROC \<and> p_state (ptable s np) = UNUSED
    \<and> u = s\<lparr>nextpid := nextpid s + 1, freelist := f, ptable := (ptable s)(np := embryo np k s)\<rparr>"
proof -
  obtain i where i: "first_slot NPROC (\<lambda>i. p_state (ptable s i) = UNUSED) = Some i"
    using assms by (auto simp: allocproc_def split: option.splits)
  have lt: "i < NPROC" "p_state (ptable s i) = UNUSED" using first_slot_Some [THEN iffD1, OF i] by auto
  have fr: "freelist s \<noteq> 0"
    using assms i by (auto simp: allocproc_def Let_def kalloc_def upd_proc_def split: if_splits)
  have "np = i \<and> u = s\<lparr>nextpid := nextpid s + 1, freelist := load64 (mem s) (freelist s),
      ptable := (ptable s)(i := embryo i (freelist s) s)\<rparr>"
    using assms i fr by (auto simp: allocproc_def Let_def kalloc_def upd_proc_def embryo_def)
  then show ?thesis using lt by blast
qed

text \<open>The descriptors and reference counts after the first \<open>n\<close> files have been duplicated.\<close>

definition dup_files :: "nat \<Rightarrow> nat \<Rightarrow> nat \<Rightarrow> 'z file_st_scheme \<Rightarrow> 'z file_st_scheme" where
  "dup_files n c np s =
     s\<lparr>ptable := (ptable s)(np := (ptable s np)\<lparr>p_ofile := (\<lambda>i. if i < n \<and> p_ofile (ptable s c) i \<noteq> None
           then p_ofile (ptable s c) i else p_ofile (ptable s np) i)\<rparr>),
        ftable := (\<lambda>f. (ftable s f)\<lparr>f_ref := f_ref (ftable s f) + int (card {i. i < n \<and> p_ofile (ptable s c) i = Some f})\<rparr>)\<rparr>"

lemma card_less_Suc_Some:
  "card {i. i < Suc n \<and> g i = Some f} = card {i. i < n \<and> g i = Some f} + (if g n = Some f then 1 else 0)"
proof -
  have "{i. i < Suc n \<and> g i = Some f} = (if g n = Some f then insert n {i. i < n \<and> g i = Some f} else {i. i < n \<and> g i = Some f})"
    by (auto simp: less_Suc_eq)
  then show ?thesis by simp
qed

lemma fork_file_dup:
  assumes "c \<noteq> np" and "fork_file c np n (dup_files n c np s) = Ok () t"
  shows "t = dup_files (Suc n) c np s"
proof (cases "p_ofile (ptable s c) n")
  case None
  then have "t = dup_files n c np s" using assms by (simp add: fork_file_def dup_files_def)
  moreover have "(\<lambda>i. if i < Suc n \<and> p_ofile (ptable s c) i \<noteq> None then p_ofile (ptable s c) i else p_ofile (ptable s np) i)
      = (\<lambda>i. if i < n \<and> p_ofile (ptable s c) i \<noteq> None then p_ofile (ptable s c) i else p_ofile (ptable s np) i)"
    using None by (intro ext) (auto simp: less_Suc_eq)
  ultimately show ?thesis using None unfolding dup_files_def card_less_Suc_Some by simp
next
  case (Some f)
  let ?g = "\<lambda>n i. if i < n \<and> p_ofile (ptable s c) i \<noteq> None then p_ofile (ptable s c) i else p_ofile (ptable s np) i"
  have g: "?g (Suc n) = (?g n)(n := Some f)" using Some by (intro ext) (auto simp: less_Suc_eq)
  have t: "t = upd_proc np (\<lambda>q. q\<lparr>p_ofile := (p_ofile q)(n := Some f)\<rparr>) (upd_file f (\<lambda>x. x\<lparr>f_ref := f_ref x + 1\<rparr>) (dup_files n c np s))"
    using assms Some by (auto simp: fork_file_def filedup_def dup_files_def split: if_splits)
  show ?thesis
    unfolding t dup_files_def g card_less_Suc_Some
    using Some by (auto simp: upd_proc_def upd_file_def fun_eq_iff)
qed

lemma for_fork_file:
  assumes "c \<noteq> np" and "for_each (fork_file c np) [0..<n] s = Ok () t"
  shows "t = dup_files n c np s"
  using assms(2)
proof (induction n arbitrary: t)
  case 0
  then show ?case by (simp add: dup_files_def)
next
  case (Suc n)
  then obtain u where u: "for_each (fork_file c np) [0..<n] s = Ok () u" "fork_file c np n u = Ok () t"
    unfolding upt_Suc_append [OF le0] for_each_append by (auto simp: bindR_eq_Ok)
  then show ?case using Suc.IH [OF u(1)] fork_file_dup [OF assms(1)] by simp
qed

lemma fork_Ok:
  assumes cur: "curproc s = Some c" "p_state (ptable s c) \<noteq> UNUSED"
    and run: "fork s = Ok pid t" and pid: "pid \<noteq> -1"
  obtains np u d w where "np < NPROC" "p_state (ptable s np) = UNUSED" "c \<noteq> np" "pid = nextpid s"
    "ptable u = (ptable s)(np := ptable u np)" "p_pid (ptable u np) = nextpid s" "p_ofile (ptable u np) = p_ofile (ptable s np)"
    "nextpid u = nextpid s + 1" "ftable u = ftable s" "inodes u = inodes s" "p_cwd (ptable s c) = Some w"
    "t = upd_proc np (\<lambda>q. (set_name (p_name (ptable s c)) (q\<lparr>p_cwd := Some w\<rparr>))\<lparr>p_state := RUNNABLE\<rparr>)
           (idup w (dup_files NOFILE c np (upd_proc np (\<lambda>q. q\<lparr>p_sz := p_sz (ptable s c), p_parent := Some c,
              p_tf := (p_tf (ptable s c))\<lparr>tf_rax := 0\<rparr>\<rparr>) (upd_proc np (\<lambda>q. q\<lparr>p_pgdir := d\<rparr>) u))))"
proof -
  obtain np v where v: "allocproc s = Ok (Some np) v"
    using run pid by (cases "allocproc s") (auto simp: fork_def split: option.splits)
  obtain f k where a: "np < NPROC" "p_state (ptable s np) = UNUSED"
      "v = s\<lparr>nextpid := nextpid s + 1, freelist := f, ptable := (ptable s)(np := embryo np k s)\<rparr>"
    using allocproc_Some [OF v] by blast
  have ne: "c \<noteq> np" using cur a(2) by auto
  have vc: "curproc v = Some c" "ptable v c = ptable s c" using cur a(3) ne by simp_all
  obtain d u where u: "copyuvm (p_pgdir (ptable s c)) (ucast (p_sz (ptable s c))) v = Ok d u"
    using run vc by (cases "copyuvm (p_pgdir (ptable s c)) (ucast (p_sz (ptable s c))) v") (auto simp: fork_def v)
  have "kframe v u" by (rule keepsD [OF copyuvm_kframe [OF kframe_refl] u])
  then have fr: "ptable u = ptable v" "nextpid u = nextpid v" "ftable u = ftable v" "inodes u = inodes v"
    using kframe_fields kframe_file_fields by blast+
  define u1 where "u1 = upd_proc np (\<lambda>q. q\<lparr>p_sz := p_sz (ptable s c), p_parent := Some c,
      p_tf := (p_tf (ptable s c))\<lparr>tf_rax := 0\<rparr>\<rparr>) (upd_proc np (\<lambda>q. q\<lparr>p_pgdir := d\<rparr>) u)"
  have pc: "ptable u c = ptable s c" "ptable u1 c = ptable s c" using fr vc ne by (simp_all add: u1_def)
  have d: "d \<noteq> 0" using run pid vc by (auto simp: fork_def v u bindR_eq_Ok split: if_splits)
  then have run2: "bindR (for_each (fork_file c np) [0..<NOFILE] u1) (\<lambda>_ s.
      case p_cwd (ptable s c) of None \<Rightarrow> Panic ''trap''
      | Some w \<Rightarrow> let s = idup w s; s = upd_proc np (\<lambda>q. set_name (p_name (ptable s c)) (q\<lparr>p_cwd := Some w\<rparr>)) s;
            pid = p_pid (ptable s np) in Ok pid (upd_proc np (\<lambda>q. q\<lparr>p_state := RUNNABLE\<rparr>) s)) = Ok pid t"
    using run vc ne pc by (simp add: fork_def v u u1_def Let_def)
  then obtain x where x: "for_each (fork_file c np) [0..<NOFILE] u1 = Ok () x"
    by (cases "for_each (fork_file c np) [0..<NOFILE] u1") auto
  have xd: "x = dup_files NOFILE c np u1" by (rule for_fork_file [OF ne x])
  have xc: "ptable x c = ptable s c" using pc ne by (simp add: xd dup_files_def)
  obtain w where w: "p_cwd (ptable s c) = Some w" using run2 x xc by (cases "p_cwd (ptable s c)") auto
  have t: "t = upd_proc np (\<lambda>q. (set_name (p_name (ptable s c)) (q\<lparr>p_cwd := Some w\<rparr>))\<lparr>p_state := RUNNABLE\<rparr>) (idup w x)"
    using run2 x xc w ne by (auto simp: Let_def idup_def upd_inode_def upd_proc_def)
  have "pid = nextpid s"
    using run2 x xc w ne a(3) fr
    by (auto simp: Let_def idup_def upd_inode_def xd dup_files_def u1_def embryo_def set_name_def)
  then show ?thesis
    using that [of np u w d] a ne fr w t by (auto simp: xd u1_def embryo_def)
qed


text \<open>A process with an open file forks in a machine with two free pages.\<close>

definition fork_demo :: file_st where
  "fork_demo = file_boot\<lparr>ptable := (\<lambda>_. zero_proc)(0 := zero_proc\<lparr>p_state := RUNNING, p_pid := 1,
       p_ofile := (\<lambda>_. None)(2 := Some 5), p_cwd := Some 3\<rparr>),
     ftable := (\<lambda>_. zero_file)(5 := zero_file\<lparr>f_ref := 1\<rparr>), curproc := Some 0, nextpid := 2,
     freelist := P2V 0x201000, mem := store64 (\<lambda>_. 0) (P2V 0x201000) (P2V 0x202000)\<rparr>"

lemma fork_demo_runs: "\<exists>t. fork fork_demo = Ok 2 t"
proof -
  let ?u = "fork_demo\<lparr>nextpid := 3, freelist := P2V 0x202000, ptable := (ptable fork_demo)(1 := embryo 1 (P2V 0x201000) fork_demo)\<rparr>"
  have "first_slot NPROC (\<lambda>i. p_state (ptable fork_demo i) = UNUSED) = Some 1"
    by (simp add: first_slot_Some fork_demo_def zero_proc_def)
  then have al: "allocproc fork_demo = Ok (Some 1) ?u"
    by (simp add: allocproc_def Let_def kalloc_def upd_proc_def embryo_def P2V_def) (simp add: fork_demo_def P2V_def)
  have "\<exists>d v. copyuvm 0 0 ?u = Ok d v \<and> d \<noteq> 0"
    by (simp add: copyuvm_def page_range_def setupkvm_def kalloc_def Let_def P2V_def)
  then obtain d v where cp: "copyuvm 0 0 ?u = Ok d v" "d \<noteq> 0" by blast
  have "kframe ?u v" by (rule keepsD [OF copyuvm_kframe [OF kframe_refl] cp(1)])
  then have v: "ptable v = ptable ?u" "ftable v = ftable fork_demo" using kframe_fields kframe_file_fields by fastforce+
  have f: "ptable fork_demo 0 = zero_proc\<lparr>p_state := RUNNING, p_pid := 1, p_ofile := (\<lambda>_. None)(2 := Some 5), p_cwd := Some 3\<rparr>"
    "curproc fork_demo = Some 0" "nextpid fork_demo = 2" "f_ref (ftable fork_demo 5) = 1"
    by (simp_all add: fork_demo_def)
  have "p_pgdir zero_proc = 0" "p_sz zero_proc = 0" by (simp_all add: zero_proc_def)
  then show ?thesis
    using cp v f
    by (simp add: fork_def al Let_def fork_file_def filedup_def upd_proc_def upd_file_def idup_def upd_inode_def set_name_def embryo_def upt_rec)
qed


subsection \<open>The process table as a state machine\<close>

text \<open>
  The steps that change process states on one CPU: the scheduler runs when there is no current
  process; a process that has stopped running switches back to it.
\<close>

inductive proc_step :: "'z sched_st_scheme \<Rightarrow> 'z sched_st_scheme \<Rightarrow> bool" where
  alloc: "allocproc s = Ok r t \<Longrightarrow> proc_step s t"
| born: "p_state (ptable s i) = EMBRYO \<Longrightarrow> proc_step s (upd_proc i (\<lambda>q. q\<lparr>p_state := RUNNABLE\<rparr>) s)"
| dispatch: "curproc s = None \<Longrightarrow> scheduler_from k s = Ok r t \<Longrightarrow> proc_step s t"
| switched: "curproc s = Some c \<Longrightarrow> p_state (ptable s c) \<noteq> RUNNING \<Longrightarrow> proc_step s (scheduler_return s)"
| sleeps: "curproc s = Some c \<Longrightarrow> (sleep ch s :: (unit, 'z sched_st_scheme) result) = Sleeps ch t \<Longrightarrow> proc_step s t"
| yields: "proc_step s (yield s)"
| exits: "curproc s = Some c \<Longrightarrow> proc_step s (exit_locked c s)"
| wakes: "proc_step s (wakeup ch s)"
| kills: "kill pid s = (r, t) \<Longrightarrow> proc_step s t"
| reaps: "curproc s \<noteq> Some i \<Longrightarrow> reap i s = Ok pid t \<Longrightarrow> p_state (ptable s i) = ZOMBIE \<Longrightarrow> proc_step s t"

inductive proc_reach :: "'z sched_st_scheme \<Rightarrow> bool" where
  boot: "(\<And>i. p_state (ptable s i) = UNUSED) \<Longrightarrow> nextpid s = 1 \<Longrightarrow> curproc s = None \<Longrightarrow> proc_reach s"
| step: "proc_reach s \<Longrightarrow> proc_step s t \<Longrightarrow> proc_reach t"

text \<open>Identifiers are positive, below \<open>nextpid\<close> and distinct; only the current process is running.\<close>

definition procs_ok :: "'z sched_st_scheme \<Rightarrow> bool" where
  "procs_ok s \<longleftrightarrow> 0 < nextpid s
     \<and> (\<forall>i. p_state (ptable s i) \<noteq> UNUSED \<longrightarrow> 0 < p_pid (ptable s i) \<and> p_pid (ptable s i) < nextpid s)
     \<and> (\<forall>i j. p_state (ptable s i) \<noteq> UNUSED \<longrightarrow> p_state (ptable s j) \<noteq> UNUSED \<longrightarrow>
          p_pid (ptable s i) = p_pid (ptable s j) \<longrightarrow> i = j)
     \<and> (\<forall>i. p_state (ptable s i) = RUNNING \<longrightarrow> curproc s = Some i)
     \<and> (\<forall>c. curproc s = Some c \<longrightarrow> p_state (ptable s c) \<noteq> UNUSED)"

text \<open>A step that takes no new identifier, makes no slot used and lets no other process run keeps it.\<close>

lemma procs_ok_mono:
  assumes "procs_ok s" and "nextpid t = nextpid s"
    and "\<And>i. p_state (ptable t i) \<noteq> UNUSED \<Longrightarrow> p_state (ptable s i) \<noteq> UNUSED \<and> p_pid (ptable t i) = p_pid (ptable s i)"
    and "\<And>i. p_state (ptable t i) = RUNNING \<Longrightarrow> curproc t = Some i"
    and "\<And>c. curproc t = Some c \<Longrightarrow> p_state (ptable t c) \<noteq> UNUSED"
  shows "procs_ok t"
  using assms unfolding procs_ok_def by metis

text \<open>\<open>woke s t\<close>: from \<open>s\<close> to \<open>t\<close> sleepers may have become runnable.\<close>

definition woke :: "'z sched_st_scheme \<Rightarrow> 'z sched_st_scheme \<Rightarrow> bool" where
  "woke s t \<longleftrightarrow> nextpid t = nextpid s \<and> curproc t = curproc s \<and> initproc t = initproc s
     \<and> (\<forall>j. p_pid (ptable t j) = p_pid (ptable s j) \<and> p_chan (ptable t j) = p_chan (ptable s j)
          \<and> (p_state (ptable t j) = p_state (ptable s j) \<or> p_state (ptable s j) = SLEEPING \<and> p_state (ptable t j) = RUNNABLE))"

lemma woke_refl [simp]: "woke s s"
  by (simp add: woke_def)

lemma woke_trans: "woke s t \<Longrightarrow> woke t u \<Longrightarrow> woke s u"
  unfolding woke_def by (metis procstate.distinct(17))

lemma woke_reparent: "woke s (reparent c i s)"
  by (auto simp: woke_def reparent_def Let_def wakeup1_def upd_proc_def split: option.splits)

lemma woke_kill: "kill pid s = (r, t) \<Longrightarrow> woke s t"
  by (auto simp: woke_def kill_def Let_def upd_proc_def split: option.splits if_splits)

lemma procs_ok_woke:
  assumes "procs_ok s" and w: "woke s t"
  shows "procs_ok t"
proof (rule procs_ok_mono [OF assms(1)])
  fix i
  have st: "p_state (ptable t i) = p_state (ptable s i) \<or> p_state (ptable s i) = SLEEPING \<and> p_state (ptable t i) = RUNNABLE"
    and f: "curproc t = curproc s" "p_pid (ptable t i) = p_pid (ptable s i)" using w unfolding woke_def by metis+
  show "p_state (ptable t i) \<noteq> UNUSED \<Longrightarrow> p_state (ptable s i) \<noteq> UNUSED \<and> p_pid (ptable t i) = p_pid (ptable s i)"
    using st f by auto
  show "p_state (ptable t i) = RUNNING \<Longrightarrow> curproc t = Some i" using st f assms(1) by (auto simp: procs_ok_def)
  show "curproc t = Some i \<Longrightarrow> p_state (ptable t i) \<noteq> UNUSED" using st f assms(1) by (auto simp: procs_ok_def)
qed (use w in \<open>simp add: woke_def\<close>)

lemma reparent_parent:
  "p_parent (ptable (reparent c i s) j) = (if j = i \<and> p_parent (ptable s i) = Some c then initproc s else p_parent (ptable s j))"
  by (auto simp: reparent_def Let_def wakeup1_def upd_proc_def split: option.splits)

lemma woke_reparent_loop: "woke s (fold (reparent c) is s)"
proof (induction "is" arbitrary: s)
  case (Cons i "is")
  show ?case using woke_trans [OF woke_reparent Cons] by simp
qed simp

lemma reparent_loop_parent:
  assumes "initproc s \<noteq> Some c"
  shows "p_parent (ptable (fold (reparent c) [0..<n] s) j) =
     (if j < n \<and> p_parent (ptable s j) = Some c then initproc s else p_parent (ptable s j))"
proof (induction n arbitrary: j)
  case (Suc n)
  have i: "initproc (fold (reparent c) [0..<n] s) = initproc s" using woke_reparent_loop [of s c "[0..<n]"] by (simp add: woke_def)
  show ?case using Suc assms by (auto simp: reparent_parent i less_Suc_eq)
qed simp

lemma wakeup1_fields:
  "nextpid (wakeup1 ch s) = nextpid s" "curproc (wakeup1 ch s) = curproc s" "initproc (wakeup1 ch s) = initproc s"
  "ptable (wakeup1 ch s) i = (if i < NPROC \<and> p_state (ptable s i) = SLEEPING \<and> p_chan (ptable s i) = Some ch
      then (ptable s i)\<lparr>p_state := RUNNABLE\<rparr> else ptable s i)"
  by (simp_all add: wakeup1_def Let_def)

lemma exit_locked_fields:
  "nextpid (exit_locked c s) = nextpid s \<and> curproc (exit_locked c s) = curproc s
   \<and> p_pid (ptable (exit_locked c s) j) = p_pid (ptable s j) \<and> p_chan (ptable (exit_locked c s) j) = p_chan (ptable s j)
   \<and> (j \<noteq> c \<longrightarrow> p_state (ptable (exit_locked c s) j) = p_state (ptable s j)
        \<or> p_state (ptable s j) = SLEEPING \<and> p_state (ptable (exit_locked c s) j) = RUNNABLE)
   \<and> p_state (ptable (exit_locked c s) c) = ZOMBIE
   \<and> (initproc s \<noteq> Some c \<longrightarrow> p_parent (ptable (exit_locked c s) j) =
        (if j < NPROC \<and> p_parent (ptable s j) = Some c then initproc s else p_parent (ptable s j)))
   \<and> (\<forall>p<NPROC. p_parent (ptable s c) = Some p \<and> p \<noteq> c \<and> p_state (ptable s p) = SLEEPING \<and> p_chan (ptable s p) = Some (ProcChan p)
        \<longrightarrow> p_state (ptable (exit_locked c s) p) = RUNNABLE)"
proof -
  define u where "u = (case p_parent (ptable s c) of Some j \<Rightarrow> wakeup1 (ProcChan j) s | None \<Rightarrow> s)"
  have u: "woke s u" "\<And>j. p_parent (ptable u j) = p_parent (ptable s j)"
    by (auto simp: u_def woke_def wakeup1_fields split: option.splits)
  have up: "p_state (ptable u p) = RUNNABLE"
    if "p < NPROC" "p_parent (ptable s c) = Some p" "p_state (ptable s p) = SLEEPING" "p_chan (ptable s p) = Some (ProcChan p)" for p
    using that by (simp add: u_def wakeup1_fields)
  define v where "v = fold (reparent c) [0..<NPROC] u"
  have uv: "woke u v" unfolding v_def by (rule woke_reparent_loop)
  have e: "exit_locked c s = upd_proc c (\<lambda>q. q\<lparr>p_state := ZOMBIE\<rparr>) v" by (simp add: exit_locked_def u_def v_def Let_def)
  have sv: "woke s v" by (rule woke_trans [OF u(1) uv])
  have iu: "initproc u = initproc s" using u(1) by (simp add: woke_def)
  have pv: "initproc s \<noteq> Some c \<Longrightarrow> p_parent (ptable v j) = (if j < NPROC \<and> p_parent (ptable s j) = Some c then initproc s else p_parent (ptable s j))"
    unfolding v_def using reparent_loop_parent [of u c NPROC j] iu u(2) by simp
  have "p_state (ptable v p) = RUNNABLE"
    if "p < NPROC" "p_parent (ptable s c) = Some p" "p_state (ptable s p) = SLEEPING" "p_chan (ptable s p) = Some (ProcChan p)" for p
    using up [OF that] uv unfolding woke_def by metis
  then show ?thesis using sv pv unfolding e woke_def by auto
qed

lemma reap_Ok:
  assumes "reap i s = Ok pid t"
  shows "nextpid t = nextpid s \<and> curproc t = curproc s \<and> pid = p_pid (ptable s i)
    \<and> ptable t = (ptable s)(i := (ptable s i)\<lparr>p_kstack := 0, p_pid := 0, p_parent := None, p_name := (p_name (ptable s i))[0 := 0],
        p_killed := False, p_state := UNUSED\<rparr>)"
proof -
  obtain u where u: "kfree (p_kstack (ptable s i)) s = Ok () u" using assms by (auto simp: reap_def Let_def bindR_eq_Ok)
  define u1 where "u1 = upd_proc i (\<lambda>q. q\<lparr>p_kstack := 0\<rparr>) u"
  obtain v where v: "freevm (p_pgdir (ptable u1 i)) u1 = Ok () v"
    using assms u by (auto simp: reap_def Let_def bindR_eq_Ok u1_def)
  have "kframe s u" by (rule keepsD [OF kfree_kframe [OF kframe_refl] u])
  moreover have "kframe u1 v" by (rule keepsD [OF freevm_kframe [OF kframe_refl] v])
  ultimately have "ptable u = ptable s" "ptable v = ptable u1" "nextpid v = nextpid s" "curproc v = curproc s"
    using kframe_fields [of s u] kframe_fields [of u1 v] by (simp_all add: u1_def)
  moreover have "t = upd_proc i (\<lambda>q. q\<lparr>p_pid := 0, p_parent := None, p_name := (p_name q)[0 := 0], p_killed := False, p_state := UNUSED\<rparr>) v"
    "pid = p_pid (ptable s i)"
    using assms u v by (simp_all add: reap_def Let_def u1_def)
  ultimately show ?thesis by (simp add: u1_def)
qed

lemma allocproc_None:
  assumes "allocproc s = Ok None t"
  shows "t = s"
  using assms by (auto simp: allocproc_def Let_def kalloc_def split: option.splits if_splits)

lemma procs_ok_step: "proc_step s t \<Longrightarrow> procs_ok s \<Longrightarrow> procs_ok t"
proof (induction rule: proc_step.induct)
  case (alloc s r t)
  show ?case
  proof (cases r)
    case None
    then show ?thesis using alloc allocproc_None by metis
  next
    case (Some np)
    then obtain f k where "p_state (ptable s np) = UNUSED"
        "t = s\<lparr>nextpid := nextpid s + 1, freelist := f, ptable := (ptable s)(np := embryo np k s)\<rparr>"
      using allocproc_Some alloc(1) by blast
    then have t: "nextpid t = nextpid s + 1" "curproc t = curproc s" "p_pid (ptable t np) = nextpid s" "p_state (ptable t np) = EMBRYO"
        "\<And>i. i \<noteq> np \<Longrightarrow> ptable t i = ptable s i" and un: "p_state (ptable s np) = UNUSED"
      by (simp_all add: embryo_def)
    note ok = alloc(2) [unfolded procs_ok_def]
    have A: "0 < p_pid (ptable t i) \<and> p_pid (ptable t i) < nextpid t
        \<and> (i \<noteq> np \<longrightarrow> p_pid (ptable t i) < nextpid s \<and> p_state (ptable s i) \<noteq> UNUSED)" if "p_state (ptable t i) \<noteq> UNUSED" for i
      using that t ok by (cases "i = np") (auto simp: add.commute intro: add_strict_increasing2)
    have B: "i = j" if "p_state (ptable t i) \<noteq> UNUSED" "p_state (ptable t j) \<noteq> UNUSED" "p_pid (ptable t i) = p_pid (ptable t j)" for i j
      using A [OF that(1)] A [OF that(2)] that(3) t(3,5) ok by (metis less_irrefl)
    have C: "curproc t = Some i" if "p_state (ptable t i) = RUNNING" for i
      using that t ok by (metis procstate.distinct(15))
    have D: "p_state (ptable t c) \<noteq> UNUSED" if "curproc t = Some c" for c
      using that t un ok by metis
    show ?thesis unfolding procs_ok_def using A B C D t(1) ok by auto
  qed
next
  case (born s i)
  then show ?case by (intro procs_ok_mono [OF born(2)]) (auto simp: procs_ok_def split: if_splits)
next
  case (dispatch s k r t)
  then show ?case
    by (auto simp: scheduler_from_def switchuvm_def Let_def procs_ok_def first_slot_Some split: option.splits if_splits)
next
  case (switched s c)
  then show ?case by (intro procs_ok_mono [OF switched(3)]) (auto simp: procs_ok_def scheduler_return_def switchkvm_def)
next
  case (sleeps s c ch t)
  then have "t = upd_proc c (\<lambda>q. q\<lparr>p_chan := Some ch, p_state := SLEEPING\<rparr>) s" by (simp add: sleep_def)
  then show ?case using sleeps by (intro procs_ok_mono [OF sleeps(3)]) (auto simp: procs_ok_def split: if_splits)
next
  case (yields s)
  show ?case using yields by (intro procs_ok_mono [OF yields(1)]) (auto simp: procs_ok_def yield_def split: if_splits option.splits)
next
  case (exits s c)
  note f = exit_locked_fields [of c s]
  have st: "p_state (ptable (exit_locked c s) j) = (if j = c then ZOMBIE else p_state (ptable s j))
      \<or> p_state (ptable s j) = SLEEPING \<and> p_state (ptable (exit_locked c s) j) = RUNNABLE" for j
    using f [of j] by auto
  show ?case
  proof (rule procs_ok_mono [OF exits(2)])
    fix i
    show "p_state (ptable (exit_locked c s) i) \<noteq> UNUSED \<Longrightarrow>
        p_state (ptable s i) \<noteq> UNUSED \<and> p_pid (ptable (exit_locked c s) i) = p_pid (ptable s i)"
      using st [of i] f [of i] exits by (auto simp: procs_ok_def split: if_splits)
    show "p_state (ptable (exit_locked c s) i) = RUNNING \<Longrightarrow> curproc (exit_locked c s) = Some i"
      using st [of i] f [of i] exits by (auto simp: procs_ok_def split: if_splits)
  qed (use f exits in auto)
next
  case (wakes s ch)
  show ?case by (rule procs_ok_woke [OF wakes]) (auto simp: woke_def ptable_wakeup)
next
  case (kills pid s r t)
  show ?case by (rule procs_ok_woke [OF kills(2) woke_kill [OF kills(1)]])
next
  case (reaps s i pid t)
  define q where "q = ptable t i"
  have f: "nextpid t = nextpid s" "curproc t = curproc s" "ptable t = (ptable s)(i := q)" "p_state q = UNUSED"
    using reap_Ok [OF reaps(2)] by (simp_all add: q_def)
  show ?case
  proof (rule procs_ok_mono [OF reaps(4) f(1)])
    fix j
    show "p_state (ptable t j) \<noteq> UNUSED \<Longrightarrow> p_state (ptable s j) \<noteq> UNUSED \<and> p_pid (ptable t j) = p_pid (ptable s j)"
      using f(3,4) by (cases "j = i") simp_all
    show "p_state (ptable t j) = RUNNING \<Longrightarrow> curproc t = Some j"
      using f(2,3,4) reaps(4) by (cases "j = i") (simp_all add: procs_ok_def)
    show "curproc t = Some j \<Longrightarrow> p_state (ptable t j) \<noteq> UNUSED"
      using f(2,3) reaps(1,4) by (cases "j = i") (auto simp: procs_ok_def)
  qed
qed


text \<open>An empty process table and two free pages.\<close>

definition empty_procs :: sched_st where
  "empty_procs = sched_boot\<lparr>ptable := (\<lambda>_. zero_proc), nextpid := 1, curproc := None,
     freelist := P2V 0x201000, mem := store64 (\<lambda>_. 0) (P2V 0x201000) (P2V 0x202000)\<rparr>"

lemma empty_procs_alloc: "\<exists>t u. allocproc empty_procs = Ok (Some 0) t \<and> allocproc t = Ok (Some 1) u"
proof -
  have st: "p_state zero_proc = UNUSED" by (simp add: zero_proc_def)
  let ?t = "empty_procs\<lparr>nextpid := 2, freelist := P2V 0x202000, ptable := (\<lambda>_. zero_proc)(0 := embryo 0 (P2V 0x201000) empty_procs)\<rparr>"
  have "first_slot NPROC (\<lambda>i. p_state (ptable empty_procs i) = UNUSED) = Some 0"
    by (simp add: first_slot_Some empty_procs_def st)
  then have t: "allocproc empty_procs = Ok (Some 0) ?t"
    by (simp add: allocproc_def Let_def kalloc_def upd_proc_def embryo_def P2V_def) (simp add: empty_procs_def P2V_def)
  have "first_slot NPROC (\<lambda>i. p_state (ptable ?t i) = UNUSED) = Some 1"
    by (simp add: first_slot_Some st embryo_def)
  then have "\<exists>u. allocproc ?t = Ok (Some 1) u" by (simp add: allocproc_def Let_def kalloc_def upd_proc_def P2V_def)
  then show ?thesis using t by blast
qed


subsection \<open>exit and wait\<close>

lemma wait_reaps:
  assumes "curproc s = Some c" "i < NPROC" "p_parent (ptable s i) = Some c" "p_state (ptable s i) = ZOMBIE"
  obtains j where "j < NPROC" "p_parent (ptable s j) = Some c" "p_state (ptable s j) = ZOMBIE" "wait s = reap j s"
proof -
  obtain j where j: "first_slot NPROC (\<lambda>i. p_parent (ptable s i) = Some c \<and> p_state (ptable s i) = ZOMBIE) = Some j"
    using assms(2-4) first_slot_None [of NPROC "\<lambda>i. p_parent (ptable s i) = Some c \<and> p_state (ptable s i) = ZOMBIE"] by fastforce
  then have "wait s = reap j s" using assms(1) by (simp add: wait_def)
  then show ?thesis using that [of j] first_slot_Some [THEN iffD1, OF j] by simp
qed

text \<open>
  C26. No exit is missed: when a child of a process that sleeps in \<open>wait\<close> exits, the parent becomes
  runnable, the child is a zombie, the child's own children belong to init, and the parent's next
  turn in \<open>wait\<close> frees a zombie child instead of sleeping again.
\<close>

theorem exit_wakes_waiting_parent:
  assumes "p < NPROC" "c < NPROC" "p \<noteq> c" and "p_parent (ptable s c) = Some p" and "initproc s \<noteq> Some c"
    and "p_state (ptable s p) = SLEEPING" and "p_chan (ptable s p) = Some (ProcChan p)"
  shows "p_state (ptable (exit_locked c s) p) = RUNNABLE
     \<and> p_state (ptable (exit_locked c s) c) = ZOMBIE
     \<and> (\<forall>j<NPROC. p_parent (ptable s j) = Some c \<longrightarrow> p_parent (ptable (exit_locked c s) j) = initproc s)
     \<and> (\<exists>i<NPROC. p_parent (ptable (exit_locked c s) i) = Some p \<and> p_state (ptable (exit_locked c s) i) = ZOMBIE
          \<and> wait ((exit_locked c s)\<lparr>curproc := Some p\<rparr>) = reap i ((exit_locked c s)\<lparr>curproc := Some p\<rparr>))"
proof -
  let ?t = "exit_locked c s"
  note f = exit_locked_fields [of c s]
  have run: "p_state (ptable ?t p) = RUNNABLE" using f [of p] assms by auto
  have z: "p_state (ptable ?t c) = ZOMBIE" "p_parent (ptable ?t c) = Some p" using f [of c] assms by auto
  obtain i where "i < NPROC" "p_parent (ptable ?t i) = Some p" "p_state (ptable ?t i) = ZOMBIE"
      "wait (?t\<lparr>curproc := Some p\<rparr>) = reap i (?t\<lparr>curproc := Some p\<rparr>)"
    using wait_reaps [of "?t\<lparr>curproc := Some p\<rparr>" p c] assms(2) z by auto
  moreover have "\<forall>j<NPROC. p_parent (ptable s j) = Some c \<longrightarrow> p_parent (ptable ?t j) = initproc s"
    using f assms(5) by auto
  ultimately show ?thesis using run z by blast
qed

theorem exit_wakes_waiting_parent_witness:
  "\<exists>t. exit_locked 2 (sched_boot\<lparr>ptable := (\<lambda>_. zero_proc)(1 := zero_proc\<lparr>p_state := SLEEPING, p_pid := 2, p_chan := Some (ProcChan 1)\<rparr>,
       2 := zero_proc\<lparr>p_state := RUNNING, p_pid := 3, p_parent := Some 1\<rparr>)\<rparr>) = t
     \<and> p_state (ptable t 1) = RUNNABLE \<and> p_state (ptable t 2) = ZOMBIE"
  using exit_wakes_waiting_parent [of 1 2 "sched_boot\<lparr>ptable := (\<lambda>_. zero_proc)(1 := zero_proc\<lparr>p_state := SLEEPING, p_pid := 2, p_chan := Some (ProcChan 1)\<rparr>,
       2 := zero_proc\<lparr>p_state := RUNNING, p_pid := 3, p_parent := Some 1\<rparr>)\<rparr>"]
  by simp

subsection \<open>kill\<close>

text \<open>
  C31. \<open>kill\<close> compares identifiers without looking at the state, and free slots have identifier 0:
  killing process 0 succeeds and marks a free slot, and the next process created in it is born
  killed.
\<close>

theorem kill_zero_marks_free_slot:
  assumes "i < NPROC" and "p_state (ptable s i) = UNUSED" "p_pid (ptable s i) = 0"
    and "\<forall>j<i. p_state (ptable s j) \<noteq> UNUSED \<and> p_pid (ptable s j) \<noteq> 0"
    and "allocproc (snd (kill 0 s)) = Ok (Some np) t"
  shows "fst (kill 0 s) = 0 \<and> np = i \<and> p_killed (ptable t np)"
proof -
  have k: "kill 0 s = (0, upd_proc i (\<lambda>p. p\<lparr>p_killed := True\<rparr>) s)"
  proof -
    have "first_slot NPROC (\<lambda>i. p_pid (ptable s i) = 0) = Some i" using assms by (simp add: first_slot_Some)
    then show ?thesis using assms(2) by (simp add: kill_def upd_proc_def)
  qed
  have "first_slot NPROC (\<lambda>j. p_state (ptable (snd (kill 0 s)) j) = UNUSED) = Some i"
    using assms by (simp add: k first_slot_Some)
  then have "np = i" using assms(5) by (auto simp: allocproc_def Let_def bindR_eq_Ok split: if_splits)
  then show ?thesis using allocproc_Some [OF assms(5)] k by (auto simp: embryo_def)
qed

theorem kill_zero_marks_free_slot_witness:
  "\<exists>t. fst (kill 0 empty_procs) = 0 \<and> allocproc (snd (kill 0 empty_procs)) = Ok (Some 0) t \<and> p_killed (ptable t 0)"
proof -
  have z: "p_state zero_proc = UNUSED" "p_pid zero_proc = 0" by (simp_all add: zero_proc_def)
  have "first_slot NPROC (\<lambda>i. p_pid (ptable empty_procs i) = 0) = Some 0"
    by (simp add: first_slot_Some empty_procs_def z)
  then have k: "kill 0 empty_procs = (0, upd_proc 0 (\<lambda>p. p\<lparr>p_killed := True\<rparr>) empty_procs)"
    by (simp add: kill_def upd_proc_def empty_procs_def z)
  have "ptable empty_procs = (\<lambda>_. zero_proc)" by (simp add: empty_procs_def)
  then have "first_slot NPROC (\<lambda>i. p_state (ptable (snd (kill 0 empty_procs)) i) = UNUSED) = Some 0"
    by (simp add: k first_slot_Some z)
  moreover have "freelist (snd (kill 0 empty_procs)) \<noteq> 0"
    unfolding k by (simp add: upd_proc_def empty_procs_def P2V_def)
  ultimately have "\<exists>t. allocproc (snd (kill 0 empty_procs)) = Ok (Some 0) t"
    by (simp add: allocproc_def Let_def kalloc_def upd_proc_def)
  then obtain t where t: "allocproc (snd (kill 0 empty_procs)) = Ok (Some 0) t" by blast
  have "fst (kill 0 empty_procs) = 0 \<and> 0 = (0 :: nat) \<and> p_killed (ptable t 0)"
    by (rule kill_zero_marks_free_slot [OF _ _ _ _ t]) (simp_all add: empty_procs_def z)
  then show ?thesis using t by blast
qed

end
