(* ===== verification/Calls.thy ===== *)
theory Calls
  imports Trap Terminal Lifecycle
begin

section \<open>Properties of system calls and traps\<close>

text \<open>
  What the argument checks let through, when \<open>sleep\<close> returns, and that a killed process never gets
  back to user mode.
\<close>

unbundle bit_operations_syntax

subsection \<open>Arguments\<close>

lemma uread_Ok: "uread va n s = Ok bs t \<Longrightarrow> t = s \<and> length bs = n"
  by (auto simp: uread_def Let_def split: if_splits)

lemma uread_snoc:
  "uread va n s = Ok bs s \<Longrightarrow> uread (va + of_nat n) 1 s = Ok [b] s \<Longrightarrow> uread va (Suc n) s = Ok (bs @ [b]) s"
  by (auto simp: uread_def Let_def split: if_splits)

lemma fetchstr_scan_spec:
  assumes "fetchstr_scan k (a + of_nat (length acc)) acc s = Ok (Some str) t"
    and "uread a (length acc) s = Ok acc s" and "0 \<notin> set acc"
  shows "t = s \<and> 0 \<notin> set str \<and> length str < length acc + k \<and> uread a (Suc (length str)) s = Ok (str @ [0]) s"
  using assms
proof (induction k arbitrary: acc)
  case (Suc k)
  obtain bs s' where "uread (a + of_nat (length acc)) 1 s = Ok bs s'"
    using Suc.prems(1) by (cases "uread (a + of_nat (length acc)) 1 s") auto
  then obtain b where b: "uread (a + of_nat (length acc)) 1 s = Ok [b] s"
    using uread_Ok [of "a + of_nat (length acc)" 1 s bs s'] by (auto simp: length_Suc_conv)
  have sn: "uread a (Suc (length acc)) s = Ok (acc @ [b]) s" by (rule uread_snoc [OF Suc.prems(2) b])
  show ?case
  proof (cases "b = 0")
    case True
    then show ?thesis using Suc.prems b sn by auto
  next
    case False
    have "fetchstr_scan k (a + of_nat (length (acc @ [b]))) (acc @ [b]) s = Ok (Some str) t"
      using Suc.prems(1) b False by (simp add: ac_simps)
    from Suc.IH [OF this] show ?thesis using sn Suc.prems(3) False by auto
  qed
qed simp

text \<open>
  C32. A string argument is safe to use: when \<open>fetchstr\<close> succeeds, the string together with its
  terminating zero lies inside the process's memory above the first page, has no zero in it, and is
  what user memory holds there; nothing has changed.
\<close>

theorem fetchstr_in_user_memory:
  assumes "curproc s = Some c" and "fetchstr addr s = Ok (Some str) t"
  shows "t = s \<and> PGSIZE \<le> addr \<and> unat addr + length str < unat (p_sz (ptable s c)) \<and> 0 \<notin> set str
     \<and> uread addr (length str + 1) s = Ok (str @ [0]) s"
proof -
  let ?sz = "p_sz (ptable s c)"
  have r: "PGSIZE \<le> addr" "addr < ?sz" "fetchstr_scan (unat (?sz - addr)) addr [] s = Ok (Some str) t"
    using assms by (auto simp: fetchstr_def myproc_def split: if_splits)
  have "t = s \<and> 0 \<notin> set str \<and> length str < unat (?sz - addr) \<and> uread addr (Suc (length str)) s = Ok (str @ [0]) s"
    using fetchstr_scan_spec [of "unat (?sz - addr)" addr "[]" s str t] r(3) by (simp add: uread_def)
  moreover have "unat (?sz - addr) = unat ?sz - unat addr" using r(2) by (intro unat_sub_small) (simp add: word_less_nat_alt)
  moreover have "unat addr < unat ?sz" using r(2) by (simp add: word_less_nat_alt)
  ultimately show ?thesis using r(1) by (metis (no_types, lifting) Suc_eq_plus1 less_diff_conv add.commute)
qed

text \<open>
  A process whose memory is one large page that maps every address to itself; it ends with the
  string \<open>hi\<close>.
\<close>

definition user_mem :: memory where
  "user_mem = (\<lambda>_. 0)(P2V 0x1000 := 3, P2V 0x1001 := 0x20, P2V 0x2000 := 0x83, P2V 0x3000 := 104, P2V 0x3001 := 105)"

definition user_demo :: "trapframe \<Rightarrow> sched_st" where
  "user_demo tf = sched_boot\<lparr>mem := user_mem, cr3 := 0x1000,
     ptable := (\<lambda>_. zero_proc)(0 := zero_proc\<lparr>p_state := RUNNING, p_pid := 1, p_sz := 0x3003, p_tf := tf\<rparr>)\<rparr>"

lemma user_demo_simps [simp]:
  "curproc (user_demo tf) = Some 0" "p_sz (ptable (user_demo tf) 0) = 0x3003" "p_tf (ptable (user_demo tf) 0) = tf"
  "cr3 (user_demo tf) = 0x1000" "mem (user_demo tf) = user_mem"
  by (simp_all add: user_demo_def)

lemma fetchstr_demo: "fetchstr 0x3000 (user_demo tf) = Ok (Some [104, 105]) (user_demo tf)"
proof -
  have n: "fetchstr 0x3000 (user_demo tf) = fetchstr_scan (Suc (Suc (Suc 0))) 0x3000 [] (user_demo tf)"
    by (simp add: fetchstr_def myproc_def flip: numeral_3_eq_3)
  show ?thesis unfolding n
    by (simp add: uread_def utranslate_def pt_entry_def load64_def user_mem_def P2V_def
        entry_def PMX_def PDPX_def PTE_ADDR_def)
qed

theorem fetchstr_in_user_memory_witness:
  "fetchstr 0x3000 (user_demo zero_tf) = Ok (Some [104, 105]) (user_demo zero_tf)
   \<and> uread 0x3000 3 (user_demo zero_tf) = Ok [104, 105, 0] (user_demo zero_tf)"
  using fetchstr_in_user_memory [OF _ fetchstr_demo, of zero_tf 0] fetchstr_demo by (simp add: numeral_3_eq_3)

lemma unat_ucast_32_64: "unat (ucast (w :: u32) :: u64) = unat w"
  using unsigned_less [where 'a = nat, of w] by (simp add: unsigned_ucast_eq take_bit_nat_eq_self)

text \<open>
  C34. \<open>argptr\<close> looks only at the low 32 bits: a pointer whose low half lies inside the process is
  accepted and handed on whole, whatever its upper half. An address in the kernel's half of the
  address space passes the check.
\<close>

theorem argptr_ignores_upper_half:
  assumes "curproc s = Some c" and "fetcharg n s = Ok p s" and "0 \<le> sz"
    and "unat (ucast p :: u32) < unat (p_sz (ptable s c))"
    and "unat (ucast p :: u32) + nat sz \<le> unat (p_sz (ptable s c))"
    and "unat (ucast p :: u32) + nat sz < 2 ^ 32"
  shows "argptr n sz s = Ok (0, Some p) s"
proof -
  have "unat ((ucast p :: u32) + word_of_int sz) = unat (ucast p :: u32) + nat sz"
  proof -
    have w: "word_of_int sz = (of_nat (nat sz) :: u32)" using assms(3) by simp
    have "unat (of_nat (nat sz) :: u32) = nat sz" using assms(6) by (simp add: unat_of_nat)
    then show ?thesis using assms(6) unfolding w by (subst unat_add_lem [THEN iffD1]) simp_all
  qed
  then show ?thesis
    using assms by (simp add: unat_ucast_32_64 argptr_def argaddr_def myproc_def Let_def word_le_nat_alt word_less_nat_alt)
qed

theorem argptr_ignores_upper_half_witness:
  "argptr 1 8 (user_demo (zero_tf\<lparr>tf_rsi := 0xFFFF800000001000\<rparr>))
     = Ok (0, Some 0xFFFF800000001000) (user_demo (zero_tf\<lparr>tf_rsi := 0xFFFF800000001000\<rparr>))"
  by (rule argptr_ignores_upper_half [of _ 0]) (simp_all add: fetcharg_def myproc_def)

subsection \<open>Faults of user code\<close>

lemma exit_not_Ok: "exit s \<noteq> Ok a t"
  by (auto simp: exit_def bindR_eq_Ok split: option.splits if_splits)

lemma crash_formats:
  "cprintf_out ([10] @ cstr ''=== XV6 USER CRASH REPORT ==='' @ [10]) [] \<noteq> None"
  "cprintf_out (cstr ''Process: %s (pid %d)'' @ [10]) [CStr n, CWord a] \<noteq> None"
  "cprintf_out (cstr ''Trap: %d (Error: %d)'' @ [10]) [CWord a, CWord b] \<noteq> None"
  "cprintf_out (cstr ''RIP: %p RSP: %p'' @ [10]) [CWord a, CWord b] \<noteq> None"
  "cprintf_out (cstr ''RAX: %p RBX: %p RCX: %p RDX: %p'' @ [10]) [CWord a, CWord b, CWord c, CWord d] \<noteq> None"
  "cprintf_out (cstr ''RDI: %p RSI: %p RBP: %p'' @ [10]) [CWord a, CWord b, CWord c] \<noteq> None"
  "cprintf_out (cstr ''=== END REPORT ==='' @ [10]) [] \<noteq> None"
  "cprintf_out (cstr ''pid %d %s: trap %d err %d on cpu %d rip 0x%p addr 0x%p--kill proc'' @ [10])
     [CWord a, CStr n, CWord b, CWord c, CWord d, CWord e, CWord f] \<noteq> None"
  by (simp_all add: cstr_def)

lemma wp_cprintf_then:
  "cprintf_out fmt as \<noteq> None \<Longrightarrow> \<not> panicked s \<Longrightarrow> printed s t \<Longrightarrow> (\<And>u. printed s u \<Longrightarrow> Q () u) \<Longrightarrow>
   wp (cprintf fmt as t) Q"
  using wp_cprintf [of t fmt as] by (cases "cprintf fmt as t") (auto simp: printed_def intro: printed_trans)

lemma wp_crash_report: "\<not> panicked s \<Longrightarrow> wp (crash_report n cr2 p tf s) (\<lambda>_ t. printed s t)"
  unfolding crash_report_def Let_def wp_bind
  by (rule wp_cprintf_then, rule crash_formats, assumption, assumption | rule wp_cprintf_then [OF crash_formats(1) _ printed_refl] | assumption)+

text \<open>
  C33. A fault of user code ends the process and nothing else: \<open>trap\<close> prints its report (the process
  table and the console's input stay as they are), marks the current process as killed and becomes its
  \<open>exit\<close>; it never returns to the faulting instruction.
\<close>

theorem user_fault_ends_process:
  assumes "curproc s = Some c" and "\<not> panicked s" and "tf_cs tf AND 3 = DPL_USER"
    and "tf_trapno tf \<notin> {32, 33, 36, 39, 46, 47, 63}"
  shows "(\<exists>t. printed s t \<and> trap cpunum cr2 kbd com tf s = exit (upd_proc c (\<lambda>p. p\<lparr>p_killed := True\<rparr>) t))
     \<and> (\<forall>r u. trap cpunum cr2 kbd com tf s \<noteq> Ok r u)"
proof -
  obtain t where t: "crash_report cpunum cr2 (ptable s c) tf s = Ok () t" "printed s t"
    using wp_crash_report [OF assms(2), of cpunum cr2 "ptable s c" tf] by (auto elim: wpE)
  have "trap cpunum cr2 kbd com tf s = exit (upd_proc c (\<lambda>p. p\<lparr>p_killed := True\<rparr>) t)"
    using assms t by (auto simp: trap_def dev_intr_def trap_fault_def must_exit_def printed_def)
  then show ?thesis using t(2) exit_not_Ok by metis
qed

definition fault_demo :: kern_st where
  "fault_demo = cons_st.extend (cons_boot\<lparr>ptable := (\<lambda>_. zero_proc), curproc := Some 0\<rparr>) (kern_st.fields 0 0)"

theorem user_fault_ends_process_witness:
  "(\<exists>t. printed fault_demo t \<and> trap 0 0 [] [] (zero_tf\<lparr>tf_cs := 0x2B, tf_trapno := 14\<rparr>) fault_demo
      = exit (upd_proc 0 (\<lambda>p. p\<lparr>p_killed := True\<rparr>) t))"
  using user_fault_ends_process [of fault_demo 0 "zero_tf\<lparr>tf_cs := 0x2B, tf_trapno := 14\<rparr>" 0 0 "[]" "[]"]
  by (simp add: fault_demo_def cons_boot_def file_st.defs cons_st.defs kern_st.defs zero_tf_def)

end
