(* ===== verification/Txn.thy ===== *)
theory Txn
  imports Dir
begin

section \<open>Blocks inside a transaction\<close>

text \<open>
  What the file system sees of the log and the cache between \<open>begin_op\<close> and \<open>end_op\<close>: the view
  \<open>bview\<close> of the blocks, which a read leaves alone and a logged write changes at one block.
  \<open>tx H k s\<close> says that the blocks in \<open>H\<close> are locked and that \<open>k\<close> more logged writes fit.
\<close>

subsection \<open>State and frame\<close>

definition tx :: "nat set \<Rightarrow> nat \<Rightarrow> 'z log_st_scheme \<Rightarrow> bool" where
  "tx H k s \<longleftrightarrow> log_inv s \<and> held s = H \<and> (k > 0 \<longrightarrow> l_outstanding s \<ge> 1) \<and> l_n s + k + (card H - 1) < l_size s"

text \<open>What stays as it is: all but the cache, the blocks' data, the log's list and wakeups.\<close>

definition kept :: "'z log_st_scheme \<Rightarrow> 'z log_st_scheme \<Rightarrow> bool" where
  "kept s t \<longleftrightarrow> woken s t \<and> disk t = disk s \<and> pinned s \<subseteq> pinned t \<and> (\<forall>c m. holds s c m \<longrightarrow> holds t c m) \<and>
     (\<exists>pt bf n bl. t = s\<lparr>ptable := pt, bufs := bf, l_n := n, l_block := bl\<rparr>)"

lemma kept_fields:
  assumes "kept s t"
  shows "curproc t = curproc s" "disksize t = disksize s" "l_start t = l_start s" "l_size t = l_size s"
    "l_outstanding t = l_outstanding s" "log_st.more t = log_st.more s" "mem t = mem s" "disk t = disk s" "woken s t"
    "l_dev t = l_dev s" "dwrites t = dwrites s" "initproc t = initproc s" "cr3 t = cr3 s" "l_committing t = l_committing s"
  using assms unfolding kept_def by auto

lemma kept_holds: "kept s t \<Longrightarrow> holds s c m \<Longrightarrow> holds t c m"
  by (simp add: kept_def)

lemma kept_pinned: "kept s t \<Longrightarrow> m \<in> pinned s \<Longrightarrow> m \<in> pinned t"
  by (auto simp: kept_def)

lemma kept_refl [simp]: "kept s s"
proof -
  have "s = s\<lparr>ptable := ptable s, bufs := bufs s, l_n := l_n s, l_block := l_block s\<rparr>" by simp
  then show ?thesis unfolding kept_def by (blast intro: woken_eqI)
qed

lemma kept_trans:
  assumes "kept s t" and "kept t u"
  shows "kept s u"
proof -
  obtain pt bf n bl where t: "t = s\<lparr>ptable := pt, bufs := bf, l_n := n, l_block := bl\<rparr>" using assms(1) by (auto simp: kept_def)
  obtain pt' bf' n' bl' where "u = t\<lparr>ptable := pt', bufs := bf', l_n := n', l_block := bl'\<rparr>" using assms(2) by (auto simp: kept_def)
  then have "u = s\<lparr>ptable := pt', bufs := bf', l_n := n', l_block := bl'\<rparr>" by (simp add: t)
  then have "\<exists>pt bf n bl. u = s\<lparr>ptable := pt, bufs := bf, l_n := n, l_block := bl\<rparr>" by blast
  moreover have "woken s u" "disk u = disk s" "pinned s \<subseteq> pinned u" "\<forall>c m. holds s c m \<longrightarrow> holds u c m"
    using assms woken_trans by (auto simp: kept_def)
  ultimately show ?thesis unfolding kept_def by blast
qed

lemma kept_bframe:
  assumes "bframe s t" and "disk t = disk s" and "dwrites t = dwrites s" and "pinned s \<subseteq> pinned t"
    and "\<And>c m. holds s c m \<Longrightarrow> holds t c m"
  shows "kept s t"
proof -
  obtain pt bf d w where t: "t = s\<lparr>ptable := pt, bufs := bf, disk := d, dwrites := w\<rparr>" "woken s t"
    using assms(1) by (auto simp: bframe_def)
  have "d = disk s" "w = dwrites s" using assms(2,3) t(1) by simp_all
  then have "t = s\<lparr>ptable := pt, bufs := bf, l_n := l_n s, l_block := l_block s\<rparr>" using t(1) by simp
  then show ?thesis using t(2) assms(2,4,5) unfolding kept_def by blast
qed

text \<open>A release: the block released need not stay locked.\<close>

lemma kept_release:
  assumes "kept s u" and "bframe u t" and "disk t = disk u" and "dwrites t = dwrites u" and "pinned t = pinned u"
    and "\<And>c m. holds s c m \<Longrightarrow> holds t c m"
  shows "kept s t"
proof -
  obtain pt bf n bl where u: "u = s\<lparr>ptable := pt, bufs := bf, l_n := n, l_block := bl\<rparr>" using assms(1) by (auto simp: kept_def)
  obtain pt' bf' d w where t: "t = u\<lparr>ptable := pt', bufs := bf', disk := d, dwrites := w\<rparr>" "woken u t"
    using assms(2) by (auto simp: bframe_def)
  have "d = disk u" "w = dwrites u" using assms(3,4) t(1) by simp_all
  then have "t = s\<lparr>ptable := pt', bufs := bf', l_n := n, l_block := bl\<rparr>" using t(1) u by simp
  then have "\<exists>pt bf n bl. t = s\<lparr>ptable := pt, bufs := bf, l_n := n, l_block := bl\<rparr>" by blast
  moreover have "woken s t" using kept_fields(9) [OF assms(1)] t(2) woken_trans by blast
  ultimately show ?thesis using assms kept_fields(8) [OF assms(1)] unfolding kept_def by simp
qed

lemma log_write_same: "log_write b s = Ok () t \<Longrightarrow> ptable t = ptable s \<and> disk t = disk s"
  by (auto simp: log_write_def Let_def set_dirty_def upd_buf_def split: if_splits)

lemma log_write_kept:
  assumes "log_write b s = Ok () t" and "pinned s \<subseteq> pinned t" and "\<And>c m. holds s c m \<Longrightarrow> holds t c m"
  shows "kept s t"
proof -
  have t: "\<exists>bl n. t = set_dirty b (s\<lparr>l_block := bl, l_n := n\<rparr>)"
  proof -
    have u: "s\<lparr>l_block := bl\<rparr> = s\<lparr>l_block := bl, l_n := l_n s\<rparr>" for bl by simp
    show ?thesis using assms(1) by (auto simp: log_write_def Let_def split: if_splits) (metis u)+
  qed
  then obtain bl n where "t = set_dirty b (s\<lparr>l_block := bl, l_n := n\<rparr>)" by blast
  then have "t = s\<lparr>ptable := ptable s, bufs := bufs t, l_n := n, l_block := bl\<rparr>" by (simp add: set_dirty_def upd_buf_def)
  then have e: "\<exists>pt bf n bl. t = s\<lparr>ptable := pt, bufs := bf, l_n := n, l_block := bl\<rparr>" by blast
  have "ptable t = ptable s" "disk t = disk s" using log_write_same [OF assms(1)] by simp_all
  then show ?thesis using e assms(2,3) woken_eqI unfolding kept_def by blast
qed

subsection \<open>The four steps\<close>

lemma finite_held [simp]: "finite (held s)"
  by (simp add: held_def)

lemma card_held_pinned:
  assumes "tx H k s" and "n \<notin> H"
  shows "card (insert n (held s \<union> pinned s)) \<le> Suc (l_n s + card H)"
proof -
  have p: "held s = H" "card (pinned s) = l_n s" using assms(1) by (auto simp: tx_def log_inv_def card_image)
  have "card (insert n (H \<union> pinned s)) \<le> Suc (card (H \<union> pinned s))" by (rule card_insert_le_m1) simp_all
  also have "\<dots> \<le> Suc (card H + card (pinned s))" by (simp add: card_Un_le)
  finally show ?thesis using p by simp
qed

lemma tx_bread:
  assumes "tx H k s" and "n < disksize s" and "n \<notin> H" and "k' + card H \<le> k + (card H - 1)"
  shows "wp (bread 1 n s) (\<lambda>b t. tx (insert n H) k' t \<and> holds t b n \<and> bview t = bview s \<and> kept s t \<and>
     (n \<in> pinned t \<or> disk t n = bview t n))"
proof -
  have i: "log_inv s" "held s = H" "l_n s + k + (card H - 1) < l_size s" using assms(1) by (simp_all add: tx_def)
  have ok: "bcache_ok s" "curproc s \<noteq> None" "l_size s \<le> NBUF" using i(1) by (simp_all add: log_inv_def)
  have c: "card (insert n (held s \<union> pinned s)) \<le> NBUF"
    using card_held_pinned [OF assms(1,3)] i(3) ok(3) assms(4) by simp
  have fin: "finite H" using i(2) finite_held by metis
  obtain b t where t: "bread 1 n s = Ok b t" "bcache_ok t" "holds t b n" "bview t = bview s" "disk t = disk s"
    "dwrites t = dwrites s" "held t = insert n H" "pinned t = pinned s" "bframe s t" "\<forall>c m. holds s c m \<longrightarrow> holds t c m"
    using bc.rd_law [OF ok(1) assms(2) _ c ok(2)] assms(3) i(2) by (auto elim: wpE)
  have k: "kept s t" by (rule kept_bframe) (use t in auto)
  have "log_inv t" by (rule log_inv_bframe [OF i(1) t(9,2)]) (use t in simp_all)
  moreover have "l_n t = l_n s" "l_size t = l_size s" "l_outstanding t = l_outstanding s"
    using bframe_log [OF t(9)] by (simp_all add: same_log_def)
  ultimately have "tx (insert n H) k' t"
    using assms t(7) fin by (auto simp: tx_def)
  moreover have "n \<in> pinned t \<or> disk t n = bview t n" using bc.clean [OF ok(1), of n] assms(3) i(2) t by auto
  ultimately show ?thesis using t k by simp
qed

lemma tx_put:
  assumes "tx H k s" and "holds s b n" and "length d = BSIZE"
  shows "tx H k (set_data b d s) \<and> holds (set_data b d s) b n \<and> bview (set_data b d s) = (bview s)(n := d) \<and> kept s (set_data b d s)"
proof -
  have i: "log_inv s" "held s = H" using assms(1) by (simp_all add: tx_def)
  have ok: "bcache_ok s" using i(1) by (simp add: log_inv_def)
  let ?t = "set_data b d s"
  have l: "holds ?t b n" "bview ?t = (bview s)(n := d)" "disk ?t = disk s" "dwrites ?t = dwrites s" "held ?t = H"
    "pinned ?t = pinned s" "bframe s ?t" "bcache_ok ?t" "\<forall>c m. c \<noteq> b \<longrightarrow> holds s c m \<longrightarrow> holds ?t c m"
    using bc.put_law [OF ok assms(2,3)] i(2) by simp_all
  have h: "holds s c m \<Longrightarrow> holds ?t c m" for c m
    using l(1,9) assms(2) by (cases "c = b") (auto simp: holds_def)
  have k: "kept s ?t" by (rule kept_bframe [OF l(7)]) (use l(3,4,6) h in auto)
  have "log_inv ?t" by (rule log_inv_bframe [OF i(1) l(7,8)]) (use l in simp_all)
  moreover have "l_n ?t = l_n s" "l_size ?t = l_size s" "l_outstanding ?t = l_outstanding s"
    using bframe_log [OF l(7)] by (simp_all add: same_log_def)
  ultimately show ?thesis using assms(1) l k by (simp add: tx_def)
qed

lemma tx_log_write:
  assumes "tx H (Suc k) s" and "holds s b n" and "n \<notin> log_region (l_start s)"
  shows "wp (log_write b s) (\<lambda>_ t. tx H k t \<and> bview t = bview s \<and> n \<in> pinned t \<and> kept s t)"
proof -
  have i: "log_inv s" "held s = H" "1 \<le> l_outstanding s" "Suc (l_n s) < l_size s" using assms(1) by (simp_all add: tx_def)
  obtain t where t: "log_write b s = Ok () t" "log_inv t" "bview t = bview s" "held t = held s" "pinned t = insert n (pinned s)"
    "\<forall>c m. holds s c m \<longrightarrow> holds t c m"
    using log_write_ok [OF i(1) assms(2,3) i(4,3)] by (auto elim: wpE)
  have "kept s t" by (rule log_write_kept [OF t(1)]) (use t in auto)
  then show ?thesis using t i assms(1) log_write_frame [OF t(1)] by (auto simp: tx_def)
qed

lemma tx_brelse:
  assumes "tx (insert n H) k s" and "n \<notin> H" and "holds s b n" and "n \<in> pinned s \<or> disk s n = bview s n"
    and "k' + (card H - 1) \<le> k + card H" and "k' > 0 \<longrightarrow> 1 \<le> l_outstanding s"
  shows "wp (brelse b s) (\<lambda>_ t. tx H k' t \<and> bview t = bview s \<and>
     disk t = disk s \<and> dwrites t = dwrites s \<and> pinned t = pinned s \<and> bframe s t \<and> (\<forall>c m. m \<noteq> n \<longrightarrow> holds s c m \<longrightarrow> holds t c m))"
proof -
  have i: "log_inv s" "held s = insert n H" using assms(1) by (simp_all add: tx_def)
  have ok: "bcache_ok s" using i(1) by (simp add: log_inv_def)
  have fin: "finite H" using i(2) finite_held [of s] by simp
  obtain t where t: "brelse b s = Ok () t" "bcache_ok t" "bview t = bview s" "disk t = disk s"
    "dwrites t = dwrites s" "held t = held s - {n}" "pinned t = pinned s" "bframe s t"
    "\<forall>c m. c \<noteq> b \<longrightarrow> holds s c m \<longrightarrow> holds t c m"
    using bc.rel_law [OF ok assms(3,4)] by (auto elim: wpE)
  have "log_inv t" by (rule log_inv_bframe [OF i(1) t(8,2)]) (use t in simp_all)
  moreover have "l_n t = l_n s" "l_size t = l_size s" "l_outstanding t = l_outstanding s"
    using bframe_log [OF t(8)] by (simp_all add: same_log_def)
  ultimately have "tx H k' t" using assms(1,2,5,6) t(6) i(2) fin by (auto simp: tx_def)
  moreover have "holds s c m \<Longrightarrow> m \<noteq> n \<Longrightarrow> holds t c m" for c m
    using t(9) assms(3) bc.has_one by metis
  ultimately show ?thesis using t by simp
qed

lemma holds_in_H: "tx H k s \<Longrightarrow> holds s c m \<Longrightarrow> m \<in> H"
  using holds_held by (auto simp: tx_def)

text \<open>
  A block that has been read: its data, what letting go of it does, and what replacing its content
  by \<open>d\<close> through the log and letting go of it does.
\<close>

definition opened :: "nat set \<Rightarrow> nat \<Rightarrow> 'z log_st_scheme \<Rightarrow> nat \<Rightarrow> nat \<Rightarrow> 'z log_st_scheme \<Rightarrow> bool" where
  "opened H k s n b u \<longleftrightarrow> b_data (bufs u b) = bview s n \<and> kept s u \<and>
     (\<exists>t. brelse b u = Ok () t \<and> tx H k t \<and> bview t = bview s \<and> kept s t) \<and>
     (\<forall>d. length d = BSIZE \<longrightarrow> n \<notin> log_region (l_start s) \<longrightarrow> card H < k \<longrightarrow>
        (\<exists>t. bindR (log_write b (set_data b d u)) (\<lambda>_ s. brelse b s) = Ok () t \<and>
             tx H (k - 1) t \<and> bview t = (bview s)(n := d) \<and> kept s t))"

lemma tx_close:
  assumes s: "tx H k0 s" "kept s w" and w: "tx (insert n H) (k - card H) w" "holds w b n" "n \<in> pinned w \<or> disk w n = bview w n"
    and "n \<notin> H" "card H \<le> 1" "card H \<le> k" "k \<le> k0"
  shows "\<exists>t. brelse b w = Ok () t \<and> tx H k t \<and> bview t = bview w \<and> kept s t"
proof -
  have o: "k > 0 \<longrightarrow> 1 \<le> l_outstanding w" using s(1) kept_fields [OF s(2)] assms(9) by (simp add: tx_def)
  have c: "k + (card H - 1) \<le> k - card H + card H" using assms(7,8) by simp
  obtain t where t: "brelse b w = Ok () t" "tx H k t" "bview t = bview w" "disk t = disk w" "dwrites t = dwrites w"
    "pinned t = pinned w" "bframe w t" "\<forall>c m. m \<noteq> n \<longrightarrow> holds w c m \<longrightarrow> holds t c m"
    using tx_brelse [OF w(1) assms(6) w(2,3) c o] by (auto elim: wpE)
  have h: "holds s c m \<Longrightarrow> holds t c m" for c m
    using t(8) kept_holds [OF s(2)] holds_in_H [OF s(1)] assms(6) by metis
  show ?thesis using kept_release [OF s(2) t(7,4,5,6) h] t by simp
qed

lemma tx_open:
  assumes "tx H k s" and "n < disksize s" and "n \<notin> H" and "card H \<le> 1" and "card H \<le> k"
  shows "\<exists>b u. bread 1 n s = Ok b u \<and> opened H k s n b u"
proof -
  obtain b u where u: "bread 1 n s = Ok b u" "tx (insert n H) (k - card H) u" "holds u b n" "bview u = bview s" "kept s u"
    "n \<in> pinned u \<or> disk u n = bview u n"
    using tx_bread [OF assms(1-3), of "k - card H"] assms(4,5) by (auto elim: wpE)
  have d: "b_data (bufs u b) = bview s n" using holds_view [of u b n] u(2-4) by (simp add: tx_def log_inv_def)
  have r: "\<exists>t. brelse b u = Ok () t \<and> tx H k t \<and> bview t = bview s \<and> kept s t"
    using tx_close [OF assms(1) u(5,2,3,6) assms(3-5)] u(4) by simp
  have m: "\<exists>t. bindR (log_write b (set_data b x u)) (\<lambda>_ s. brelse b s) = Ok () t \<and>
             tx H (k - 1) t \<and> bview t = (bview s)(n := x) \<and> kept s t"
    if x: "length x = BSIZE" and nl: "n \<notin> log_region (l_start s)" and ck: "card H < k" for x
  proof -
    have su: "tx (insert n H) (Suc (k - 1 - card H)) u" using u(2) ck by (metis Suc_diff_Suc diff_Suc_eq_diff_pred)
    let ?v = "set_data b x u"
    have v: "tx (insert n H) (Suc (k - 1 - card H)) ?v" "holds ?v b n" "bview ?v = (bview s)(n := x)" "kept u ?v"
      using tx_put [OF su u(3) x] u(4) by simp_all
    have st: "n \<notin> log_region (l_start ?v)" using nl kept_fields(3) [OF u(5)] kept_fields(3) [OF v(4)] by simp
    obtain w where w: "log_write b ?v = Ok () w" "tx (insert n H) (k - 1 - card H) w" "bview w = bview ?v" "n \<in> pinned w" "kept ?v w"
      using tx_log_write [OF v(1,2) st] by (auto elim: wpE)
    have kw: "kept s w" by (rule kept_trans [OF u(5) kept_trans [OF v(4) w(5)]])
    show ?thesis
      using tx_close [OF assms(1) kw w(2) kept_holds [OF w(5) v(2)] _ assms(3,4)] w(1,3,4) v(3) ck by auto
  qed
  show ?thesis using u(1,5) d r m by (auto simp: opened_def)
qed

lemma tx_read:
  assumes "tx H k s" and "n < disksize s" and "n \<notin> H" and "card H \<le> 1" and "card H \<le> k"
  obtains b u t where "bread 1 n s = Ok b u" and "b_data (bufs u b) = bview s n" and "kept s u"
    and "brelse b u = Ok () t" and "tx H k t" and "bview t = bview s" and "kept s t"
  using tx_open [OF assms] unfolding opened_def by blast

lemma openedD:
  assumes "opened H k s n b u"
  shows "b_data (bufs u b) = bview s n" and "kept s u"
    and "\<exists>t. brelse b u = Ok () t \<and> tx H k t \<and> bview t = bview s \<and> kept s t"
  using assms by (simp_all add: opened_def)

lemma opened_write:
  assumes "opened H (Suc k) s n b u" and "length d = BSIZE" and "n \<notin> log_region (l_start s)" and "card H \<le> k"
  obtains w t where "log_write b (set_data b d u) = Ok () w" and "brelse b w = Ok () t" and "tx H k t"
    and "bview t = (bview s)(n := d)" and "kept s t"
proof -
  have "\<exists>t. bindR (log_write b (set_data b d u)) (\<lambda>_ s. brelse b s) = Ok () t \<and> tx H k t \<and> bview t = (bview s)(n := d) \<and> kept s t"
    using assms unfolding opened_def by simp
  then show thesis using that by (auto simp: bindR_eq_Ok)
qed

lemma tx_modify:
  assumes "tx H (Suc k) s" and "n < disksize s" and "n \<notin> H" and "card H \<le> 1" and "card H \<le> k" and "n \<notin> log_region (l_start s)"
    and "length (g (bview s n)) = BSIZE"
  shows "wp (bindR (bread 1 n s) (\<lambda>b s. bindR (log_write b (set_data b (g (b_data (bufs s b))) s)) (\<lambda>_ s. brelse b s)))
     (\<lambda>_ t. tx H k t \<and> bview t = (bview s)(n := g (bview s n)) \<and> kept s t)"
proof -
  obtain b u where u: "bread 1 n s = Ok b u" "opened H (Suc k) s n b u" using tx_open [OF assms(1-4)] assms(5) by auto
  show ?thesis
    by (rule opened_write [OF u(2) assms(7,6,5)]) (use u openedD(1) [OF u(2)] in simp)
qed

end
