(* ===== verification/Inodes.thy ===== *)
theory Inodes
  imports Txn
begin

section \<open>Properties of the block allocator and the inodes\<close>

text \<open>
  The codec of on-disk inodes, the bitmap, and what \<open>balloc\<close>, \<open>iupdate\<close> and \<open>ilock\<close> do to the
  blocks of a well-formed file system inside a transaction.
\<close>

unbundle bit_operations_syntax

subsection \<open>Layout\<close>

lemma slice_append1: "off + n \<le> length xs \<Longrightarrow> slice off n (xs @ ys) = slice off n xs"
  by (simp add: slice_def)

lemma slice_append2: "length xs \<le> off \<Longrightarrow> slice off n (xs @ ys) = slice (off - length xs) n ys"
  by (simp add: slice_def)

lemma slice_words: "k < length ws \<Longrightarrow> slice (4 * k) 4 (concat (map enc32 ws)) = enc32 (ws ! k)"
proof (induction ws arbitrary: k)
  case (Cons w ws)
  then show ?case by (cases k) (simp_all add: slice_append1 slice_append2)
qed simp

lemma length_words [simp]: "length (concat (map enc32 ws)) = 4 * length ws"
  by (induction ws) auto

lemma length_enc_dinode [simp]: "length (d_addrs d) = NDIRECT + 1 \<Longrightarrow> length (enc_dinode d) = DINODE_SIZE"
  by (simp add: enc_dinode_def)

lemma dec_enc_dinode: "length (d_addrs d) = NDIRECT + 1 \<Longrightarrow> dec_dinode (enc_dinode d) = d"
proof -
  assume l: "length (d_addrs d) = NDIRECT + 1"
  have "map (\<lambda>k. dec32 (slice (12 + 4 * k) 4 (enc_dinode d))) [0..<NDIRECT + 1] = d_addrs d"
    using l by (intro nth_equalityI) (simp_all del: upt_Suc add: enc_dinode_def slice_append2 slice_words)
  then show ?thesis
    by (simp del: upt_Suc add: dec_dinode_def) (simp add: enc_dinode_def slice_append1 slice_append2)
qed

lemma length_dinode_put [simp]:
  "length d = BSIZE \<Longrightarrow> length (d_addrs di) = NDIRECT + 1 \<Longrightarrow> length (dinode_put inum di d) = BSIZE"
  unfolding dinode_put_def by (subst length_splice_at) simp_all

lemma dinode_at_put:
  assumes "length d = BSIZE" and "length (d_addrs di) = NDIRECT + 1"
  shows "dinode_at (dinode_put inum di d) inum = di"
    and "j mod IPB \<noteq> inum mod IPB \<Longrightarrow> dinode_at (dinode_put inum di d) j = dinode_at d j"
proof -
  have m: "x mod 8 * 64 + 64 \<le> 512" for x :: nat using mod_less_divisor [of 8 x] by linarith
  show "dinode_at (dinode_put inum di d) inum = di"
    using assms m [of inum] dec_enc_dinode [OF assms(2)] by (simp add: dinode_at_def dinode_put_def)
  assume "j mod IPB \<noteq> inum mod IPB"
  then have "j mod 8 \<noteq> inum mod 8" by simp
  then have "j mod 8 * 64 + 64 \<le> inum mod 8 * 64 \<or> inum mod 8 * 64 + 64 \<le> j mod 8 * 64" by linarith
  then show "dinode_at (dinode_put inum di d) j = dinode_at d j"
    unfolding dinode_at_def dinode_put_def
    by (subst slice_splice_disjoint) (use assms m [of inum] m [of j] in simp_all)
qed

lemma length_word_put [simp]: "k < NINDIRECT \<Longrightarrow> length d = BSIZE \<Longrightarrow> length (word_put k w d) = BSIZE"
  unfolding word_put_def by (subst length_splice_at) simp_all

lemma word_at_put:
  assumes "length d = BSIZE" and "k < NINDIRECT" and "j < NINDIRECT"
  shows "word_at (word_put k w d) j = (if j = k then w else word_at d j)"
proof (cases "j = k")
  case False
  then have "slice (4 * j) 4 (splice_at (4 * k) (enc32 w) d) = slice (4 * j) 4 d"
    using assms by (intro slice_splice_disjoint) auto
  then show ?thesis using False by (simp add: word_at_def word_put_def)
qed (use assms in \<open>simp add: word_at_def word_put_def\<close>)

lemma bm_nth_bits:
  "bm_test d bi \<longleftrightarrow> bit (d ! (bi div 8)) (bi mod 8)"
proof -
  have "bi mod 8 < LENGTH(8)" by simp
  then show ?thesis unfolding bm_test_def by (simp add: push_bit_eq_mult bit_iff_and_push_bit_not_eq_0 and.commute)
qed

lemma bm_test_set:
  assumes "length d = BSIZE" and "bi < BPB" and "bj < BPB"
  shows "bm_test (bm_set bi d) bj \<longleftrightarrow> bj = bi \<or> bm_test d bj"
  using assms
  by (auto simp: bm_nth_bits bm_set_def nth_list_update bit_simps) (metis div_mult_mod_eq)+

lemma bm_test_clear:
  assumes "length d = BSIZE" and "bi < BPB" and "bj < BPB"
  shows "bm_test (bm_clear bi d) bj \<longleftrightarrow> bj \<noteq> bi \<and> bm_test d bj"
  using assms
  by (auto simp: bm_nth_bits bm_clear_def nth_list_update bit_simps) (metis div_mult_mod_eq)+

lemma length_bm_set [simp]: "length (bm_set bi d) = length d" "length (bm_clear bi d) = length d"
  by (simp_all add: bm_set_def bm_clear_def)

subsection \<open>A well-formed file system\<close>

text \<open>
  The areas of the disk follow each other as \<open>mkfs\<close> lays them out: the log, the inodes, the bitmap
  and the data blocks.
\<close>

definition fs_geom :: "'z fs_st_scheme \<Rightarrow> bool" where
  "fs_geom s \<longleftrightarrow> l_start s + LOGSIZE \<le> unat (sb_inodestart (sb s)) \<and>
     unat (sb_inodestart (sb s)) + unat (sb_ninodes (sb s)) div IPB < unat (sb_bmapstart (sb s)) \<and>
     unat (sb_bmapstart (sb s)) + unat (sb_size (sb s)) div BPB < unat (sb_size (sb s)) \<and>
     unat (sb_size (sb s)) \<le> disksize s"

definition used :: "'z fs_st_scheme \<Rightarrow> nat \<Rightarrow> bool" where
  "used s b \<longleftrightarrow> bm_test (bview s (BBLOCK b (sb s))) (b mod BPB)"

definition is_data :: "'z fs_st_scheme \<Rightarrow> nat \<Rightarrow> bool" where
  "is_data s b \<longleftrightarrow> unat (sb_bmapstart (sb s)) + unat (sb_size (sb s)) div BPB < b \<and> b < unat (sb_size (sb s))"

text \<open>The blocks before the data area are never free.\<close>

definition fs_ok :: "'z fs_st_scheme \<Rightarrow> bool" where
  "fs_ok s \<longleftrightarrow> fs_geom s \<and> (\<forall>b\<le>unat (sb_bmapstart (sb s)) + unat (sb_size (sb s)) div BPB. used s b)"

definition disk_inode :: "'z fs_st_scheme \<Rightarrow> nat \<Rightarrow> dinode" where
  "disk_inode s inum = dinode_at (bview s (IBLOCK inum (sb s))) inum"

lemma kept_fs:
  assumes "kept s t"
  shows "sb t = sb s" "inodes t = inodes s" "fs_st.more t = fs_st.more s" "fs_geom t = fs_geom s" "is_data t = is_data s"
proof -
  show f: "sb t = sb s" "inodes t = inodes s" "fs_st.more t = fs_st.more s"
    using assms unfolding kept_def by auto
  show "fs_geom t = fs_geom s" "is_data t = is_data s"
    using f kept_fields [OF assms] by (simp_all add: fs_geom_def is_data_def fun_eq_iff)
qed

lemma tx_length: "tx H k s \<Longrightarrow> length (bview s n) = BSIZE"
  by (simp only: tx_def log_inv_def) (blast intro: length_bview)

lemma geom_inode:
  assumes "fs_geom s" and "inum < unat (sb_ninodes (sb s))"
  shows "IBLOCK inum (sb s) < disksize s" "IBLOCK inum (sb s) \<notin> log_region (l_start s)" "\<not> is_data s (IBLOCK inum (sb s))"
    "IBLOCK inum (sb s) < unat (sb_bmapstart (sb s))"
proof -
  have "inum div 8 \<le> unat (sb_ninodes (sb s)) div 8" using assms(2) by (intro div_le_mono) simp
  then show "IBLOCK inum (sb s) < disksize s" "IBLOCK inum (sb s) \<notin> log_region (l_start s)" "\<not> is_data s (IBLOCK inum (sb s))"
    "IBLOCK inum (sb s) < unat (sb_bmapstart (sb s))"
    using assms by (auto simp: fs_geom_def IBLOCK_def log_region_def is_data_def)
qed

lemma geom_bitmap:
  assumes "fs_geom s" and "b < unat (sb_size (sb s))"
  shows "BBLOCK b (sb s) < disksize s" "BBLOCK b (sb s) \<notin> log_region (l_start s)" "\<not> is_data s (BBLOCK b (sb s))"
proof -
  have "b div 4096 \<le> unat (sb_size (sb s)) div 4096" using assms(2) by (intro div_le_mono) simp
  then show "BBLOCK b (sb s) < disksize s" "BBLOCK b (sb s) \<notin> log_region (l_start s)" "\<not> is_data s (BBLOCK b (sb s))"
    using assms by (auto simp: fs_geom_def BBLOCK_def log_region_def is_data_def)
qed

lemma geom_data:
  assumes "fs_geom s" and "is_data s b"
  shows "b < disksize s" "b \<notin> log_region (l_start s)" "b > 0"
  using assms by (auto simp: fs_geom_def is_data_def log_region_def)

lemma free_is_data: "fs_ok s \<Longrightarrow> \<not> used s b \<Longrightarrow> b < unat (sb_size (sb s)) \<Longrightarrow> is_data s b"
  by (auto simp: fs_ok_def is_data_def not_le)

subsection \<open>The allocator\<close>

lemma bzero_spec:
  assumes "tx H (Suc k) s" and "fs_geom s" and "is_data s b" and "b \<notin> H" and "card H \<le> 1" and "card H \<le> k"
  shows "wp (bzero 1 b s) (\<lambda>_ t. tx H k t \<and> bview t = (bview s)(b := replicate BSIZE 0) \<and> kept s t)"
  unfolding bzero_def using tx_modify [OF assms(1) geom_data(1) [OF assms(2,3)] assms(4-6) geom_data(2) [OF assms(2,3)], of "\<lambda>_. replicate BSIZE 0"]
  by simp

text \<open>The bitmap after an allocation of block \<open>n\<close>, and what the other bits are.\<close>

lemma used_after:
  assumes "fs_geom s" and "tx H k s" and "n < unat (sb_size (sb s))" and "c < unat (sb_size (sb s))"
    and t: "bview t (BBLOCK c (sb s)) = ((bview s)(BBLOCK n (sb s) := bm_set (n mod BPB) (bview s (BBLOCK n (sb s))))) (BBLOCK c (sb s))"
    and "sb t = sb s"
  shows "used t c \<longleftrightarrow> c = n \<or> used s c"
proof (cases "c div 4096 = n div 4096")
  case True
  then have "c mod 4096 = n mod 4096 \<longleftrightarrow> c = n" by (metis div_mult_mod_eq)
  then show ?thesis
    using True t assms(6) bm_test_set [OF tx_length [OF assms(2)], of "n mod BPB" "c mod BPB"]
    by (simp add: used_def BBLOCK_def)
next
  case False
  then have "BBLOCK c (sb s) \<noteq> BBLOCK n (sb s)" "c \<noteq> n" by (auto simp: BBLOCK_def)
  then show ?thesis using t assms(6) by (simp add: used_def)
qed

definition balloc_post :: "nat set \<Rightarrow> nat \<Rightarrow> nat \<Rightarrow> 'z fs_st_scheme \<Rightarrow> nat \<Rightarrow> 'z fs_st_scheme \<Rightarrow> bool" where
  "balloc_post H k lo s n t \<longleftrightarrow> n < unat (sb_size (sb s)) \<and> \<not> used s n \<and> (\<forall>c. lo \<le> c \<and> c < n \<longrightarrow> used s c) \<and>
     tx H k t \<and> kept s t \<and>
     bview t = (bview s)(BBLOCK n (sb s) := bm_set (n mod BPB) (bview s (BBLOCK n (sb s))), n := replicate BSIZE 0)"

lemma used_block: "bi < BPB \<Longrightarrow> used s (j * BPB + bi) = bm_test (bview s (BBLOCK (j * BPB) (sb s))) bi"
  by (simp add: used_def BBLOCK_def)

lemma find_bit:
  assumes "find (\<lambda>bi. \<not> bm_test (bview s (BBLOCK (j * BPB) (sb s))) bi) [0..<min BPB (sz - j * BPB)] = Some bi"
  shows "bi < BPB \<and> j * BPB + bi < sz \<and> \<not> used s (j * BPB + bi) \<and> (\<forall>c. j * BPB \<le> c \<and> c < j * BPB + bi \<longrightarrow> used s c)"
proof -
  obtain i where i: "i < min BPB (sz - j * BPB)" "bi = i" "\<not> bm_test (bview s (BBLOCK (j * BPB) (sb s))) bi"
    "\<forall>i'<i. bm_test (bview s (BBLOCK (j * BPB) (sb s))) i'"
    using assms by (auto simp: find_Some_iff)
  have "used s c" if "j * BPB \<le> c" "c < j * BPB + bi" for c
    using used_block [of "c - j * BPB" s j] i that by auto
  then show ?thesis using i used_block [of bi s j] by auto
qed

lemma find_no_bit:
  assumes "find (\<lambda>bi. \<not> bm_test (bview s (BBLOCK (j * BPB) (sb s))) bi) [0..<min BPB (sz - j * BPB)] = None"
    and "j * BPB \<le> c" and "c < sz" and "\<not> used s c"
  shows "Suc j * BPB \<le> c"
proof (rule ccontr)
  assume "\<not> Suc j * BPB \<le> c"
  then have "c - j * BPB < min BPB (sz - j * BPB)" using assms(2,3) by auto
  then have "bm_test (bview s (BBLOCK (j * BPB) (sb s))) (c - j * BPB)" using assms(1) by (simp add: find_None_iff)
  then show False using used_block [of "c - j * BPB" s j] assms(2,4) \<open>c - j * BPB < _\<close> by simp
qed

lemma balloc_take:
  assumes "fs_ok s" and "opened H (Suc (Suc k)) s (BBLOCK n (sb s)) bp u" and "n < unat (sb_size (sb s))" and "\<not> used s n"
    and "n \<notin> H" and "card H \<le> 1" and "card H \<le> k" and "length (bview s (BBLOCK n (sb s))) = BSIZE"
    and "\<forall>c. lo \<le> c \<and> c < n \<longrightarrow> used s c"
  shows "wp (bindR (log_write bp (set_data bp (bm_set (n mod BPB) (b_data (bufs u bp))) u)) (\<lambda>_ s.
      bindR (brelse bp s) (\<lambda>_ s. bindR (bzero 1 n s) (\<lambda>_ s. Ok (of_nat n :: u32) s))))
    (\<lambda>b t. balloc_post H k lo s (unat b) t)"
proof -
  let ?B = "BBLOCK n (sb s)"
  have g: "fs_geom s" using assms(1) by (simp add: fs_ok_def)
  have d: "is_data s n" by (rule free_is_data [OF assms(1,4,3)])
  have l: "length (bm_set (n mod BPB) (bview s ?B)) = BSIZE" using assms(8) by simp
  obtain w t where w: "log_write bp (set_data bp (bm_set (n mod BPB) (bview s ?B)) u) = Ok () w" "brelse bp w = Ok () t"
    "tx H (Suc k) t" "bview t = (bview s)(?B := bm_set (n mod BPB) (bview s ?B))" "kept s t"
    by (rule opened_write [OF assms(2) l geom_bitmap(2) [OF g assms(3)]]) (use assms(7) in simp_all)
  have e: "b_data (bufs u bp) = bview s ?B" using openedD(1) [OF assms(2)] .
  have u: "unat (of_nat n :: u32) = n" using assms(3) unsigned_less [where 'a = nat, of "sb_size (sb s)"] by (simp add: unat_of_nat take_bit_nat_eq_self)
  obtain v where v: "bzero 1 n t = Ok () v" "tx H k v" "bview v = (bview t)(n := replicate BSIZE 0)" "kept t v"
    using bzero_spec [OF w(3), of n] g d assms(5-7) kept_fs [OF w(5)] by (auto elim: wpE)
  show ?thesis using w v e u assms(3,4,9) kept_trans [OF w(5) v(4)] by (simp add: balloc_post_def)
qed

lemma balloc_from_spec:
  assumes "tx H (Suc (Suc k)) s" and "fs_ok s" and "card H \<le> 1" and "card H \<le> k" and "\<forall>h\<in>H. used s h \<and> is_data s h"
    and "c < unat (sb_size (sb s))" and "j * BPB \<le> c" and "\<not> used s c"
  shows "wp (balloc_from 1 (map (\<lambda>k. k * BPB) [j..<(unat (sb_size (sb s)) + BPB - 1) div BPB]) s)
     (\<lambda>b t. balloc_post H k (j * BPB) s (unat b) t)"
  using assms
proof (induction "(unat (sb_size (sb s)) + BPB - 1) div BPB - j" arbitrary: j s)
  case 0
  then have "c div 4096 < (unat (sb_size (sb s)) + 4095) div 4096" by simp
  moreover have "j \<le> c div 4096" using 0(8) by (simp add: less_eq_div_iff_mult_less_eq)
  ultimately show ?case using 0(1) by simp
next
  case (Suc x)
  let ?sz = "unat (sb_size (sb s))" and ?m = "(unat (sb_size (sb s)) + BPB - 1) div BPB"
  have l: "[j..<?m] = j # [Suc j..<?m]" using Suc(2) by (simp add: upt_conv_Cons)
  have g: "fs_geom s" using Suc.prems(2) by (simp add: fs_ok_def)
  have j: "j * BPB < ?sz" using Suc.prems(6,7) by linarith
  have nh: "BBLOCK (j * BPB) (sb s) \<notin> H" using geom_bitmap(3) [OF g j] Suc.prems(5) by blast
  obtain b u where u: "bread 1 (BBLOCK (j * BPB) (sb s)) s = Ok b u" "opened H (Suc (Suc k)) s (BBLOCK (j * BPB) (sb s)) b u"
    using tx_open [OF Suc.prems(1) geom_bitmap(1) [OF g j] nh Suc.prems(3)] Suc.prems(4) by auto
  have o: "b_data (bufs u b) = bview s (BBLOCK (j * BPB) (sb s))" "kept s u" using u(2) by (simp_all add: opened_def)
  note su = kept_fs(1) [OF o(2)]
  show ?case
  proof (cases "find (\<lambda>bi. \<not> bm_test (bview s (BBLOCK (j * BPB) (sb s))) bi) [0..<min BPB (?sz - j * BPB)]")
    case (Some bi)
    note f = find_bit [OF Some]
    have e: "BBLOCK (j * 4096 + bi) (sb s) = BBLOCK (j * 4096) (sb s)" "(j * 4096 + bi) mod 4096 = bi" using f by (simp_all add: BBLOCK_def)
    have "j * BPB + bi \<notin> H" using f Suc.prems(5) by blast
    from balloc_take [OF Suc.prems(2), of H k "j * BPB + bi" b u "j * BPB"] this
    show ?thesis unfolding l using u f Some o(1) su Suc.prems(3,4) tx_length [OF Suc.prems(1)] by (simp add: e del: of_nat_add)
  next
    case None
    obtain t where t: "brelse b u = Ok () t" "tx H (Suc (Suc k)) t" "bview t = bview s" "kept s t" using u(2) by (auto simp: opened_def)
    note ft = kept_fs [OF t(4)]
    have us: "used t = used s" using t(3) ft by (simp add: used_def fun_eq_iff)
    have "fs_ok t" using Suc.prems(2) ft us by (simp add: fs_ok_def)
    then have "wp (balloc_from 1 (map (\<lambda>k. k * BPB) [Suc j..<?m]) t) (\<lambda>b v. balloc_post H k (Suc j * BPB) t (unat b) v)"
      using Suc(1) [of t "Suc j"] Suc(2) Suc.prems t(2) ft us find_no_bit [OF None Suc.prems(7,6,8)] by simp
    moreover have "balloc_post H k (j * BPB) s n v" if p: "balloc_post H k (Suc j * BPB) t n v" for n v
    proof -
      have "used s d" if "j * BPB \<le> d" "d < n" for d
        using that p find_no_bit [OF None that(1)] ft us unfolding balloc_post_def by (metis less_trans)
      then show ?thesis using p kept_trans [OF t(4)] ft(1) us t(3) by (simp add: balloc_post_def)
    qed
    ultimately show ?thesis unfolding l using u(1) None o(1) su t(1) by (auto intro: wp_mono)
  qed
qed

lemma balloc_spec:
  assumes "tx H (Suc (Suc k)) s" and "fs_ok s" and "card H \<le> 1" and "card H \<le> k" and "\<forall>h\<in>H. used s h \<and> is_data s h"
    and "c < unat (sb_size (sb s))" and "\<not> used s c"
  shows "wp (balloc 1 s) (\<lambda>b t. balloc_post H k 0 s (unat b) t)"
  unfolding balloc_def using balloc_from_spec [OF assms(1-6), of 0] assms(7) by simp

lemma balloc_post_view:
  assumes "balloc_post H k lo s n t" and "fs_ok s" and "tx H' k' s"
  shows "is_data s n" "bview t n = replicate BSIZE 0" "fs_ok t"
    "is_data s m \<Longrightarrow> m \<noteq> n \<Longrightarrow> bview t m = bview s m"
    "m < unat (sb_bmapstart (sb s)) \<Longrightarrow> bview t m = bview s m"
    "c < unat (sb_size (sb s)) \<Longrightarrow> used t c \<longleftrightarrow> c = n \<or> used s c"
proof -
  have g: "fs_geom s" using assms(2) by (simp add: fs_ok_def)
  have p: "n < unat (sb_size (sb s))" "\<not> used s n" "kept s t"
    and v: "bview t = (bview s)(BBLOCK n (sb s) := bm_set (n mod BPB) (bview s (BBLOCK n (sb s))), n := replicate BSIZE 0)"
    using assms(1) unfolding balloc_post_def by blast+
  show d: "is_data s n" by (rule free_is_data [OF assms(2) p(2,1)])
  show "bview t n = replicate BSIZE 0" by (simp add: v)
  show "is_data s m \<Longrightarrow> m \<noteq> n \<Longrightarrow> bview t m = bview s m" for m using geom_bitmap(3) [OF g p(1)] v by auto
  show "m < unat (sb_bmapstart (sb s)) \<Longrightarrow> bview t m = bview s m" for m
    using d v by (auto simp: is_data_def BBLOCK_def)
  have us: "used t c \<longleftrightarrow> c = n \<or> used s c" if c: "c < unat (sb_size (sb s))" for c
  proof (rule used_after [OF g assms(3) p(1) c _ kept_fs(1) [OF p(3)]])
    show "bview t (BBLOCK c (sb s)) = ((bview s)(BBLOCK n (sb s) := bm_set (n mod BPB) (bview s (BBLOCK n (sb s))))) (BBLOCK c (sb s))"
      using d geom_bitmap(3) [OF g c] unfolding v by (metis fun_upd_other)
  qed
  then show "c < unat (sb_size (sb s)) \<Longrightarrow> used t c \<longleftrightarrow> c = n \<or> used s c" .
  have "used t b" if "b \<le> unat (sb_bmapstart (sb s)) + unat (sb_size (sb s)) div BPB" for b
    using us [of b] that assms(2) by (auto simp: fs_ok_def fs_geom_def)
  then show "fs_ok t" using g kept_fs [OF p(3)] by (simp add: fs_ok_def)
qed

subsection \<open>Inodes\<close>

lemma upd_inode_bio [simp]:
  "bcache_ok (upd_inode i f s) = bcache_ok s" "bview (upd_inode i f s) = bview s" "held (upd_inode i f s) = held s"
  "pinned (upd_inode i f s) = pinned s" "holds (upd_inode i f s) = holds s"
  by (rule bio_cong; simp add: upd_inode_def)+

lemma upd_inode_simps [simp]:
  "sb (upd_inode i f s) = sb s" "inodes (upd_inode i f s) = (inodes s)(i := f (inodes s i))" "l_start (upd_inode i f s) = l_start s"
  "disksize (upd_inode i f s) = disksize s" "curproc (upd_inode i f s) = curproc s" "ptable (upd_inode i f s) = ptable s"
  "disk (upd_inode i f s) = disk s" "l_n (upd_inode i f s) = l_n s" "l_size (upd_inode i f s) = l_size s"
  "l_outstanding (upd_inode i f s) = l_outstanding s" "l_dev (upd_inode i f s) = l_dev s" "l_block (upd_inode i f s) = l_block s"
  by (simp_all add: upd_inode_def)

lemma upd_inode_fs [simp]:
  "tx H k (upd_inode i f s) = tx H k s" "fs_geom (upd_inode i f s) = fs_geom s" "used (upd_inode i f s) = used s"
  "is_data (upd_inode i f s) = is_data s" "fs_ok (upd_inode i f s) = fs_ok s" "disk_inode (upd_inode i f s) = disk_inode s"
  by (simp_all add: tx_def log_inv_def fs_geom_def used_def is_data_def fs_ok_def disk_inode_def fun_eq_iff)

lemma tx_curproc: "tx H k s \<Longrightarrow> \<exists>c. curproc s = Some c"
  by (auto simp: tx_def log_inv_def)

lemma iupdate_spec:
  assumes "tx {} (Suc k) s" and "fs_geom s" and "i_dev (inodes s i) = 1" and "i_inum (inodes s i) < unat (sb_ninodes (sb s))"
    and "length (i_addrs (inodes s i)) = NDIRECT + 1"
  shows "wp (iupdate i s) (\<lambda>_ t. tx {} k t \<and> kept s t \<and> disk_inode t (i_inum (inodes s i)) = to_dinode (inodes s i) \<and>
     (\<forall>j. j \<noteq> i_inum (inodes s i) \<longrightarrow> disk_inode t j = disk_inode s j) \<and>
     (\<forall>m. m \<noteq> IBLOCK (i_inum (inodes s i)) (sb s) \<longrightarrow> bview t m = bview s m))"
proof -
  let ?n = "i_inum (inodes s i)" and ?d = "to_dinode (inodes s i)"
  let ?B = "IBLOCK ?n (sb s)"
  have la: "length (d_addrs ?d) = NDIRECT + 1" using assms(5) by (simp add: to_dinode_def)
  note lb = tx_length [OF assms(1), of ?B]
  have "wp (iupdate i s) (\<lambda>_ t. tx {} k t \<and> bview t = (bview s)(?B := dinode_put ?n ?d (bview s ?B)) \<and> kept s t)"
    using tx_modify [OF assms(1) geom_inode(1) [OF assms(2,4)], of "dinode_put ?n ?d"] geom_inode(2) [OF assms(2,4)] length_dinode_put [OF lb la] assms(3)
    by (simp add: iupdate_def Let_def)
  then obtain t where t: "iupdate i s = Ok () t" "tx {} k t" "bview t = (bview s)(?B := dinode_put ?n ?d (bview s ?B))" "kept s t"
    by (auto elim: wpE)
  note st = kept_fs(1) [OF t(4)]
  have "disk_inode t j = disk_inode s j" if j: "j \<noteq> ?n" for j
  proof (cases "IBLOCK j (sb s) = ?B")
    case True
    then have "j div 8 = ?n div 8" by (simp add: IBLOCK_def)
    then have "j mod IPB \<noteq> ?n mod IPB" using j by simp (metis div_mult_mod_eq)
    then show ?thesis using dinode_at_put(2) [OF lb la] True t(3) st by (simp add: disk_inode_def)
  qed (simp add: disk_inode_def t(3) st)
  then show ?thesis using t st dinode_at_put(1) [OF lb la] by (simp add: disk_inode_def)
qed

lemma kept_upd_inode:
  assumes "kept s t"
  shows "kept (upd_inode i f s) (upd_inode i f t)"
proof -
  obtain pt bf n bl where t: "t = s\<lparr>ptable := pt, bufs := bf, l_n := n, l_block := bl\<rparr>" using assms by (auto simp: kept_def)
  then have "upd_inode i f t = (upd_inode i f s)\<lparr>ptable := pt, bufs := bf, l_n := n, l_block := bl\<rparr>" by (simp add: upd_inode_def)
  then have "\<exists>pt bf n bl. upd_inode i f t = (upd_inode i f s)\<lparr>ptable := pt, bufs := bf, l_n := n, l_block := bl\<rparr>" by blast
  moreover have "woken (upd_inode i f s) (upd_inode i f t)" using kept_fields(9) [OF assms] by (simp add: woken_def)
  moreover have "disk t = disk s" "pinned s \<subseteq> pinned t" "\<forall>c m. holds s c m \<longrightarrow> holds t c m" using assms by (simp_all add: kept_def)
  ultimately show ?thesis by (simp add: kept_def)
qed

text \<open>\<open>ilock\<close> of an inode that is not in memory loads it from its block.\<close>

lemma ilock_load:
  assumes "tx {} k s" and "fs_geom s" and "i_dev (inodes s i) = 1" and "i_inum (inodes s i) < unat (sb_ninodes (sb s))"
    and "1 \<le> i_ref (inodes s i)" and "\<not> sl_locked (i_lock (inodes s i))" and "\<not> i_valid (inodes s i)"
    and "d_type (disk_inode s (i_inum (inodes s i))) \<noteq> 0"
  shows "wp (ilock i s) (\<lambda>_ t. tx {} k t \<and> bview t = bview s \<and> sb t = sb s \<and>
     (\<exists>l. sl_locked l \<and> inodes t = (inodes s)(i := from_dinode (disk_inode s (i_inum (inodes s i))) (inodes s i)\<lparr>i_lock := l, i_valid := True\<rparr>)))"
proof -
  obtain c where c: "curproc s = Some c" using tx_curproc [OF assms(1)] by blast
  let ?l = "\<lambda>l. l\<lparr>sl_locked := True, sl_pid := p_pid (ptable s c)\<rparr>"
  define v where "v = upd_ilock i ?l s"
  have v: "tx {} k v" "fs_geom v" "bview v = bview s" "sb v = sb s" "disksize v = disksize s"
    "inodes v = (inodes s)(i := (inodes s i)\<lparr>i_lock := ?l (i_lock (inodes s i))\<rparr>)"
    using assms(1,2) by (simp_all add: v_def upd_ilock_def)
  let ?n = "i_inum (inodes s i)"
  have b: "IBLOCK ?n (sb s) < disksize v" using geom_inode(1) [OF assms(2,4)] v(5) by simp
  obtain x u where u: "bread 1 (IBLOCK ?n (sb s)) v = Ok x u" "tx {IBLOCK ?n (sb s)} k u" "holds u x (IBLOCK ?n (sb s))"
    "bview u = bview v" "kept v u" "IBLOCK ?n (sb s) \<in> pinned u \<or> disk u (IBLOCK ?n (sb s)) = bview u (IBLOCK ?n (sb s))"
    using tx_bread [OF v(1) b, of k] by (auto elim: wpE)
  have d: "b_data (bufs u x) = bview s (IBLOCK ?n (sb s))" using holds_view [of u x] u(2-4) v(3) by (simp add: tx_def log_inv_def)
  let ?f = "from_dinode (disk_inode s ?n)"
  obtain t where t: "brelse x (upd_inode i ?f u) = Ok () t" "tx {} k t" "bview t = bview s" "kept (upd_inode i ?f v) t"
    using tx_close [of "{}" k "upd_inode i ?f v" "upd_inode i ?f u" "IBLOCK ?n (sb s)" k x] v(1,3) u kept_upd_inode [OF u(5)] by auto
  have it: "inodes t i = ?f (inodes v i)" "inodes t = (inodes v)(i := ?f (inodes v i))" "sb t = sb s"
    using kept_fs [OF t(4)] v(4) by simp_all
  let ?w = "upd_inode i (\<lambda>ip. ip\<lparr>i_valid := True\<rparr>) t"
  have "ilock i s = Ok () ?w"
    using assms(3,5-8) c u(1) t(1) d v(4) it kept_fs(1,2) [OF u(5)]
    by (simp add: ilock_def acquiresleep_def v(6) disk_inode_def from_dinode_def flip: v_def)
  moreover have "inodes ?w = (inodes s)(i := ?f (inodes s i)\<lparr>i_lock := ?l (i_lock (inodes s i)), i_valid := True\<rparr>)"
    by (cases "inodes s i") (simp add: it(2) v(6) from_dinode_def)
  ultimately show ?thesis using t(2,3) it(3) by simp (intro exI [of _ "?l (i_lock (inodes s i))"], simp)
qed

subsection \<open>A file system for examples\<close>

text \<open>An empty file system with room in its log, laid out as \<open>mkfs\<close> does it: blocks 0 to 58 are in use.\<close>

definition demo_disk :: "nat \<Rightarrow> u8 list" where
  "demo_disk = zero_disk(58 := [255, 255, 255, 255, 255, 255, 255, 7] @ replicate 504 0)"

definition fs_demo :: fs_st where
  "fs_demo = (fs_boot demo_disk)\<lparr>l_outstanding := 1\<rparr>"

lemma length_demo_disk: "length (demo_disk n) = BSIZE"
  by (simp add: demo_disk_def zero_disk_def)

lemma fs_demo_fields [simp]:
  "l_start fs_demo = 2" "l_size fs_demo = 30" "l_n fs_demo = 0" "l_outstanding fs_demo = 1" "sb fs_demo = demo_sb"
  "inodes fs_demo = (\<lambda>_. zero_inode)" "disk fs_demo = demo_disk" "disksize fs_demo = FSSIZE"
  using log_boot_ok [of demo_disk] length_demo_disk by (simp_all add: fs_demo_def fs_boot_def log_st.defs fs_st.defs)

lemma fs_demo_ok: "bview fs_demo = demo_disk" "tx {} 29 fs_demo" "fs_geom fs_demo"
proof -
  note L = log_boot_ok [of demo_disk, OF length_demo_disk]
  have b: "bufs fs_demo = bufs (log_boot demo_disk)" "curproc fs_demo = curproc (log_boot demo_disk)" "l_dev fs_demo = l_dev (log_boot demo_disk)"
    by (simp_all add: fs_demo_def fs_boot_def log_st.defs fs_st.defs)
  note C = bio_cong [of fs_demo "log_boot demo_disk", OF b(1)] and B = L(1) [unfolded booted_def]
  show "bview fs_demo = demo_disk" using C(2) L by simp
  have "hdr_n (demo_disk 2) = 0" by (simp add: hdr_n_def demo_disk_def zero_disk_def slice_def dec32_def eval_nat_numeral)
  then show "tx {} 29 fs_demo" using B C L b by (simp add: tx_def log_inv_def)
  show "fs_geom fs_demo" by (simp add: fs_geom_def demo_sb_def)
qed

lemma fs_demo_used: "b < 4096 \<Longrightarrow> used fs_demo b \<longleftrightarrow> b < 59"
proof -
  assume b: "b < 4096"
  have n: "BBLOCK b demo_sb = 58" using b by (simp add: BBLOCK_def demo_sb_def)
  have "b \<ge> 64 \<Longrightarrow> ([255, 255, 255, 255, 255, 255, 255, 7 :: u8] @ replicate 504 0) ! (b div 8) = 0"
    using b by (simp add: nth_append)
  moreover have "list_all (\<lambda>b. bm_test ([255, 255, 255, 255, 255, 255, 255, 7] @ replicate 504 0) b = (b < 59)) [0..<64]"
    by (simp add: upt_rec bm_test_def nth_append)
  ultimately show ?thesis
    using b by (cases "b < 64") (auto simp: used_def fs_demo_ok n demo_disk_def bm_nth_bits list_all_iff)
qed

lemma fs_demo_fs_ok: "fs_ok fs_demo"
  using fs_demo_ok(3) by (simp add: fs_ok_def fs_demo_used demo_sb_def)

subsection \<open>Properties\<close>

text \<open>
  C13. \<open>balloc\<close> in a well-formed file system with a free block, inside a transaction with room for two
  more writes, returns the lowest free block, a data block; it marks exactly this block as used, the
  block reads as zeros, and no other data block, no inode block and nothing below them changes. The
  file system stays well formed.
\<close>

theorem balloc_allocates:
  assumes "tx {} (Suc (Suc k)) s" and "fs_ok s" and "c < unat (sb_size (sb s))" and "\<not> used s c"
  shows "wp (balloc 1 s) (\<lambda>b t. let n = unat b in
     is_data s n \<and> \<not> used s n \<and> (\<forall>d<n. used s d) \<and> (\<forall>d<unat (sb_size (sb s)). used t d \<longleftrightarrow> d = n \<or> used s d) \<and>
     bview t n = replicate BSIZE 0 \<and> (\<forall>m. is_data s m \<and> m \<noteq> n \<longrightarrow> bview t m = bview s m) \<and>
     (\<forall>m<unat (sb_bmapstart (sb s)). bview t m = bview s m) \<and> fs_ok t \<and> tx {} k t)"
proof -
  have "wp (balloc 1 s) (\<lambda>b t. balloc_post {} k 0 s (unat b) t)"
    using balloc_spec [OF assms(1,2) _ _ _ assms(3,4)] by simp
  then show ?thesis
  proof (rule wp_mono)
    fix b t
    assume p: "balloc_post {} k 0 s (unat (b :: u32)) t"
    note v = balloc_post_view [OF p assms(2,1)]
    have q: "\<not> used s (unat b)" "\<forall>d<unat b. used s d" "tx {} k t" using p unfolding balloc_post_def by simp_all
    show "let n = unat b in
     is_data s n \<and> \<not> used s n \<and> (\<forall>d<n. used s d) \<and> (\<forall>d<unat (sb_size (sb s)). used t d \<longleftrightarrow> d = n \<or> used s d) \<and>
     bview t n = replicate BSIZE 0 \<and> (\<forall>m. is_data s m \<and> m \<noteq> n \<longrightarrow> bview t m = bview s m) \<and>
     (\<forall>m<unat (sb_bmapstart (sb s)). bview t m = bview s m) \<and> fs_ok t \<and> tx {} k t"
      unfolding Let_def using q v(1-3) by (simp add: v(4-6))
  qed
qed

theorem balloc_allocates_witness:
  "wp (balloc 1 fs_demo) (\<lambda>b t. unat b = 59 \<and> used t 59 \<and> tx {} 27 t)"
proof -
  have n: "\<not> used fs_demo 59" and x: "tx {} (Suc (Suc 27)) fs_demo" using fs_demo_ok(2) by (simp_all add: fs_demo_used)
  have z: "unat (sb_size (sb fs_demo)) = 1000" by (simp add: demo_sb_def)
  have e: "m = 59" if "is_data fs_demo m" "\<not> used fs_demo m" "\<forall>d<m. used fs_demo d" for m
  proof -
    have "m < 1000" using that(1) z by (simp add: is_data_def)
    then have "\<not> m < 59" using that(2) by (simp add: fs_demo_used)
    then show ?thesis using that(3) n by (metis linorder_neqE_nat)
  qed
  show ?thesis
    by (rule balloc_allocates [OF x fs_demo_fs_ok _ n, THEN wp_mono]) (use z e in \<open>auto simp: Let_def\<close>)
qed

text \<open>
  C12. An inode survives leaving memory: once \<open>iupdate\<close> has written a linked inode and the last reference
  is dropped with \<open>iput\<close>, an \<open>iget\<close> of its number followed by \<open>ilock\<close> gives a locked inode with the
  same type, device numbers, links, size and block addresses. Every other on-disk inode is as it was.
\<close>

theorem inode_survives_eviction:
  assumes "tx {} (Suc k) s" and "fs_geom s" and "i < NINODE" and "inodes s i = ip"
    and "i_dev ip = 1" and "i_inum ip < unat (sb_ninodes (sb s))" and "length (i_addrs ip) = NDIRECT + 1"
    and "i_ref ip = 1" and "i_type ip \<noteq> 0" and "i_nlink ip \<noteq> 0"
    and "\<forall>j<NINODE. j \<noteq> i \<longrightarrow> i_ref (inodes s j) > 0 \<longrightarrow> i_inum (inodes s j) \<noteq> i_inum ip"
    and "\<forall>j<NINODE. j = i \<or> i_ref (inodes s j) = 0 \<longrightarrow> \<not> sl_locked (i_lock (inodes s j))"
  shows "wp (bindR (iupdate i s) (\<lambda>_ s. bindR (iput i s) (\<lambda>_ s. bindR (iget 1 (i_inum ip) s) (\<lambda>j s. bindR (ilock j s) (\<lambda>_ s. Ok j s)))))
     (\<lambda>j t. to_dinode (inodes t j) = to_dinode ip \<and> i_inum (inodes t j) = i_inum ip \<and> i_valid (inodes t j) \<and>
            sl_locked (i_lock (inodes t j)) \<and> (\<forall>n. n \<noteq> i_inum ip \<longrightarrow> disk_inode t n = disk_inode s n))"
proof -
  let ?n = "i_inum ip"
  obtain t where t: "iupdate i s = Ok () t" "tx {} k t" "kept s t" "disk_inode t ?n = to_dinode ip" "\<forall>n. n \<noteq> ?n \<longrightarrow> disk_inode t n = disk_inode s n"
    using iupdate_spec [OF assms(1,2), of i] assms(4-7) by (auto elim: wpE)
  note ft = kept_fs [OF t(3)]
  define u where "u = upd_inode i (\<lambda>ip. ip\<lparr>i_ref := 0\<rparr>) t"
  have pu: "iput i t = Ok () u" using assms(4,8,10) ft by (simp add: iput_def u_def upd_inode_def)
  have iu: "inodes u = (inodes s)(i := ip\<lparr>i_ref := 0\<rparr>)" using ft assms(4) by (simp add: u_def)
  have none: "first_slot NINODE (\<lambda>i. i_ref (inodes u i) > 0 \<and> i_dev (inodes u i) = 1 \<and> i_inum (inodes u i) = ?n) = None"
    unfolding first_slot_None using assms(11) by (auto simp: iu)
  obtain j where j: "first_slot NINODE (\<lambda>i. i_ref (inodes u i) = 0) = Some j"
    using first_slot_exists [of i NINODE "\<lambda>i. i_ref (inodes u i) = 0"] assms(3) by (auto simp: iu)
  then have jr: "j < NINODE" "i_ref (inodes u j) = 0" by (simp_all add: first_slot_Some)
  define v where "v = upd_inode j (\<lambda>ip. ip\<lparr>i_dev := 1, i_inum := ?n, i_ref := 1, i_valid := False\<rparr>) u"
  have gv: "iget 1 ?n u = Ok j v" using none j by (simp add: iget_def v_def)
  have fv: "tx {} k v" "fs_geom v" "disk_inode v = disk_inode t" "sb v = sb s"
    using t(2) ft assms(2) by (simp_all add: v_def u_def)
  have lk: "\<not> sl_locked (i_lock (inodes v j))" using assms(4,12) jr by (auto simp: v_def iu split: if_splits)
  have ij: "i_dev (inodes v j) = 1" "i_inum (inodes v j) = ?n" "i_ref (inodes v j) = 1" "\<not> i_valid (inodes v j)"
    by (simp_all add: v_def)
  have ty: "d_type (disk_inode v ?n) \<noteq> 0" using fv(3) t(4) assms(9) by (simp add: to_dinode_def)
  have "wp (ilock j v) (\<lambda>_ w. disk_inode w = disk_inode v \<and> (\<exists>l. sl_locked l \<and>
      inodes w = (inodes v)(j := from_dinode (disk_inode v ?n) (inodes v j)\<lparr>i_lock := l, i_valid := True\<rparr>)))"
    using ilock_load [OF fv(1,2), of j] ij lk ty fv(4) assms(6) by (auto elim!: wpE simp: disk_inode_def fun_eq_iff)
  then show ?thesis
    using t(1,4,5) pu gv ij fv(3)
    by (auto elim!: wpE simp: from_dinode_def to_dinode_def)
qed

definition inode_demo :: inode where
  "inode_demo = zero_inode\<lparr>i_dev := 1, i_inum := 5, i_ref := 1, i_valid := True, i_type := 2, i_nlink := 1, i_size := 77\<rparr>"

theorem inode_survives_eviction_witness:
  "wp (bindR (iupdate 3 (upd_inode 3 (\<lambda>_. inode_demo) fs_demo)) (\<lambda>_ s. bindR (iput 3 s) (\<lambda>_ s.
       bindR (iget 1 5 s) (\<lambda>j s. bindR (ilock j s) (\<lambda>_ s. Ok j s))))) (\<lambda>j t. i_size (inodes t j) = 77)"
proof -
  let ?s = "upd_inode 3 (\<lambda>_. inode_demo) fs_demo"
  have s: "tx {} (Suc 28) ?s" "fs_geom ?s" "inodes ?s 3 = inode_demo" "sb ?s = demo_sb" using fs_demo_ok(2,3) by simp_all
  have o: "i_ref (inodes ?s j) = 0" if "j \<noteq> 3" for j using that by (simp add: zero_inode_def)
  have u: "\<not> sl_locked (i_lock (inodes ?s j))" for j by (simp add: zero_inode_def inode_demo_def initsleeplock_def)
  have n: "i_inum inode_demo = 5" by (simp add: inode_demo_def)
  show ?thesis
    by (rule inode_survives_eviction [OF s(1,2) _ s(3), unfolded n, THEN wp_mono])
      (use o u in \<open>auto simp: inode_demo_def zero_inode_def demo_sb_def to_dinode_def\<close>)
qed

end
