(* ===== verification/Content.thy ===== *)
theory Content
  imports Inodes
begin

section \<open>Properties of file content\<close>

text \<open>
  A file is an array of bytes: what \<open>bmap\<close>, \<open>readi\<close> and \<open>writei\<close> do, seen through the block
  addresses of an inode and the blocks they name.
\<close>

subsection \<open>The bytes of a file\<close>

text \<open>The block of the indirect addresses and the address of block \<open>bn\<close> of inode \<open>i\<close>; zero is a hole.\<close>

definition find_blk :: "'z fs_st_scheme \<Rightarrow> nat \<Rightarrow> nat" where
  "find_blk s i = unat (i_addrs (inodes s i) ! NDIRECT)"

definition faddr :: "'z fs_st_scheme \<Rightarrow> nat \<Rightarrow> nat \<Rightarrow> nat" where
  "faddr s i bn =
     (if bn < NDIRECT then unat (i_addrs (inodes s i) ! bn)
      else if find_blk s i = 0 then 0 else unat (word_at (bview s (find_blk s i)) (bn - NDIRECT)))"

definition fblocks :: "'z fs_st_scheme \<Rightarrow> nat \<Rightarrow> nat set" where
  "fblocks s i = ({find_blk s i} \<union> faddr s i ` {..<MAXFILE}) - {0}"

definition fbyte :: "'z fs_st_scheme \<Rightarrow> nat \<Rightarrow> nat \<Rightarrow> u8" where
  "fbyte s i p = (if faddr s i (p div BSIZE) = 0 then 0 else bview s (faddr s i (p div BSIZE)) ! (p mod BSIZE))"

definition fcontent :: "'z fs_st_scheme \<Rightarrow> nat \<Rightarrow> u8 list" where
  "fcontent s i = map (fbyte s i) [0..<unat (i_size (inodes s i))]"

text \<open>The block addresses of a file: data blocks in use, each named once.\<close>

definition file_map_ok :: "'z fs_st_scheme \<Rightarrow> nat \<Rightarrow> bool" where
  "file_map_ok s i \<longleftrightarrow> i_dev (inodes s i) = 1 \<and> length (i_addrs (inodes s i)) = NDIRECT + 1 \<and>
     (\<forall>m\<in>fblocks s i. is_data s m \<and> used s m) \<and> (\<forall>bn<MAXFILE. faddr s i bn \<noteq> 0 \<longrightarrow> faddr s i bn \<noteq> find_blk s i) \<and>
     (\<forall>bn<MAXFILE. \<forall>bm<MAXFILE. faddr s i bn \<noteq> 0 \<longrightarrow> faddr s i bn = faddr s i bm \<longrightarrow> bn = bm)"

text \<open>A file has no holes below its size.\<close>

definition file_ok :: "'z fs_st_scheme \<Rightarrow> nat \<Rightarrow> bool" where
  "file_ok s i \<longleftrightarrow> file_map_ok s i \<and> unat (i_size (inodes s i)) \<le> MAXFILE * BSIZE \<and>
     (\<forall>bn. bn * BSIZE < unat (i_size (inodes s i)) \<longrightarrow> faddr s i bn \<noteq> 0)"

definition nfree :: "'z fs_st_scheme \<Rightarrow> nat" where
  "nfree s = card {c. c < unat (sb_size (sb s)) \<and> \<not> used s c}"

subsection \<open>What changes when a file grows\<close>

text \<open>Everything but the cache and the block addresses of inode \<open>i\<close> stays.\<close>

definition fkept :: "nat \<Rightarrow> 'z fs_st_scheme \<Rightarrow> 'z fs_st_scheme \<Rightarrow> bool" where
  "fkept i s t \<longleftrightarrow> (\<exists>as. length as = length (i_addrs (inodes s i)) \<and> kept (upd_inode i (\<lambda>ip. ip\<lparr>i_addrs := as\<rparr>) s) t)"

lemma upd_inode_same [simp]: "upd_inode i (\<lambda>ip. ip\<lparr>i_addrs := i_addrs (inodes s i)\<rparr>) s = s"
  by (simp add: upd_inode_def)

lemma upd_inode_twice: "upd_inode i f (upd_inode i g s) = upd_inode i (\<lambda>x. f (g x)) s"
  by (simp add: upd_inode_def)

lemma fkept_kept: "kept s t \<Longrightarrow> fkept i s t"
  unfolding fkept_def by (rule exI [of _ "i_addrs (inodes s i)"]) simp

lemma fkept_refl [simp]: "fkept i s s"
  by (simp add: fkept_kept)

lemma fkept_trans:
  assumes "fkept i s t" and "fkept i t u"
  shows "fkept i s u"
proof -
  obtain as where a: "length as = length (i_addrs (inodes s i))" "kept (upd_inode i (\<lambda>ip. ip\<lparr>i_addrs := as\<rparr>) s) t"
    using assms(1) by (auto simp: fkept_def)
  obtain bs where b: "length bs = length (i_addrs (inodes t i))" "kept (upd_inode i (\<lambda>ip. ip\<lparr>i_addrs := bs\<rparr>) t) u"
    using assms(2) by (auto simp: fkept_def)
  have "kept (upd_inode i (\<lambda>ip. ip\<lparr>i_addrs := bs\<rparr>) s) (upd_inode i (\<lambda>ip. ip\<lparr>i_addrs := bs\<rparr>) t)"
    using kept_upd_inode [OF a(2), of i "\<lambda>ip. ip\<lparr>i_addrs := bs\<rparr>"] by (simp add: upd_inode_twice)
  moreover have "length bs = length (i_addrs (inodes s i))" using a b(1) kept_fs(2) [OF a(2)] by simp
  ultimately show ?thesis using b(2) kept_trans unfolding fkept_def by blast
qed

lemma fkept_set_addr: "fkept i s (set_addr i k a s)"
  unfolding fkept_def set_addr_def
  by (rule exI [of _ "(i_addrs (inodes s i))[k := a]"]) (simp add: upd_inode_def)

lemma fkept_fields:
  assumes "fkept i s t"
  shows "sb t = sb s" "fs_geom t = fs_geom s" "is_data t = is_data s" "disksize t = disksize s" "l_start t = l_start s"
    "curproc t = curproc s" "l_outstanding t = l_outstanding s" "woken s t" "mem t = mem s"
    "\<And>j. j \<noteq> i \<Longrightarrow> inodes t j = inodes s j" "inodes t i = (inodes s i)\<lparr>i_addrs := i_addrs (inodes t i)\<rparr>"
    "length (i_addrs (inodes t i)) = length (i_addrs (inodes s i))" "fs_st.more t = fs_st.more s"
proof -
  obtain as where a: "length as = length (i_addrs (inodes s i))" "kept (upd_inode i (\<lambda>ip. ip\<lparr>i_addrs := as\<rparr>) s) t"
    using assms by (auto simp: fkept_def)
  show "sb t = sb s" "fs_geom t = fs_geom s" "is_data t = is_data s" "disksize t = disksize s" "l_start t = l_start s"
    "curproc t = curproc s" "l_outstanding t = l_outstanding s" "woken s t"
    "\<And>j. j \<noteq> i \<Longrightarrow> inodes t j = inodes s j" "inodes t i = (inodes s i)\<lparr>i_addrs := i_addrs (inodes t i)\<rparr>"
    "length (i_addrs (inodes t i)) = length (i_addrs (inodes s i))"
    using kept_fs [OF a(2)] kept_fields [OF a(2)] a(1) by (simp_all add: woken_def)
  show "mem t = mem s" "fs_st.more t = fs_st.more s"
    using kept_fs [OF a(2)] kept_fields [OF a(2)] by (simp_all add: upd_inode_def)
qed

text \<open>Block \<open>bn\<close> of file \<open>i\<close> was a hole and is now a fresh block of zeros; an indirect block may be fresh as well.\<close>

definition grown :: "nat \<Rightarrow> nat \<Rightarrow> 'z fs_st_scheme \<Rightarrow> 'z fs_st_scheme \<Rightarrow> bool" where
  "grown i bn s t \<longleftrightarrow> fs_ok t \<and> fkept i s t \<and> is_data s (faddr t i bn) \<and> \<not> used s (faddr t i bn) \<and>
     bview t (faddr t i bn) = replicate BSIZE 0 \<and> (\<forall>m<MAXFILE. m \<noteq> bn \<longrightarrow> faddr t i m = faddr s i m) \<and>
     (find_blk t i = find_blk s i \<or> find_blk s i = 0 \<and> is_data s (find_blk t i) \<and> \<not> used s (find_blk t i)) \<and>
     find_blk t i \<noteq> faddr t i bn \<and>
     (\<forall>c<unat (sb_size (sb s)). used t c \<longleftrightarrow> used s c \<or> c = faddr t i bn \<or> c = find_blk t i) \<and>
     (\<forall>m. is_data s m \<longrightarrow> used s m \<longrightarrow> m \<noteq> find_blk s i \<longrightarrow> bview t m = bview s m)"

lemma fblocksI: "bn < MAXFILE \<Longrightarrow> faddr s i bn \<noteq> 0 \<Longrightarrow> faddr s i bn \<in> fblocks s i"
  "find_blk s i \<noteq> 0 \<Longrightarrow> find_blk s i \<in> fblocks s i"
  by (auto simp: fblocks_def)

lemma is_data_lt: "is_data s m \<Longrightarrow> m < unat (sb_size (sb s)) \<and> m \<noteq> 0"
  by (auto simp: is_data_def)

lemma grown_blocks:
  assumes "grown i bn s t" and "bn < MAXFILE"
  shows "fblocks t i \<subseteq> fblocks s i \<union> {m. is_data s m \<and> \<not> used s m}" "fblocks s i \<subseteq> fblocks t i \<union> {faddr s i bn}"
proof -
  have "faddr t i m \<in> fblocks s i \<union> {m. is_data s m \<and> \<not> used s m}" if "m < MAXFILE" "faddr t i m \<noteq> 0" for m
    using assms that fblocksI(1) [of m s i] by (cases "m = bn") (auto simp: grown_def)
  then show "fblocks t i \<subseteq> fblocks s i \<union> {m. is_data s m \<and> \<not> used s m}"
    using assms fblocksI(2) [of s i] by (auto simp: grown_def fblocks_def)
  have "faddr s i m \<in> fblocks t i \<union> {faddr s i bn}" if "m < MAXFILE" "faddr s i m \<noteq> 0" for m
    using assms that fblocksI(1) [of m t i] by (cases "m = bn") (auto simp: grown_def)
  then show "fblocks s i \<subseteq> fblocks t i \<union> {faddr s i bn}"
    using assms fblocksI(2) [of t i] by (auto simp: grown_def fblocks_def)
qed

lemma grown_used: "grown i bn s t \<Longrightarrow> is_data s m \<Longrightarrow> used s m \<Longrightarrow> used t m"
  using is_data_lt [of s m] by (auto simp: grown_def)

lemma grown_map_ok:
  assumes g: "grown i bn s t" and "file_map_ok s i" and b: "bn < MAXFILE" and "faddr s i bn = 0"
  shows "file_map_ok t i"
proof -
  have k: "fkept i s t" using g by (simp add: grown_def)
  note ft = fkept_fields [OF k]
  have mo: "\<forall>m\<in>fblocks s i. is_data s m \<and> used s m" "\<forall>bn<MAXFILE. faddr s i bn \<noteq> 0 \<longrightarrow> faddr s i bn \<noteq> find_blk s i"
    "\<forall>bn<MAXFILE. \<forall>bm<MAXFILE. faddr s i bn \<noteq> 0 \<longrightarrow> faddr s i bn = faddr s i bm \<longrightarrow> bn = bm"
    using assms(2) unfolding file_map_ok_def by blast+
  have n: "is_data s (faddr t i bn)" "\<not> used s (faddr t i bn)" "find_blk t i \<noteq> faddr t i bn" using g by (simp_all add: grown_def)
  have sm: "faddr t i m = faddr s i m" if "m < MAXFILE" "m \<noteq> bn" for m using g that by (simp add: grown_def)
  have old: "is_data s (faddr s i m) \<and> used s (faddr s i m)" if "m < MAXFILE" "faddr s i m \<noteq> 0" for m
    using mo(1) fblocksI(1) [OF that] by blast
  have fb: "find_blk t i = find_blk s i \<or> find_blk s i = 0 \<and> is_data s (find_blk t i) \<and> \<not> used s (find_blk t i)"
    using g by (simp add: grown_def)
  have us: "used t c \<longleftrightarrow> used s c \<or> c = faddr t i bn \<or> c = find_blk t i" if "is_data s c" for c
    using g is_data_lt [OF that] by (simp add: grown_def)
  have f: "is_data s (faddr t i m) \<and> used t (faddr t i m)" if "m < MAXFILE" "faddr t i m \<noteq> 0" for m
    using n us sm [of m] old [of m] that by (cases "m = bn") auto
  have d: "is_data s (find_blk t i) \<and> used t (find_blk t i)" if "find_blk t i \<noteq> 0"
    using fb us that mo(1) fblocksI(2) [of s i] by metis
  have "\<forall>m\<in>fblocks t i. is_data t m \<and> used t m"
    using f d unfolding fblocks_def ft(3) by auto
  moreover have "faddr t i m \<noteq> find_blk t i" if "m < MAXFILE" "faddr t i m \<noteq> 0" for m
    using that n(3) sm [of m] mo(2) fb old [of m] by (cases "m = bn") auto
  moreover have "m = m'" if m: "m < MAXFILE" "m' < MAXFILE" "faddr t i m \<noteq> 0" "faddr t i m = faddr t i m'" for m m'
  proof -
    have new: "x = bn" if x: "x < MAXFILE" "faddr t i x = faddr t i bn" for x
      using old [of x] sm [of x] n(2) x is_data_lt [OF n(1)] by metis
    show ?thesis
    proof (cases "m = bn \<or> m' = bn")
      case True
      then show ?thesis using new [of m] new [of m'] m by metis
    next
      case False
      then show ?thesis using mo(3) sm [of m] sm [of m'] m by metis
    qed
  qed
  moreover have "i_dev (inodes t i) = i_dev (inodes s i)" by (subst ft(11)) simp
  moreover have "i_dev (inodes s i) = 1" "length (i_addrs (inodes t i)) = NDIRECT + 1"
    using assms(2) ft(12) by (simp_all add: file_map_ok_def)
  ultimately show ?thesis unfolding file_map_ok_def by simp
qed

lemma grown_bytes:
  assumes g: "grown i bn s t" and "file_map_ok s i" and "bn < MAXFILE" and "faddr s i bn = 0" and "p < MAXFILE * BSIZE"
  shows "fbyte t i p = fbyte s i p"
proof (cases "p div BSIZE = bn")
  case True
  then show ?thesis using g assms(4) is_data_lt [of s "faddr t i bn"] by (auto simp: grown_def fbyte_def)
next
  case False
  have lt: "p div BSIZE < MAXFILE" using assms(5) by (simp add: div_less_iff_less_mult)
  have e: "faddr t i (p div BSIZE) = faddr s i (p div BSIZE)" using g False lt by (simp add: grown_def)
  show ?thesis
  proof (cases "faddr s i (p div BSIZE) = 0")
    case False
    let ?m = "faddr s i (p div BSIZE)"
    have "is_data s ?m" "used s ?m" "?m \<noteq> find_blk s i"
      using assms(2) fblocksI(1) [OF lt False] lt False unfolding file_map_ok_def by blast+
    then have "bview t ?m = bview s ?m" using g by (simp add: grown_def)
    then show ?thesis using e by (simp add: fbyte_def)
  qed (use e in \<open>simp add: fbyte_def\<close>)
qed

lemma grown_nfree:
  assumes "grown i bn s t"
  shows "nfree s \<le> nfree t + 2"
proof -
  let ?F = "\<lambda>s. {c. c < unat (sb_size (sb s)) \<and> \<not> used s c}"
  have k: "sb t = sb s" using assms fkept_fields(1) by (auto simp: grown_def)
  have "?F s \<subseteq> insert (faddr t i bn) (insert (find_blk t i) (?F t))" using assms k by (auto simp: grown_def)
  then have "card (?F s) \<le> card (insert (faddr t i bn) (insert (find_blk t i) (?F t)))" by (rule card_mono [rotated]) simp
  also have "\<dots> \<le> card (?F t) + 2" by (simp add: card_insert_if)
  finally show ?thesis by (simp add: nfree_def)
qed

subsection \<open>bmap\<close>

lemma bmap_mapped:
  assumes "tx {} k s" and "fs_geom s" and "file_map_ok s i" and "bn < MAXFILE" and "faddr s i bn \<noteq> 0"
  shows "wp (bmap i bn s) (\<lambda>a t. unat a = faddr s i bn \<and> tx {} k t \<and> bview t = bview s \<and> kept s t)"
proof (cases "bn < NDIRECT")
  case True
  then show ?thesis using assms(1,5) by (auto simp: bmap_def faddr_def Let_def)
next
  case False
  let ?d = "find_blk s i"
  have d: "?d \<noteq> 0" using False assms(5) by (auto simp: faddr_def split: if_splits)
  have fa: "faddr s i bn = unat (word_at (bview s ?d) (bn - NDIRECT))" using False d by (simp add: faddr_def)
  have dv: "i_dev (inodes s i) = 1" and dd: "is_data s ?d"
    using assms(3) fblocksI(2) [OF d] unfolding file_map_ok_def by blast+
  obtain b u t where u: "bread 1 ?d s = Ok b u" "b_data (bufs u b) = bview s ?d" "kept s u"
    "brelse b u = Ok () t" "tx {} k t" "bview t = bview s" "kept s t"
    by (rule tx_read [OF assms(1) geom_data(1) [OF assms(2) dd]]) simp_all
  show ?thesis
    using u d fa assms(4,5) False dv by (auto simp: bmap_def Let_def find_blk_def)
qed

lemma nfree_ex: "nfree s \<noteq> 0 \<Longrightarrow> \<exists>c<unat (sb_size (sb s)). \<not> used s c"
  unfolding nfree_def by (metis (mono_tags, lifting) Collect_empty_eq card.empty)

text \<open>Allocating a block and storing its address in slot \<open>k\<close> of the inode.\<close>

lemma balloc_slot:
  assumes "tx {} (Suc (Suc r)) s" and "fs_ok s" and "nfree s \<noteq> 0" and "k < length (i_addrs (inodes s i))"
  obtains a t where "balloc 1 s = Ok a t" and "balloc_post {} r 0 s (unat a) t"
    and "tx {} r (set_addr i k a t)" and "fkept i s (set_addr i k a t)" and "fs_ok (set_addr i k a t)"
    and "inodes (set_addr i k a t) i = (inodes s i)\<lparr>i_addrs := (i_addrs (inodes s i))[k := a]\<rparr>"
    and "bview (set_addr i k a t) = bview t" and "used (set_addr i k a t) = used t"
proof -
  obtain c where c: "c < unat (sb_size (sb s))" "\<not> used s c" using nfree_ex [OF assms(3)] by blast
  obtain a t where t: "balloc 1 s = Ok a t" "balloc_post {} r 0 s (unat a) t"
    using balloc_spec [OF assms(1,2) _ _ _ c] by (auto elim: wpE)
  have k: "tx {} r t" "kept s t" using t(2) by (simp_all add: balloc_post_def)
  have "fkept i s (set_addr i k a t)" using fkept_trans [OF fkept_kept [OF k(2)] fkept_set_addr] .
  then show thesis
    using that t k kept_fs(2) [OF k(2)] balloc_post_view(3) [OF t(2) assms(2,1)] by (simp add: set_addr_def)
qed

lemma bmap_direct:
  assumes "tx {} (Suc (Suc r)) s" and "fs_ok s" and "nfree s \<noteq> 0" and "file_map_ok s i" and "bn < NDIRECT" and "faddr s i bn = 0"
  shows "wp (bmap i bn s) (\<lambda>a t. unat a = faddr t i bn \<and> tx {} r t \<and> grown i bn s t)"
proof -
  have dv: "i_dev (inodes s i) = 1" and l: "length (i_addrs (inodes s i)) = NDIRECT + 1"
    and bl: "\<forall>m\<in>fblocks s i. is_data s m \<and> used s m"
    using assms(4) unfolding file_map_ok_def by blast+
  have k: "bn < length (i_addrs (inodes s i))" using assms(5) l by simp
  obtain a t where t: "balloc 1 s = Ok a t" "balloc_post {} r 0 s (unat a) t"
    "tx {} r (set_addr i bn a t)" "fkept i s (set_addr i bn a t)" "fs_ok (set_addr i bn a t)"
    "inodes (set_addr i bn a t) i = (inodes s i)\<lparr>i_addrs := (i_addrs (inodes s i))[bn := a]\<rparr>"
    "bview (set_addr i bn a t) = bview t" "used (set_addr i bn a t) = used t"
    by (rule balloc_slot [OF assms(1-3) k])
  let ?t = "set_addr i bn a t"
  note v = balloc_post_view [OF t(2) assms(2,1)]
  have a: "\<not> used s (unat a)" using t(2) by (simp add: balloc_post_def)
  have fd: "find_blk ?t i = find_blk s i" using assms(5) by (simp add: find_blk_def t(6))
  have old: "is_data s (find_blk s i) \<and> used s (find_blk s i)" if "find_blk s i \<noteq> 0" using bl fblocksI(2) [OF that] by blast
  have bd: "bview t (find_blk s i) = bview s (find_blk s i)" if "find_blk s i \<noteq> 0"
    using v(4) [of "find_blk s i"] old [OF that] a by metis
  have fa: "faddr ?t i m = (if m = bn then unat a else faddr s i m)" for m
    using assms(5) l bd by (auto simp: faddr_def fd t(6,7) nth_list_update)
  have ou: "used s (find_blk s i)" using old assms(2) by (cases "find_blk s i = 0") (auto simp: fs_ok_def)
  have "grown i bn s ?t"
    using t(4,5) v(1,2,4,6) a old ou fd unfolding grown_def fa t(7,8) by (auto dest: is_data_lt)
  moreover have "bmap i bn s = Ok a ?t" using assms(5,6) t(1) dv by (simp add: bmap_def Let_def faddr_def unat_eq_zero)
  ultimately show ?thesis using t(3) fa by simp
qed

text \<open>The second half of \<open>bmap\<close> for a hole behind an indirect block \<open>d\<close>.\<close>

lemma ind_fill:
  assumes "tx {} (Suc (Suc (Suc r))) s" and "fs_ok s" and "nfree s \<noteq> 0" and "is_data s d" and "used s d"
    and "k < NINDIRECT" and "word_at (bview s d) k = 0"
  obtains b u a v w t where "bread 1 d s = Ok b u" and "b_data (bufs u b) = bview s d" and "balloc 1 u = Ok a v"
    and "log_write b (set_data b (word_put k a (b_data (bufs v b))) v) = Ok () w" and "brelse b w = Ok () t"
    and "balloc_post {d} (Suc r) 0 s (unat a) v" and "tx {} r t" and "kept s t" and "bview t = (bview v)(d := word_put k a (bview s d))"
proof -
  have g: "fs_geom s" using assms(2) by (simp add: fs_ok_def)
  note gd = geom_data [OF g assms(4)]
  obtain b u where u: "bread 1 d s = Ok b u" "tx {d} (Suc (Suc (Suc r))) u" "holds u b d" "bview u = bview s" "kept s u"
    using tx_bread [OF assms(1) gd(1), of "Suc (Suc (Suc r))"] by (auto elim: wpE)
  note fu = kept_fs [OF u(5)]
  have bu: "b_data (bufs u b) = bview s d" using holds_view [of u b d] u(2-4) by (simp add: tx_def log_inv_def)
  have us: "used u = used s" using u(4) fu by (simp add: used_def fun_eq_iff)
  obtain c where c: "c < unat (sb_size (sb u))" "\<not> used u c" using nfree_ex [OF assms(3)] fu us by auto
  have "fs_ok u" using assms(2) fu us by (simp add: fs_ok_def)
  then obtain a v where v: "balloc 1 u = Ok a v" "balloc_post {d} (Suc r) 0 u (unat a) v"
    using balloc_spec [OF u(2) _ _ _ _ c] assms(4,5) fu us by (auto elim: wpE)
  have kv: "tx {d} (Suc r) v" "kept u v" "\<not> used s (unat a)" using v(2) us by (simp_all add: balloc_post_def)
  have "unat a \<noteq> d" using kv(3) assms(5) by metis
  then have vd: "bview v d = bview s d"
    using balloc_post_view(4) [OF v(2) \<open>fs_ok u\<close> u(2), of d] assms(4) fu u(4) by simp
  have hv: "holds v b d" by (rule kept_holds [OF kv(2) u(3)])
  have bv: "b_data (bufs v b) = bview s d" using holds_view [of v b d] kv(1) hv vd by (simp add: tx_def log_inv_def)
  let ?x = "word_put k a (bview s d)"
  have lx: "length ?x = BSIZE" using assms(6) tx_length [OF assms(1)] by simp
  have p: "tx {d} (Suc r) (set_data b ?x v)" "holds (set_data b ?x v) b d" "bview (set_data b ?x v) = (bview v)(d := ?x)" "kept v (set_data b ?x v)"
    using tx_put [OF kv(1) hv lx] by simp_all
  have kp: "kept s (set_data b ?x v)" using kept_trans [OF u(5) kept_trans [OF kv(2) p(4)]] .
  have nl: "d \<notin> log_region (l_start (set_data b ?x v))" using gd(2) kept_fields(3) [OF kp] by simp
  obtain w where w: "log_write b (set_data b ?x v) = Ok () w" "tx {d} r w" "bview w = (bview v)(d := ?x)" "d \<in> pinned w" "kept (set_data b ?x v) w"
    using tx_log_write [OF p(1,2) nl] p(3) by (auto elim: wpE)
  have kw: "kept s w" by (rule kept_trans [OF kp w(5)])
  obtain t where t: "brelse b w = Ok () t" "tx {} r t" "bview t = bview w" "kept s t"
    using tx_close [OF assms(1) kw, of d r b] w(2,4) kept_holds [OF w(5) p(2)] by auto
  have bp: "balloc_post {d} (Suc r) 0 s (unat a) v"
    using v(2) us fu(1) u(4) kept_trans [OF u(5) kv(2)] by (simp add: balloc_post_def)
  show thesis by (rule that [OF u(1) bu v(1) _ t(1) bp t(2,4)]) (use w(1,3) t(3) bv in simp_all)
qed

lemma bmap_indirect:
  assumes "tx {} (Suc (Suc (Suc r))) s" and "fs_ok s" and "nfree s \<noteq> 0" and "file_map_ok s i" and "\<not> bn < NDIRECT" and "bn < MAXFILE"
    and "faddr s i bn = 0" and "find_blk s i \<noteq> 0"
  shows "wp (bmap i bn s) (\<lambda>a t. unat a = faddr t i bn \<and> tx {} r t \<and> grown i bn s t \<and> kept s t)"
proof -
  let ?d = "find_blk s i" and ?k = "bn - NDIRECT"
  have dv: "i_dev (inodes s i) = 1" and bl: "\<forall>m\<in>fblocks s i. is_data s m \<and> used s m" using assms(4) unfolding file_map_ok_def by blast+
  have d: "is_data s ?d" "used s ?d" using bl fblocksI(2) [OF assms(8)] by blast+
  have k: "?k < NINDIRECT" using assms(6) by simp
  have z: "word_at (bview s ?d) ?k = 0" using assms(5,7,8) by (simp add: faddr_def unat_eq_zero)
  obtain b u a v w t where t: "bread 1 ?d s = Ok b u" "b_data (bufs u b) = bview s ?d" "balloc 1 u = Ok a v"
    "log_write b (set_data b (word_put ?k a (b_data (bufs v b))) v) = Ok () w" "brelse b w = Ok () t"
    "balloc_post {?d} (Suc r) 0 s (unat a) v" "tx {} r t" "kept s t" "bview t = (bview v)(?d := word_put ?k a (bview s ?d))"
    by (rule ind_fill [OF assms(1-3) d k z])
  note v = balloc_post_view [OF t(6) assms(2,1)] and ft = kept_fs [OF t(8)]
  have a: "\<not> used s (unat a)" "kept s v" using t(6) by (simp_all add: balloc_post_def)
  have ad: "unat a \<noteq> ?d" using a d by metis
  have fd: "find_blk t i = ?d" by (simp add: find_blk_def ft)
  have "word_at (bview t ?d) m = (if m = ?k then a else word_at (bview s ?d) m)" if "m < NINDIRECT" for m
    using word_at_put [OF tx_length [OF assms(1)] k that] by (simp add: t(9))
  then have fa: "faddr t i m = (if m = bn then unat a else faddr s i m)" if "m < MAXFILE" for m
    using that assms(5,8) by (auto simp: faddr_def fd ft)
  have BB: "BBLOCK c (sb s) \<noteq> ?d" if "c < unat (sb_size (sb s))" for c
    using geom_bitmap(3) [OF _ that] d(1) assms(2) by (auto simp: fs_ok_def)
  have us: "used t c \<longleftrightarrow> c = unat a \<or> used s c" if "c < unat (sb_size (sb s))" for c
    using v(6) [OF that] BB [OF that] ft(1) kept_fs(1) [OF a(2)] by (simp add: used_def t(9))
  have fk: "fs_ok t"
  proof -
    have "used t c" if "c \<le> unat (sb_bmapstart (sb s)) + unat (sb_size (sb s)) div BPB" for c
      using us [of c] that assms(2) by (auto simp: fs_ok_def fs_geom_def)
    then show ?thesis using assms(2) ft by (simp add: fs_ok_def)
  qed
  have vw: "bview t m = bview s m" if "is_data s m" "m \<noteq> ?d" "m \<noteq> unat a" for m
    using v(4) [OF that(1,3)] that(2) by (simp add: t(9))
  have "grown i bn s t"
    unfolding grown_def fa [OF assms(6)] fd using fk fkept_kept [OF t(8)] v(1,2) a(1) ad us vw d fa
    by (auto simp: t(9))
  moreover have "bmap i bn s = Ok a t"
    using t(1-5) z assms(5,6,8) dv by (simp add: bmap_def Let_def find_blk_def unat_eq_zero kept_fs(2) [OF a(2)])
  ultimately show ?thesis using t(7,8) fa [OF assms(6)] by simp
qed

text \<open>With no indirect block yet, \<open>bmap\<close> first allocates one and then goes on as above.\<close>

lemma word_at_zero: "word_at (replicate BSIZE 0) k = 0" if "k < NINDIRECT"
  using that by (simp add: word_at_def slice_def dec32_def)

lemma slot_map_ok:
  assumes "file_map_ok s i" and "find_blk s i = 0" and a: "is_data s (unat a)" "\<not> used s (unat a)" and "fkept i s t"
    and t: "find_blk t i = unat a" "\<forall>m<MAXFILE. faddr t i m = faddr s i m"
    and u: "\<forall>c<unat (sb_size (sb s)). used t c \<longleftrightarrow> c = unat a \<or> used s c"
  shows "file_map_ok t i"
proof -
  note ft = fkept_fields [OF assms(5)]
  have mo: "\<forall>m\<in>fblocks s i. is_data s m \<and> used s m"
    "\<forall>bn<MAXFILE. \<forall>bm<MAXFILE. faddr s i bn \<noteq> 0 \<longrightarrow> faddr s i bn = faddr s i bm \<longrightarrow> bn = bm"
    "i_dev (inodes s i) = 1" "length (i_addrs (inodes s i)) = NDIRECT + 1"
    using assms(1) unfolding file_map_ok_def by blast+
  have old: "is_data s (faddr s i m) \<and> used s (faddr s i m)" if "m < MAXFILE" "faddr s i m \<noteq> 0" for m
    using mo(1) fblocksI(1) [OF that] by blast
  have "fblocks t i = insert (unat a) (fblocks s i)"
    using assms(2) t is_data_lt [OF a(1)] by (auto simp: fblocks_def)
  moreover have "used t m" if "is_data s m" "m = unat a \<or> used s m" for m using u is_data_lt [OF that(1)] that(2) by simp
  ultimately have "\<forall>m\<in>fblocks t i. is_data t m \<and> used t m" using mo(1) a(1) ft(3) by auto
  moreover have "faddr t i m \<noteq> find_blk t i" if "m < MAXFILE" "faddr t i m \<noteq> 0" for m
    using that t old [of m] a(2) by metis
  moreover have "i_dev (inodes t i) = i_dev (inodes s i)" by (subst ft(11)) simp
  moreover have "length (i_addrs (inodes t i)) = NDIRECT + 1" using ft(12) mo(4) by simp
  ultimately show ?thesis using mo(2,3) t(2) unfolding file_map_ok_def by simp
qed

lemma bmap_fresh:
  assumes "tx {} (Suc (Suc (Suc (Suc (Suc r))))) s" and "fs_ok s" and "nfree s \<ge> 2" and "file_map_ok s i"
    and "\<not> bn < NDIRECT" and "bn < MAXFILE" and "find_blk s i = 0"
  shows "wp (bmap i bn s) (\<lambda>a t. unat a = faddr t i bn \<and> tx {} r t \<and> grown i bn s t)"
proof -
  have dv: "i_dev (inodes s i) = 1" and l: "NDIRECT < length (i_addrs (inodes s i))" and nz: "nfree s \<noteq> 0"
    using assms(3,4) by (auto simp: file_map_ok_def)
  obtain a t where t: "balloc 1 s = Ok a t" "balloc_post {} (Suc (Suc (Suc r))) 0 s (unat a) t"
    "tx {} (Suc (Suc (Suc r))) (set_addr i NDIRECT a t)" "fkept i s (set_addr i NDIRECT a t)" "fs_ok (set_addr i NDIRECT a t)"
    "inodes (set_addr i NDIRECT a t) i = (inodes s i)\<lparr>i_addrs := (i_addrs (inodes s i))[NDIRECT := a]\<rparr>"
    "bview (set_addr i NDIRECT a t) = bview t" "used (set_addr i NDIRECT a t) = used t"
    by (rule balloc_slot [OF assms(1,2) nz l])
  define u where "u = set_addr i NDIRECT a t"
  note v = balloc_post_view [OF t(2) assms(2,1)] and tu = t(3-8) [folded u_def]
  note fu = fkept_fields [OF tu(2)]
  have a: "\<not> used s (unat a)" "unat a \<noteq> 0" using t(2) is_data_lt [OF v(1)] by (simp_all add: balloc_post_def)
  have fd: "find_blk u i = unat a" using l by (simp add: find_blk_def tu(4))
  have fa: "\<forall>m<MAXFILE. faddr u i m = faddr s i m"
    using assms(7) a(2) word_at_zero v(2) by (auto simp: faddr_def fd) (simp_all add: tu(4,5) nth_list_update)
  have us: "\<forall>c<unat (sb_size (sb s)). used u c \<longleftrightarrow> c = unat a \<or> used s c" using v(6) tu(6) by simp
  have ok: "file_map_ok u i" by (rule slot_map_ok [OF assms(4,7) v(1) a(1) tu(2) fd fa us])
  have "{c. c < unat (sb_size (sb s)) \<and> \<not> used s c} \<subseteq> insert (unat a) {c. c < unat (sb_size (sb u)) \<and> \<not> used u c}"
    using us fu(1) by auto
  from card_mono [OF _ this] have "nfree s \<le> Suc (nfree u)" by (simp add: nfree_def card_insert_if split: if_splits)
  then have nu: "nfree u \<noteq> 0" using assms(3) by simp
  have "faddr s i bn = 0" using assms(5,7) by (simp add: faddr_def)
  then have hole: "faddr u i bn = 0" using fa assms(6) by simp
  have fdz: "find_blk u i \<noteq> 0" using fd a(2) by simp
  obtain x w where w: "bmap i bn u = Ok x w" "unat x = faddr w i bn" "tx {} r w" "grown i bn u w" "kept u w"
    using bmap_indirect [OF tu(1,3) nu ok assms(5,6) hole fdz] by (auto elim: wpE)
  have u12: "set_addr i 12 a t = u" and k: "bn - 12 < 128" using assms(5,6) by (simp_all add: u_def)
  have "bmap i bn s = bmap i bn u"
    using assms(5,7) t(1) a(2) dv fd l k by (simp add: bmap_def Let_def find_blk_def unat_eq_zero tu(4) u12)
  moreover have "grown i bn s w"
  proof -
    have gw: "fs_ok w" "is_data s (faddr w i bn)" "\<not> used u (faddr w i bn)" "bview w (faddr w i bn) = replicate BSIZE 0"
      "\<forall>m<MAXFILE. m \<noteq> bn \<longrightarrow> faddr w i m = faddr u i m" "find_blk w i \<noteq> faddr w i bn"
      "\<forall>c<unat (sb_size (sb s)). used w c \<longleftrightarrow> used u c \<or> c = faddr w i bn \<or> c = find_blk w i"
      "\<forall>m. is_data s m \<longrightarrow> used u m \<longrightarrow> m \<noteq> find_blk u i \<longrightarrow> bview w m = bview u m" "find_blk w i = find_blk u i"
      using w(4) fdz fu(1,3) unfolding grown_def by auto
    have "bview w m = bview s m" if m: "is_data s m" "used s m" for m
    proof -
      have "m \<noteq> unat a" using a(1) m(2) by metis
      then show ?thesis using gw(8) us v(4) [OF m(1)] m is_data_lt [OF m(1)] fd tu(5) by simp
    qed
    moreover have "\<not> used s (faddr w i bn)" using gw(2,3) us is_data_lt by blast
    ultimately show ?thesis
      unfolding grown_def using gw fa us fd a(1) v(1) fkept_trans [OF tu(2) fkept_kept [OF w(5)]] assms(7)
      by simp blast
  qed
  ultimately show ?thesis using w by simp
qed

text \<open>\<open>bmap\<close> in all cases.\<close>

lemma tx_mono: "tx H k s \<Longrightarrow> k' \<le> k \<Longrightarrow> tx H k' s"
  by (auto simp: tx_def)

lemma kept_view:
  assumes "kept s t" and "bview t = bview s"
  shows "find_blk t = find_blk s" "faddr t = faddr s" "fblocks t = fblocks s" "used t = used s" "fs_ok t = fs_ok s"
    "file_map_ok t = file_map_ok s" "file_ok t = file_ok s" "nfree t = nfree s" "fbyte t = fbyte s" "fcontent t = fcontent s"
proof -
  note f = kept_fs [OF assms(1)]
  show 1: "find_blk t = find_blk s" by (simp add: fun_eq_iff find_blk_def f)
  show 2: "faddr t = faddr s" by (simp add: fun_eq_iff faddr_def f 1 assms(2))
  show 3: "fblocks t = fblocks s" by (simp add: fun_eq_iff fblocks_def 1 2)
  show 4: "used t = used s" by (simp add: fun_eq_iff used_def f assms(2))
  show "fs_ok t = fs_ok s" by (simp add: fs_ok_def f 4)
  show 5: "file_map_ok t = file_map_ok s" by (simp add: fun_eq_iff file_map_ok_def f 1 2 3 4)
  show "file_ok t = file_ok s" by (simp add: fun_eq_iff file_ok_def f 2 5)
  show "nfree t = nfree s" by (simp add: nfree_def f 4)
  show 6: "fbyte t = fbyte s" by (simp add: fun_eq_iff fbyte_def 2 assms(2))
  show "fcontent t = fcontent s" by (simp add: fun_eq_iff fcontent_def f 6)
qed

definition bmap_post :: "nat \<Rightarrow> nat \<Rightarrow> nat \<Rightarrow> 'z fs_st_scheme \<Rightarrow> 'z fs_st_scheme \<Rightarrow> bool" where
  "bmap_post i bn r s t \<longleftrightarrow> faddr t i bn \<noteq> 0 \<and> tx {} r t \<and> fs_ok t \<and> file_map_ok t i \<and> fkept i s t \<and>
     nfree s \<le> nfree t + 2 \<and> (\<forall>p<MAXFILE * BSIZE. fbyte t i p = fbyte s i p) \<and>
     (\<forall>m<MAXFILE. m \<noteq> bn \<longrightarrow> faddr t i m = faddr s i m) \<and>
     (\<forall>m. is_data s m \<longrightarrow> used s m \<longrightarrow> used t m \<and> (m \<notin> fblocks s i \<longrightarrow> m \<notin> fblocks t i \<and> bview t m = bview s m))"

lemma bmap_post_grown:
  assumes "grown i bn s t" and "tx {} r t" and "file_map_ok s i" and "bn < MAXFILE" and "faddr s i bn = 0"
  shows "bmap_post i bn r s t"
proof -
  note b = grown_blocks [OF assms(1,4)]
  have g: "fs_ok t" "fkept i s t" "is_data s (faddr t i bn)" "\<forall>m<MAXFILE. m \<noteq> bn \<longrightarrow> faddr t i m = faddr s i m"
    "\<forall>m. is_data s m \<longrightarrow> used s m \<longrightarrow> m \<noteq> find_blk s i \<longrightarrow> bview t m = bview s m"
    using assms(1) by (simp_all add: grown_def)
  have "bview t m = bview s m" "m \<notin> fblocks t i" if "is_data s m" "used s m" "m \<notin> fblocks s i" for m
    using that g(5) fblocksI(2) [of s i] b(1) is_data_lt [OF that(1)] by auto
  then show ?thesis
    unfolding bmap_post_def
    using g assms(2) is_data_lt [OF g(3)] grown_map_ok [OF assms(1,3-5)] grown_nfree [OF assms(1)] grown_bytes [OF assms(1,3-5)]
      grown_used [OF assms(1)] by simp
qed

lemma bmap_spec:
  assumes "tx {} (r + 5) s" and "fs_ok s" and "nfree s \<ge> 2" and "file_map_ok s i" and "bn < MAXFILE"
  shows "wp (bmap i bn s) (\<lambda>a t. unat a = faddr t i bn \<and> bmap_post i bn r s t)"
proof (cases "faddr s i bn = 0")
  case False
  have "wp (bmap i bn s) (\<lambda>a t. unat a = faddr s i bn \<and> tx {} (r + 5) t \<and> bview t = bview s \<and> kept s t)"
    by (rule bmap_mapped [OF assms(1) _ assms(4,5) False]) (use assms(2) in \<open>simp add: fs_ok_def\<close>)
  then show ?thesis
  proof (rule wp_mono)
    fix a :: u32 and t
    assume p: "unat a = faddr s i bn \<and> tx {} (r + 5) t \<and> bview t = bview s \<and> kept s t"
    have k: "kept s t" "bview t = bview s" "tx {} r t" using p tx_mono [of "{}" "r + 5" t r] by auto
    show "unat a = faddr t i bn \<and> bmap_post i bn r s t"
      using p k assms(2,4) False fkept_kept [OF k(1)] unfolding bmap_post_def kept_view [OF k(1,2)] by simp
  qed
next
  case True
  have n: "nfree s \<noteq> 0" using assms(3) by simp
  have x: "tx {} (Suc (Suc r)) s" "tx {} (Suc (Suc (Suc r))) s" "tx {} (Suc (Suc (Suc (Suc (Suc r))))) s"
    by (rule tx_mono [OF assms(1)]; simp)+
  have "wp (bmap i bn s) (\<lambda>a t. unat a = faddr t i bn \<and> tx {} r t \<and> grown i bn s t)"
  proof (cases "bn < NDIRECT")
    case b: True
    show ?thesis by (rule bmap_direct [OF x(1) assms(2) n assms(4) b True])
  next
    case b: False
    show ?thesis
    proof (cases "find_blk s i = 0")
      case f: True
      show ?thesis by (rule bmap_fresh [OF x(3) assms(2-4) b assms(5) f])
    next
      case f: False
      show ?thesis by (rule wp_mono [OF bmap_indirect [OF x(2) assms(2) n assms(4) b assms(5) True f]]) simp
    qed
  qed
  then show ?thesis by (rule wp_mono) (use bmap_post_grown assms(4,5) True in blast)
qed

subsection \<open>readi\<close>

lemma block_split: "j < BSIZE - off mod BSIZE \<Longrightarrow> (off + j) div BSIZE = off div BSIZE \<and> (off + j) mod BSIZE = off mod BSIZE + j"
proof -
  assume "j < BSIZE - off mod BSIZE"
  then have j: "off mod 512 + j < 512" by simp
  have e: "512 * (off div 512) + off mod 512 = off" by (rule mult_div_mod_eq)
  have d: "(off + j) div 512 = off div 512"
  proof (rule div_nat_eqI)
    show "512 * (off div 512) \<le> off + j" using e by linarith
    show "off + j < 512 * Suc (off div 512)" unfolding mult_Suc_right using e j by linarith
  qed
  have "(off + j) mod 512 = off mod 512 + j"
    using d e mult_div_mod_eq [of 512 "off + j"] by linarith
  then show ?thesis using d by simp
qed

text \<open>The part of a file a block holds, read off the block.\<close>

lemma chunk_bytes:
  assumes "length (bview s (faddr s i (off div BSIZE))) = BSIZE" and "faddr s i (off div BSIZE) \<noteq> 0" and "m \<le> BSIZE - off mod BSIZE"
  shows "slice (off mod BSIZE) m (bview s (faddr s i (off div BSIZE))) = map (fbyte s i) [off..<off + m]"
proof (rule nth_equalityI)
  have l: "off mod BSIZE + m \<le> length (bview s (faddr s i (off div BSIZE)))"
    using assms(1,3) mod_less_divisor [of BSIZE off] by (simp del: mod_less_divisor)
  then show "length (slice (off mod BSIZE) m (bview s (faddr s i (off div BSIZE)))) = length (map (fbyte s i) [off..<off + m])" by simp
  fix j assume "j < length (slice (off mod BSIZE) m (bview s (faddr s i (off div BSIZE))))"
  then have j: "j < m" using l by simp
  then show "slice (off mod BSIZE) m (bview s (faddr s i (off div BSIZE))) ! j = map (fbyte s i) [off..<off + m] ! j"
    using nth_slice [OF j l] assms(2,3) block_split [of j off] by (simp add: fbyte_def)
qed

lemma readi_loop_spec:
  assumes "tx {} k s" and "fs_geom s" and "file_map_ok s i" and "off + n \<le> MAXFILE * BSIZE"
    and "\<forall>p. off \<le> p \<and> p < off + n \<longrightarrow> faddr s i (p div BSIZE) \<noteq> 0"
  shows "wp (readi_loop i off n acc s) (\<lambda>bs t. bs = acc @ map (fbyte s i) [off..<off + n] \<and> tx {} k t \<and> bview t = bview s \<and> kept s t)"
  using assms
proof (induction n arbitrary: off acc s rule: less_induct)
  case (less n)
  show ?case
  proof (cases "n = 0")
    case True
    then show ?thesis using less.prems by (simp add: readi_loop.simps)
  next
    case False
    let ?bn = "off div BSIZE"
    define m where "m = min n (BSIZE - off mod BSIZE)"
    have m: "0 < m" "m \<le> n" "m \<le> BSIZE - off mod BSIZE" using False by (auto simp: m_def)
    have bn: "?bn < MAXFILE" using less.prems(4) False by (simp add: div_less_iff_less_mult)
    have fa: "faddr s i ?bn \<noteq> 0" using less.prems(5) False by simp
    obtain a t where t: "bmap i ?bn s = Ok a t" "unat a = faddr s i ?bn" "tx {} k t" "bview t = bview s" "kept s t"
      using bmap_mapped [OF less.prems(1-3) bn fa] by (auto elim: wpE)
    note ft = kept_fs [OF t(5)] and vt = kept_view [OF t(5,4)]
    have ad: "is_data t (unat a)" and dv: "i_dev (inodes s i) = 1"
      using less.prems(3) fblocksI(1) [OF bn fa] ft t(2) unfolding file_map_ok_def by auto
    have gt: "fs_geom t" using less.prems(2) ft by simp
    obtain b u v where u: "bread 1 (unat a) t = Ok b u" "b_data (bufs u b) = bview t (unat a)" "kept t u"
      "brelse b u = Ok () v" "tx {} k v" "bview v = bview t" "kept t v"
      by (rule tx_read [OF t(3) geom_data(1) [OF gt ad]]) simp_all
    have kv: "kept s v" and wv: "bview v = bview s" using kept_trans [OF t(5) u(7)] u(6) t(4) by simp_all
    note fv = kept_fs [OF kv] and vv = kept_view [OF kv wv]
    have ch: "slice (off mod BSIZE) m (b_data (bufs u b)) = map (fbyte s i) [off..<off + m]"
      using chunk_bytes [OF _ fa m(3)] tx_length [OF less.prems(1)] u(2) t(2,4) by simp
    let ?acc = "acc @ map (fbyte s i) [off..<off + m]"
    have "wp (readi_loop i (off + m) (n - m) ?acc v)
       (\<lambda>bs w. bs = ?acc @ map (fbyte v i) [off + m..<off + m + (n - m)] \<and> tx {} k w \<and> bview w = bview v \<and> kept v w)"
      by (rule less.IH) (use m u(5) less.prems fv vv in auto)
    moreover have "?acc @ map (fbyte v i) [off + m..<off + m + (n - m)] = acc @ map (fbyte s i) [off..<off + n]"
      using m by (simp add: vv) (metis map_append le_add1 le_add_diff_inverse add.assoc upt_add_eq_append)
    moreover have "readi_loop i off n acc s = readi_loop i (off + m) (n - m) ?acc v"
      unfolding readi_loop.simps [of i off n] using False t(1) u(1,4) ch dv ft(2) by (simp add: Let_def flip: m_def BSIZE_def)
    ultimately show ?thesis using kept_trans [OF kv] wv by (auto elim: wp_mono)
  qed
qed

subsection \<open>writei\<close>

lemma block_next: "m = BSIZE - off mod BSIZE \<Longrightarrow> (off + m) mod BSIZE = 0"
proof -
  assume "m = BSIZE - off mod BSIZE"
  then have "m + off mod 512 = 512" by simp
  then have "off + m = Suc (off div 512) * 512" unfolding mult_Suc using div_mult_mod_eq [of off 512] by linarith
  then show ?thesis by simp
qed

lemma block_range:
  assumes "o' + l \<le> BSIZE"
  shows "bn * BSIZE + o' \<le> p \<and> p < bn * BSIZE + o' + l \<longleftrightarrow> p div BSIZE = bn \<and> o' \<le> p mod BSIZE \<and> p mod BSIZE < o' + l"
proof -
  have r: "p div 512 = bn" if "bn * 512 + o' \<le> p" "p < bn * 512 + o' + l"
    by (rule div_nat_eqI) (use assms that in simp_all)
  show ?thesis
  proof (cases "p div 512 = bn")
    case True
    have e: "bn * 512 + p mod 512 = p" using div_mult_mod_eq [of p 512] unfolding True .
    have "bn * 512 + o' \<le> p \<longleftrightarrow> o' \<le> p mod 512" "p < bn * 512 + o' + l \<longleftrightarrow> p mod 512 < o' + l" using e by linarith+
    then show ?thesis unfolding BSIZE_def True by blast
  qed (use r in auto)
qed

text \<open>Overwriting part of one block of a file.\<close>

lemma write_block:
  assumes "tx H k s" and "fs_ok s" and "file_map_ok s i" and "kept s t" and "faddr s i bn \<noteq> 0" and "bn < MAXFILE"
    and t: "bview t = (bview s)(faddr s i bn := splice_at o' ch (bview s (faddr s i bn)))" and o: "o' + length ch \<le> BSIZE"
  shows "faddr t i m = faddr s i m"
    and "fblocks t i = fblocks s i" and "c < unat (sb_size (sb s)) \<Longrightarrow> used t c = used s c"
    and "fs_ok t" and "file_map_ok t i" and "nfree t = nfree s"
    and "p < MAXFILE * BSIZE \<Longrightarrow> fbyte t i p =
      (if bn * BSIZE + o' \<le> p \<and> p < bn * BSIZE + o' + length ch then ch ! (p - (bn * BSIZE + o')) else fbyte s i p)"
proof -
  note ft = kept_fs [OF assms(4)]
  let ?a = "faddr s i bn"
  have mo: "\<forall>m\<in>fblocks s i. is_data s m \<and> used s m" "\<forall>bn<MAXFILE. faddr s i bn \<noteq> 0 \<longrightarrow> faddr s i bn \<noteq> find_blk s i"
    "\<forall>bn<MAXFILE. \<forall>bm<MAXFILE. faddr s i bn \<noteq> 0 \<longrightarrow> faddr s i bn = faddr s i bm \<longrightarrow> bn = bm"
    using assms(3) unfolding file_map_ok_def by blast+
  have ad: "is_data s ?a" and an: "?a \<noteq> find_blk s i" using mo fblocksI(1) [OF assms(6,5)] assms(5,6) by blast+
  have fd: "find_blk t i = find_blk s i" by (simp add: find_blk_def ft)
  have fa: "faddr t i m = faddr s i m" for m using an by (simp add: faddr_def fd ft t)
  then show "faddr t i m = faddr s i m" .
  show fb: "fblocks t i = fblocks s i" by (simp add: fblocks_def fd fa)
  have us: "used t c = used s c" if c: "c < unat (sb_size (sb s))" for c
    using geom_bitmap(3) [OF _ c] ad assms(2) ft(1) by (auto simp: used_def t fs_ok_def)
  then show "c < unat (sb_size (sb s)) \<Longrightarrow> used t c = used s c" .
  have "used t c" if "c \<le> unat (sb_bmapstart (sb s)) + unat (sb_size (sb s)) div BPB" for c
    using us [of c] that assms(2) by (auto simp: fs_ok_def fs_geom_def)
  then show "fs_ok t" using assms(2) ft by (simp add: fs_ok_def)
  have "used t m" if "m \<in> fblocks s i" for m using mo(1) that us is_data_lt by blast
  then show "file_map_ok t i" using assms(3) unfolding file_map_ok_def fb fd fa ft by blast
  have "{c. c < unat (sb_size (sb t)) \<and> \<not> used t c} = {c. c < unat (sb_size (sb s)) \<and> \<not> used s c}" using us ft(1) by auto
  then show "nfree t = nfree s" by (simp add: nfree_def)
  assume p: "p < MAXFILE * BSIZE"
  have pb: "p div BSIZE < MAXFILE" using p by (simp add: div_less_iff_less_mult)
  have e: "bn * BSIZE + o' \<le> p \<and> p < bn * BSIZE + o' + length ch \<longleftrightarrow> p div BSIZE = bn \<and> o' \<le> p mod BSIZE \<and> p mod BSIZE < o' + length ch"
    using block_range [OF o] by simp
  show "fbyte t i p = (if bn * BSIZE + o' \<le> p \<and> p < bn * BSIZE + o' + length ch then ch ! (p - (bn * BSIZE + o')) else fbyte s i p)"
  proof (cases "p div BSIZE = bn")
    case True
    then have "p - (bn * BSIZE + o') = p mod BSIZE - o'" by (metis diff_diff_left minus_div_mult_eq_mod)
    then show ?thesis unfolding e using True assms(5) o tx_length [OF assms(1)] by (simp add: fbyte_def fa t nth_splice_at)
  next
    case False
    then have "faddr s i (p div BSIZE) = 0 \<or> faddr s i (p div BSIZE) \<noteq> ?a" using mo(3) pb assms(6) by blast
    then show ?thesis unfolding e using False by (auto simp: fbyte_def fa t)
  qed
qed

definition written :: "nat \<Rightarrow> nat \<Rightarrow> u8 list \<Rightarrow> 'z fs_st_scheme \<Rightarrow> 'z fs_st_scheme \<Rightarrow> bool" where
  "written i off src s t \<longleftrightarrow> fs_ok t \<and> file_map_ok t i \<and> fkept i s t \<and>
     (\<forall>p<MAXFILE * BSIZE. fbyte t i p = (if off \<le> p \<and> p < off + length src then src ! (p - off) else fbyte s i p)) \<and>
     (\<forall>m<MAXFILE. faddr s i m \<noteq> 0 \<longrightarrow> faddr t i m \<noteq> 0) \<and>
     (\<forall>p. off \<le> p \<and> p < off + length src \<longrightarrow> faddr t i (p div BSIZE) \<noteq> 0) \<and>
     (\<forall>m. is_data s m \<longrightarrow> used s m \<longrightarrow> used t m \<and> (m \<notin> fblocks s i \<longrightarrow> m \<notin> fblocks t i \<and> bview t m = bview s m))"

lemma written_nil: "fs_ok s \<Longrightarrow> file_map_ok s i \<Longrightarrow> written i off [] s s"
  by (auto simp: written_def)

lemma written_append:
  assumes a: "written i off xs s t" and b: "written i (off + length xs) ys t u" and "off + length xs + length ys \<le> MAXFILE * BSIZE"
  shows "written i off (xs @ ys) s u"
proof -
  note ft = fkept_fields(3) [of i s t]
  have A: "fkept i s t" "\<forall>p<MAXFILE * BSIZE. fbyte t i p = (if off \<le> p \<and> p < off + length xs then xs ! (p - off) else fbyte s i p)"
    "\<forall>m<MAXFILE. faddr s i m \<noteq> 0 \<longrightarrow> faddr t i m \<noteq> 0" "\<forall>p. off \<le> p \<and> p < off + length xs \<longrightarrow> faddr t i (p div BSIZE) \<noteq> 0"
    "\<forall>m. is_data s m \<longrightarrow> used s m \<longrightarrow> used t m \<and> (m \<notin> fblocks s i \<longrightarrow> m \<notin> fblocks t i \<and> bview t m = bview s m)"
    using a unfolding written_def by blast+
  have B: "fs_ok u" "file_map_ok u i" "fkept i t u"
    "\<forall>p<MAXFILE * BSIZE. fbyte u i p = (if off + length xs \<le> p \<and> p < off + length xs + length ys then ys ! (p - (off + length xs)) else fbyte t i p)"
    "\<forall>m<MAXFILE. faddr t i m \<noteq> 0 \<longrightarrow> faddr u i m \<noteq> 0"
    "\<forall>p. off + length xs \<le> p \<and> p < off + length xs + length ys \<longrightarrow> faddr u i (p div BSIZE) \<noteq> 0"
    "\<forall>m. is_data t m \<longrightarrow> used t m \<longrightarrow> used u m \<and> (m \<notin> fblocks t i \<longrightarrow> m \<notin> fblocks u i \<and> bview u m = bview t m)"
    using b unfolding written_def by blast+
  have "fbyte u i p = (if off \<le> p \<and> p < off + length (xs @ ys) then (xs @ ys) ! (p - off) else fbyte s i p)" if "p < MAXFILE * BSIZE" for p
    using A(2) B(4) that by (auto simp: nth_append)
  moreover have "faddr u i (p div BSIZE) \<noteq> 0" if p: "off \<le> p" "p < off + length (xs @ ys)" for p
  proof (cases "p < off + length xs")
    case True
    have "p div BSIZE < MAXFILE" using p assms(3) by (simp add: div_less_iff_less_mult)
    then show ?thesis using A(4) B(5) p(1) True by blast
  next
    case False
    then show ?thesis using B(6) p by simp
  qed
  moreover have "used u m \<and> (m \<notin> fblocks s i \<longrightarrow> m \<notin> fblocks u i \<and> bview u m = bview s m)" if "is_data s m" "used s m" for m
    using A(5) B(7) that ft [OF A(1)] by metis
  ultimately show ?thesis
    using A(3) B(1,2,5) fkept_trans [OF A(1) B(3)] unfolding written_def by blast
qed

text \<open>One turn of the loop.\<close>

lemma writei_step:
  assumes "tx {} (r + 6) s" and "fs_ok s" and "nfree s \<ge> 2" and "file_map_ok s i" and "off < MAXFILE * BSIZE"
    and m: "0 < length ch" "length ch \<le> BSIZE - off mod BSIZE"
  obtains a t b u w v where "bmap i (off div BSIZE) s = Ok a t" and "bread 1 (unat a) t = Ok b u"
    and "log_write b (set_data b (splice_at (off mod BSIZE) ch (b_data (bufs u b))) u) = Ok () w"
    and "brelse b w = Ok () v" and "tx {} r v" and "nfree s \<le> nfree v + 2" and "written i off ch s v" and "i_dev (inodes t i) = 1"
proof -
  let ?bn = "off div BSIZE"
  have bn: "?bn < MAXFILE" using assms(5) by (simp add: div_less_iff_less_mult)
  have o: "off mod BSIZE + length ch \<le> BSIZE" using m(2) by simp
  have tx1: "tx {} (Suc r + 5) s" using assms(1) by (simp add: add.commute)
  obtain a t where t: "bmap i ?bn s = Ok a t" "unat a = faddr t i ?bn" "bmap_post i ?bn (Suc r) s t"
    using bmap_spec [OF tx1 assms(2-4) bn] by (auto elim: wpE)
  have p: "unat a \<noteq> 0" "tx {} (Suc r) t" "fs_ok t" "file_map_ok t i" "fkept i s t" "nfree s \<le> nfree t + 2"
    "\<forall>p<MAXFILE * BSIZE. fbyte t i p = fbyte s i p" "\<forall>m<MAXFILE. m \<noteq> ?bn \<longrightarrow> faddr t i m = faddr s i m"
    "\<forall>m. is_data s m \<longrightarrow> used s m \<longrightarrow> used t m \<and> (m \<notin> fblocks s i \<longrightarrow> m \<notin> fblocks t i \<and> bview t m = bview s m)"
    using t(2,3) unfolding bmap_post_def by simp_all
  have af: "unat a \<in> fblocks t i" using fblocksI(1) [OF bn] t(2) p(1) by metis
  have ad: "is_data t (unat a)" "i_dev (inodes t i) = 1" using p(4) af unfolding file_map_ok_def by blast+
  have gt: "fs_geom t" using p(3) by (simp add: fs_ok_def)
  obtain b u where u: "bread 1 (unat a) t = Ok b u" "opened {} (Suc r) t (unat a) b u"
    using tx_open [OF p(2) geom_data(1) [OF gt ad(1)]] by auto
  let ?x = "splice_at (off mod BSIZE) ch (bview t (unat a))"
  have lx: "length ?x = BSIZE" using o tx_length [OF p(2)] by simp
  obtain w v where w: "log_write b (set_data b ?x u) = Ok () w" "brelse b w = Ok () v" "tx {} r v" "bview v = (bview t)(unat a := ?x)" "kept t v"
    by (rule opened_write [OF u(2) lx geom_data(2) [OF gt ad(1)]]) simp_all
  have z: "faddr t i ?bn \<noteq> 0" using t(2) p(1) by simp
  note W = write_block [OF p(2-4) w(5) z bn w(4) [unfolded t(2)] o]
  have ob: "?bn * BSIZE + off mod BSIZE = off" by simp
  have "fbyte v i p = (if off \<le> p \<and> p < off + length ch then ch ! (p - off) else fbyte s i p)" if "p < MAXFILE * BSIZE" for p
    using W(7) [OF that] p(7) that unfolding ob by simp
  moreover have "faddr v i m \<noteq> 0" if "m < MAXFILE" "faddr s i m \<noteq> 0" for m
    using that p(8) z W(1) by (cases "m = ?bn") auto
  moreover have "faddr v i (p div BSIZE) \<noteq> 0" if "off \<le> p" "p < off + length ch" for p
    using block_split [of "p - off" off] that m(2) z W(1) by simp
  moreover have "used v m \<and> (m \<notin> fblocks s i \<longrightarrow> m \<notin> fblocks v i \<and> bview v m = bview s m)" if d: "is_data s m" "used s m" for m
    using p(9) d W(2) W(3) [of m] is_data_lt [OF d(1)] fkept_fields(1) [OF p(5)] w(4) af by auto
  ultimately have "written i off ch s v"
    using W(4,5) fkept_trans [OF p(5) fkept_kept [OF w(5)]] unfolding written_def by blast
  then show thesis
    using that [OF t(1) u(1) _ w(2,3)] w(1) openedD(1) [OF u(2)] W(6) p(6) ad(2) by simp
qed

lemma writei_loop_spec:
  assumes "tx {} (r + 6 * c) s" and "fs_ok s" and "nfree s \<ge> 2 * c" and "file_map_ok s i"
    and "off + length src \<le> MAXFILE * BSIZE" and "src = [] \<or> off mod BSIZE + length src \<le> c * BSIZE"
  shows "wp (writei_loop i off src s) (\<lambda>e t. e = off + length src \<and> tx {} r t \<and> written i off src s t)"
  using assms
proof (induction c arbitrary: off src s)
  case 0
  then show ?case using written_nil by (auto simp: writei_loop.simps)
next
  case (Suc c)
  show ?case
  proof (cases "src = []")
    case True
    then show ?thesis using Suc.prems written_nil tx_mono [OF Suc.prems(1)] by (simp add: writei_loop.simps)
  next
    case False
    define m where "m = min (length src) (BSIZE - off mod BSIZE)"
    have m: "0 < length (take m src)" "length (take m src) \<le> BSIZE - off mod BSIZE" "length (take m src) = m" using False by (auto simp: m_def)
    have x: "tx {} (r + 6 * c + 6) s" "nfree s \<ge> 2" "off < MAXFILE * BSIZE"
      using Suc.prems length_greater_0_conv [of src] False by (simp_all add: add.commute add.left_commute del: length_greater_0_conv)
    obtain a t b u w v where v: "bmap i (off div BSIZE) s = Ok a t" "bread 1 (unat a) t = Ok b u"
      "log_write b (set_data b (splice_at (off mod BSIZE) (take m src) (b_data (bufs u b))) u) = Ok () w"
      "brelse b w = Ok () v" "tx {} (r + 6 * c) v" "nfree s \<le> nfree v + 2" "written i off (take m src) s v" "i_dev (inodes t i) = 1"
      by (rule writei_step [OF x(1) Suc.prems(2) x(2) Suc.prems(4) x(3) m(1,2)])
    have "wp (writei_loop i (off + m) (drop m src) v)
      (\<lambda>e t. e = off + m + length (drop m src) \<and> tx {} r t \<and> written i (off + m) (drop m src) v t)"
    proof (rule Suc.IH [OF v(5)])
      show "fs_ok v" "file_map_ok v i" using v(7) by (simp_all add: written_def)
      show "2 * c \<le> nfree v" using v(6) Suc.prems(3) by simp
      show "off + m + length (drop m src) \<le> MAXFILE * BSIZE" using Suc.prems(5) m(3) by simp
      show "drop m src = [] \<or> (off + m) mod BSIZE + length (drop m src) \<le> c * BSIZE"
        using Suc.prems(6) False block_next [of m off] by (auto simp: m_def min_def)
    qed
    moreover have "writei_loop i off src s = writei_loop i (off + m) (drop m src) v"
      unfolding writei_loop.simps [of i off src] using False v(1-4,8) by (simp add: Let_def flip: m_def BSIZE_def)
    moreover have "written i off src s t" if "written i (off + m) (drop m src) v t" for t
      using written_append [OF v(7), of "drop m src" t] that m(3) Suc.prems(5) by simp
    ultimately show ?thesis using m(3) by (auto elim: wp_mono)
  qed
qed

subsection \<open>Whole files\<close>

lemma faddr_cong:
  assumes "i_addrs (inodes t j) = i_addrs (inodes s j)" and "\<forall>m\<in>fblocks s j. bview t m = bview s m"
  shows "find_blk t j = find_blk s j" "faddr t j m = faddr s j m" "fblocks t j = fblocks s j"
    "p < MAXFILE * BSIZE \<Longrightarrow> fbyte t j p = fbyte s j p"
proof -
  show f: "find_blk t j = find_blk s j" by (simp add: find_blk_def assms(1))
  have a: "faddr t j m = faddr s j m" for m
    using assms fblocksI(2) [of s j] by (auto simp: faddr_def f)
  then show "faddr t j m = faddr s j m" .
  show "fblocks t j = fblocks s j" by (simp add: fblocks_def f a)
  assume "p < MAXFILE * BSIZE"
  then have "p div BSIZE < MAXFILE" by (simp add: div_less_iff_less_mult)
  then show "fbyte t j p = fbyte s j p" using assms(2) fblocksI(1) [of "p div BSIZE" s j] by (auto simp: fbyte_def a)
qed

lemma fcontent_cong:
  assumes "i_size (inodes t j) = i_size (inodes s j)" and "\<forall>p<MAXFILE * BSIZE. fbyte t j p = fbyte s j p"
    and "unat (i_size (inodes s j)) \<le> MAXFILE * BSIZE"
  shows "fcontent t j = fcontent s j"
  unfolding fcontent_def assms(1) by (rule map_cong [OF refl]) (use assms(2,3) in simp)

lemma length_fcontent [simp]: "length (fcontent s i) = unat (i_size (inodes s i))"
  by (simp add: fcontent_def)

text \<open>The end of \<open>writei\<close>: writing the inode leaves the data alone.\<close>

lemma iupdate_data:
  assumes "tx {} (Suc k) s" and "fs_ok s" and "i_dev (inodes s i) = 1" and "i_inum (inodes s i) < unat (sb_ninodes (sb s))"
    and "length (i_addrs (inodes s i)) = NDIRECT + 1"
  shows "wp (iupdate i s) (\<lambda>_ t. tx {} k t \<and> kept s t \<and> (\<forall>m. is_data s m \<longrightarrow> bview t m = bview s m) \<and> fs_ok t \<and>
     (\<forall>m<unat (sb_size (sb s)). used t m = used s m) \<and> disk_inode t (i_inum (inodes s i)) = to_dinode (inodes s i))"
proof -
  have g: "fs_geom s" using assms(2) by (simp add: fs_ok_def)
  note gi = geom_inode [OF g assms(4)]
  have "wp (iupdate i s) (\<lambda>_ t. tx {} k t \<and> kept s t \<and> disk_inode t (i_inum (inodes s i)) = to_dinode (inodes s i) \<and>
     (\<forall>m. m \<noteq> IBLOCK (i_inum (inodes s i)) (sb s) \<longrightarrow> bview t m = bview s m))"
    by (rule wp_mono [OF iupdate_spec [OF assms(1) g assms(3-5)]]) blast
  then show ?thesis
  proof (rule wp_mono)
    fix t
    assume p: "tx {} k t \<and> kept s t \<and> disk_inode t (i_inum (inodes s i)) = to_dinode (inodes s i) \<and>
      (\<forall>m. m \<noteq> IBLOCK (i_inum (inodes s i)) (sb s) \<longrightarrow> bview t m = bview s m)"
    have k: "kept s t" using p by blast
    note ft = kept_fs [OF k]
    have us: "used t m = used s m" for m
    proof -
      have "BBLOCK m (sb s) \<noteq> IBLOCK (i_inum (inodes s i)) (sb s)" using gi(4) by (simp add: BBLOCK_def)
      then show ?thesis using p ft by (simp add: used_def)
    qed
    have "bview t m = bview s m" if "is_data s m" for m using that gi(3) p by metis
    then show "tx {} k t \<and> kept s t \<and> (\<forall>m. is_data s m \<longrightarrow> bview t m = bview s m) \<and> fs_ok t \<and>
      (\<forall>m<unat (sb_size (sb s)). used t m = used s m) \<and> disk_inode t (i_inum (inodes s i)) = to_dinode (inodes s i)"
      using p us ft assms(2) by (simp add: fs_ok_def)
  qed
qed

definition file_write :: "nat \<Rightarrow> nat \<Rightarrow> u8 list \<Rightarrow> 'z fs_st_scheme \<Rightarrow> 'z fs_st_scheme \<Rightarrow> bool" where
  "file_write i off src s v \<longleftrightarrow> fs_ok v \<and> file_ok v i \<and> sb v = sb s \<and> curproc v = curproc s \<and>
     fcontent v i = take off (fcontent s i) @ src @ drop (off + length src) (fcontent s i) \<and>
     (\<forall>j. j \<noteq> i \<longrightarrow> inodes v j = inodes s j) \<and>
     inodes v i = (inodes s i)\<lparr>i_size := i_size (inodes v i), i_addrs := i_addrs (inodes v i)\<rparr> \<and>
     (\<forall>m. is_data s m \<longrightarrow> used s m \<longrightarrow> m \<notin> fblocks s i \<longrightarrow> used v m \<and> m \<notin> fblocks v i \<and> bview v m = bview s m)"

lemma written_file:
  assumes w: "written i off src s t" and ok: "file_ok s i" and off: "off \<le> unat (i_size (inodes s i))" "off + length src \<le> MAXFILE * BSIZE"
    and v: "inodes v = (inodes t)(i := (inodes t i)\<lparr>i_size := sz\<rparr>)" "sb v = sb t" "curproc v = curproc t" "fs_ok v"
      "\<forall>m. is_data t m \<longrightarrow> bview v m = bview t m" "\<forall>m<unat (sb_size (sb t)). used v m = used t m"
    and sz: "unat sz = max (unat (i_size (inodes s i))) (off + length src)"
  shows "file_write i off src s v"
proof -
  let ?n = "unat (i_size (inodes s i))"
  have k: "fkept i s t" and mt: "file_map_ok t i" and ms: "file_map_ok s i" and n: "?n \<le> MAXFILE * BSIZE"
    using w ok by (simp_all add: written_def file_ok_def)
  note ft = fkept_fields [OF k]
  have bl: "\<forall>m\<in>fblocks t i. is_data t m \<and> used t m" using mt unfolding file_map_ok_def by blast
  have "\<forall>m\<in>fblocks t i. bview v m = bview t m" using bl v(5) by blast
  note fc = faddr_cong [of v i t, OF _ this]
  have fa: "find_blk v i = find_blk t i" "\<And>m. faddr v i m = faddr t i m" "fblocks v i = fblocks t i" using fc(1-3) v(1) by simp_all
  have fb: "fbyte v i p = (if off \<le> p \<and> p < off + length src then src ! (p - off) else fbyte s i p)" if "p < MAXFILE * BSIZE" for p
    using fc(4) [OF _ that] v(1) w that by (simp add: written_def)
  have dt: "is_data v = is_data t" using v(2) by (simp add: is_data_def fun_eq_iff)
  have "\<forall>m\<in>fblocks t i. is_data v m \<and> used v m" using bl dt v(6) is_data_lt by metis
  then have mv: "file_map_ok v i" using mt v(1) unfolding file_map_ok_def fa by simp
  have iv: "inodes v i = (inodes s i)\<lparr>i_size := sz, i_addrs := i_addrs (inodes t i)\<rparr>" using v(1) by simp (subst ft(11), simp)
  have "faddr v i bn \<noteq> 0" if b: "bn * BSIZE < unat sz" for bn
  proof (cases "bn * BSIZE < ?n")
    case True
    then have "bn < MAXFILE" "faddr s i bn \<noteq> 0" using n ok by (simp, simp add: file_ok_def)
    then show ?thesis using w fa(2) by (simp add: written_def)
  next
    case False
    then have "off \<le> bn * BSIZE" "bn * BSIZE < off + length src" using b sz off(1) by (auto simp: max_def split: if_splits)
    then have "faddr t i (bn * BSIZE div BSIZE) \<noteq> 0" using w unfolding written_def by blast
    then show ?thesis using fa(2) by simp
  qed
  then have fok: "file_ok v i" using mv iv sz n off(2) by (simp add: file_ok_def)
  have cont: "fcontent v i = take off (fcontent s i) @ src @ drop (off + length src) (fcontent s i)"
  proof (rule nth_equalityI)
    show "length (fcontent v i) = length (take off (fcontent s i) @ src @ drop (off + length src) (fcontent s i))"
      using iv sz off(1) by auto
    fix p assume "p < length (fcontent v i)"
    then have p: "p < unat sz" using iv by simp
    then have "p < MAXFILE * BSIZE" using sz n off(2) by auto
    then show "fcontent v i ! p = (take off (fcontent s i) @ src @ drop (off + length src) (fcontent s i)) ! p"
      using fb p iv sz off(1) by (auto simp: fcontent_def nth_append min_def)
  qed
  have "used v m \<and> m \<notin> fblocks v i \<and> bview v m = bview s m" if "is_data s m" "used s m" "m \<notin> fblocks s i" for m
    using w that v(5,6) ft(1,3) is_data_lt [OF that(1)] fa(3) by (simp add: written_def)
  then show ?thesis
    unfolding file_write_def using v fok cont ft(1,6,10) iv by simp
qed

lemma file_write_other:
  assumes "file_write i off src s t" and "j \<noteq> i" and "file_ok s j" and "fblocks s j \<inter> fblocks s i = {}"
  shows "file_ok t j \<and> fcontent t j = fcontent s j"
proof -
  have b: "\<forall>m\<in>fblocks s j. is_data s m \<and> used s m" using assms(3) unfolding file_ok_def file_map_ok_def by blast
  have t: "inodes t j = inodes s j" "sb t = sb s"
    "\<forall>m. is_data s m \<longrightarrow> used s m \<longrightarrow> m \<notin> fblocks s i \<longrightarrow> used t m \<and> m \<notin> fblocks t i \<and> bview t m = bview s m"
    using assms(1,2) unfolding file_write_def by blast+
  have u: "used t m \<and> bview t m = bview s m" if "m \<in> fblocks s j" for m using t(3) b that assms(4) by blast
  note c = faddr_cong [of t j s]
  have f: "find_blk t j = find_blk s j" "\<And>m. faddr t j m = faddr s j m" "fblocks t j = fblocks s j"
    "\<And>p. p < MAXFILE * BSIZE \<Longrightarrow> fbyte t j p = fbyte s j p" using c t(1) u by simp_all
  have d: "is_data t = is_data s" using t(2) by (simp add: is_data_def fun_eq_iff)
  have "file_map_ok t j" using assms(3) u unfolding file_ok_def file_map_ok_def f(1-3) d t(1) by blast
  then show ?thesis using assms(3) fcontent_cong [of t j s] f(2,4) t(1) by (simp add: file_ok_def)
qed

lemma writei_spec:
  assumes "tx {} (Suc r + 6 * c) s" and "fs_ok s" and "nfree s \<ge> 2 * c" and "file_ok s i" and "i_inum (inodes s i) < unat (sb_ninodes (sb s))"
    and "i_type (inodes s i) \<noteq> T_DEV" and "off \<le> i_size (inodes s i)" and "unat off + length src \<le> MAXFILE * BSIZE"
    and "src = [] \<or> unat off mod BSIZE + length src \<le> c * BSIZE"
  shows "wp (writei dv i src off s) (\<lambda>n t. n = int (length src) \<and> tx {} r t \<and> file_write i (unat off) src s t)"
proof -
  let ?e = "unat off + length src" and ?n = "unat (i_size (inodes s i))"
  have ms: "file_map_ok s i" and sz: "?n \<le> MAXFILE * BSIZE" using assms(4) by (simp_all add: file_ok_def)
  have ul: "unat (of_nat (length src) :: u32) = length src" using assms(8) by (simp add: unat_of_nat take_bit_nat_eq_self)
  have oe: "unat (off + of_nat (length src) :: u32) = ?e"
    using unat_add_lem [of off "of_nat (length src)"] assms(8) ul by simp
  have le: "unat off \<le> ?n" using assms(7) by (simp add: word_le_nat_alt)
  obtain t where t: "writei_loop i (unat off) src s = Ok ?e t" "tx {} (Suc r) t" "written i (unat off) src s t"
    using writei_loop_spec [OF assms(1-3) ms assms(8,9)] by (auto elim: wpE)
  have kt: "fkept i s t" "fs_ok t" "file_map_ok t i" using t(3) by (simp_all add: written_def)
  note ft = fkept_fields [OF kt(1)]
  have it: "i_size (inodes t i) = i_size (inodes s i)" "i_dev (inodes t i) = i_dev (inodes s i)" "i_inum (inodes t i) = i_inum (inodes s i)"
    by (subst ft(11), simp)+
  have w: "writei dv i src off s = bindR (if 0 < length src \<and> ?n < ?e then iupdate i (upd_inode i (\<lambda>ip. ip\<lparr>i_size := of_nat ?e\<rparr>) t) else Ok () t)
      (\<lambda>_ s. Ok (int (length src)) s)"
    using assms(6,8) le t(1) oe ul it(1)
    by (simp add: writei_def Let_def word_less_nat_alt not_less)
  show ?thesis
  proof (cases "?n < ?e")
    case True
    let ?z = "of_nat ?e :: u32"
    have uz: "unat ?z = ?e" using oe by simp
    define u where "u = upd_inode i (\<lambda>ip. ip\<lparr>i_size := ?z\<rparr>) t"
    have iu: "inodes u = (inodes t)(i := (inodes t i)\<lparr>i_size := ?z\<rparr>)" by (simp add: u_def)
    have ok: "tx {} (Suc r) u" "fs_ok u" "i_dev (inodes u i) = 1" "i_inum (inodes u i) < unat (sb_ninodes (sb u))"
      "length (i_addrs (inodes u i)) = NDIRECT + 1"
      using t(2) kt ms assms(5) it ft(1,12) by (simp_all add: u_def file_map_ok_def)
    obtain v where v: "iupdate i u = Ok () v" "tx {} r v" "kept u v" "\<forall>m. is_data u m \<longrightarrow> bview v m = bview u m" "fs_ok v"
      "\<forall>m<unat (sb_size (sb u)). used v m = used u m"
      using iupdate_data [OF ok] by (auto elim: wpE)
    have "file_write i (unat off) src s v"
    proof (rule written_file [OF t(3) assms(4) le assms(8), where sz = ?z])
      show "inodes v = (inodes t)(i := (inodes t i)\<lparr>i_size := ?z\<rparr>)" "sb v = sb t" using kept_fs(1,2) [OF v(3)] iu by (simp_all add: u_def)
      show "curproc v = curproc t" using kept_fields(1) [OF v(3)] by (simp add: u_def)
      show "\<forall>m. is_data t m \<longrightarrow> bview v m = bview t m" "\<forall>m<unat (sb_size (sb t)). used v m = used t m" using v(4,6) by (simp_all add: u_def)
      show "unat ?z = max ?n ?e" using uz True by simp
    qed (rule v(5))
    moreover have "0 < length src" using True le by auto
    moreover have "upd_inode i (i_size_update (\<lambda>_. off + of_nat (length src))) t = u" by (simp add: u_def)
    ultimately show ?thesis unfolding w using True v(1,2) by simp
  next
    case False
    have "file_write i (unat off) src s t"
    proof (rule written_file [OF t(3) assms(4) le assms(8), where sz = "i_size (inodes s i)"])
      show "inodes t = (inodes t)(i := (inodes t i)\<lparr>i_size := i_size (inodes s i)\<rparr>)" using it(1) by (metis fun_upd_triv inode.surjective inode.update_convs(10))
      show "?n = max ?n ?e" using False by simp
    qed (use kt in simp_all)
    then show ?thesis unfolding w using False tx_mono [OF t(2), of r] by auto
  qed
qed

lemma readi_spec:
  assumes "tx {} k s" and "fs_geom s" and "file_ok s i" and "i_type (inodes s i) \<noteq> T_DEV" and "off \<le> i_size (inodes s i)"
    and "unat off + unat n < 2 ^ 32"
  shows "wp (readi dv i off n s) (\<lambda>r t. r = (let bs = take (unat n) (drop (unat off) (fcontent s i)) in (int (length bs), bs)) \<and>
     tx {} k t \<and> bview t = bview s \<and> kept s t)"
proof -
  let ?n = "unat (i_size (inodes s i))"
  define m where "m = (if off + n > i_size (inodes s i) then i_size (inodes s i) - off else n)"
  have le: "unat off \<le> ?n" using assms(5) by (simp add: word_le_nat_alt)
  have oe: "unat (off + n) = unat off + unat n" using unat_add_lem [of off n] assms(6) by simp
  have um: "unat m = min (unat n) (?n - unat off)"
    using le oe assms(5) by (auto simp: m_def word_less_nat_alt unat_sub word_le_nat_alt min_def)
  have ok: "file_map_ok s i" "?n \<le> MAXFILE * BSIZE" "\<forall>bn. bn * BSIZE < ?n \<longrightarrow> faddr s i bn \<noteq> 0"
    using assms(3) by (simp_all add: file_ok_def)
  have en: "unat off + unat m \<le> ?n" using um le by simp
  have "faddr s i (p div BSIZE) \<noteq> 0" if "p < unat off + unat m" for p
  proof -
    have "p div BSIZE * BSIZE \<le> p" by (rule div_times_less_eq_dividend)
    then show ?thesis using ok(3) that en by (meson le_less_trans less_le_trans)
  qed
  then obtain t where t: "readi_loop i (unat off) (unat m) [] s = Ok (map (fbyte s i) [unat off..<unat off + unat m]) t"
    "tx {} k t" "bview t = bview s" "kept s t"
    using readi_loop_spec [OF assms(1,2) ok(1), of "unat off" "unat m" "[]"] en ok(2) by (auto elim: wpE)
  have b: "map (fbyte s i) [unat off..<unat off + unat m] = take (unat n) (drop (unat off) (fcontent s i))"
    using um le by (auto simp: fcontent_def drop_map take_map min_def)
  have l: "int (unat m) = int (length (take (unat n) (drop (unat off) (fcontent s i))))" using um by simp
  have "readi dv i off n s = bindR (readi_loop i (unat off) (unat m) [] s) (\<lambda>bs s. Ok (int (unat m), bs) s)"
    using assms(4,5) oe by (simp add: readi_def Let_def m_def word_less_nat_alt word_le_nat_alt not_less)
  then show ?thesis using t b l by (simp add: Let_def)
qed

subsection \<open>Properties\<close>

text \<open>
  C9. A file is an array of bytes. Writing \<open>src\<close> at an offset within the file (with enough free blocks and
  room in the transaction for the \<open>c\<close> blocks it touches) returns the number of bytes, and the content is
  then the old content with \<open>src\<close> at that offset, grown if \<open>src\<close> ends behind the old end, whether the
  blocks were there, were holes, or needed a new indirect block. No byte of any other file changes.
\<close>

theorem writei_content:
  assumes "tx {} (Suc r + 6 * c) s" and "fs_ok s" and "nfree s \<ge> 2 * c" and "file_ok s i" and "i_inum (inodes s i) < unat (sb_ninodes (sb s))"
    and "i_type (inodes s i) \<noteq> T_DEV" and "off \<le> i_size (inodes s i)" and "unat off + length src \<le> MAXFILE * BSIZE"
    and "unat off mod BSIZE + length src \<le> c * BSIZE"
  shows "wp (writei dv i src off s) (\<lambda>n t. n = int (length src) \<and> fs_ok t \<and> file_ok t i \<and>
     fcontent t i = take (unat off) (fcontent s i) @ src @ drop (unat off + length src) (fcontent s i) \<and>
     (\<forall>j. j \<noteq> i \<and> file_ok s j \<and> fblocks s j \<inter> fblocks s i = {} \<longrightarrow> file_ok t j \<and> fcontent t j = fcontent s j))"
proof (rule wp_mono [OF writei_spec [OF assms(1-8)]])
  fix n t
  assume a: "n = int (length src) \<and> tx {} r t \<and> file_write i (unat off) src s t"
  have "file_ok t j \<and> fcontent t j = fcontent s j" if j: "j \<noteq> i" "file_ok s j" "fblocks s j \<inter> fblocks s i = {}" for j
    using file_write_other a j by blast
  then show "n = int (length src) \<and> fs_ok t \<and> file_ok t i \<and>
     fcontent t i = take (unat off) (fcontent s i) @ src @ drop (unat off + length src) (fcontent s i) \<and>
     (\<forall>j. j \<noteq> i \<and> file_ok s j \<and> fblocks s j \<inter> fblocks s i = {} \<longrightarrow> file_ok t j \<and> fcontent t j = fcontent s j)"
    using a by (simp add: file_write_def)
qed (use assms(9) in simp)

text \<open>The example: an empty file in inode 5.\<close>

definition empty_file :: fs_st where
  "empty_file = upd_inode 3 (\<lambda>_. inode_demo\<lparr>i_size := 0\<rparr>) fs_demo"

lemma empty_file_ok:
  "tx {} 29 empty_file" "fs_ok empty_file" "nfree empty_file \<ge> 2" "file_ok empty_file 3" "sb empty_file = demo_sb"
  "inodes empty_file 3 = inode_demo\<lparr>i_size := 0\<rparr>" "fcontent empty_file 3 = []"
proof -
  show 1: "tx {} 29 empty_file" "fs_ok empty_file" "sb empty_file = demo_sb" "inodes empty_file 3 = inode_demo\<lparr>i_size := 0\<rparr>"
    using fs_demo_ok fs_demo_fs_ok by (simp_all add: empty_file_def)
  have "{59, 60} \<subseteq> {c. c < unat (sb_size (sb empty_file)) \<and> \<not> used empty_file c}"
    by (simp add: empty_file_def fs_demo_used demo_sb_def)
  from card_mono [OF _ this] show "nfree empty_file \<ge> 2" by (simp add: nfree_def)
  have a: "i_addrs (inodes empty_file 3) = replicate 13 0" by (simp add: 1 inode_demo_def zero_inode_def)
  then have "faddr empty_file 3 m = 0" "find_blk empty_file 3 = 0" for m
    by (auto simp: faddr_def find_blk_def nth_replicate [of _ 13])
  then show "file_ok empty_file 3"
    by (auto simp: file_ok_def file_map_ok_def fblocks_def a) (simp_all add: 1 inode_demo_def zero_inode_def)
  show "fcontent empty_file 3 = []" by (simp add: fcontent_def 1)
qed

theorem writei_content_witness:
  "wp (writei (\<lambda>_. (None, None)) 3 [1, 2, 3] 0 empty_file) (\<lambda>n t. n = 3 \<and> fcontent t 3 = [1, 2, 3])"
proof -
  have "tx {} (Suc 22 + 6 * 1) empty_file" using empty_file_ok(1) by simp
  from writei_content [OF this empty_file_ok(2), of 3 0 "[1, 2, 3]" "\<lambda>_. (None, None)"]
  show ?thesis using empty_file_ok by (auto simp: inode_demo_def zero_inode_def demo_sb_def elim!: wp_mono)
qed

text \<open>
  C10. Reading \<open>n\<close> bytes at an offset within a file returns exactly the bytes the content has there, fewer
  at the end of the file, and their number; no block, no inode and no file's content changes.
\<close>

theorem readi_content:
  assumes "tx {} k s" and "fs_ok s" and "file_ok s i" and "i_type (inodes s i) \<noteq> T_DEV" and "off \<le> i_size (inodes s i)"
    and "unat off + unat n < 2 ^ 32"
  shows "wp (readi dv i off n s) (\<lambda>(r, bs) t. bs = take (unat n) (drop (unat off) (fcontent s i)) \<and> r = int (length bs) \<and>
     bview t = bview s \<and> inodes t = inodes s \<and> fcontent t = fcontent s \<and> tx {} k t)"
proof (rule wp_mono [OF readi_spec [OF assms(1) _ assms(3-6)]])
  show "fs_geom s" using assms(2) by (simp add: fs_ok_def)
  fix r t
  assume a: "r = (let bs = take (unat n) (drop (unat off) (fcontent s i)) in (int (length bs), bs)) \<and> tx {} k t \<and> bview t = bview s \<and> kept s t"
  then have "inodes t = inodes s" "fcontent t = fcontent s" using kept_fs(2) [of s t] kept_view(10) [of s t] by blast+
  then show "(case r of (r, bs) \<Rightarrow> \<lambda>t. bs = take (unat n) (drop (unat off) (fcontent s i)) \<and> r = int (length bs) \<and>
     bview t = bview s \<and> inodes t = inodes s \<and> fcontent t = fcontent s \<and> tx {} k t) t" using a by (simp add: Let_def)
qed

theorem readi_content_witness:
  "wp (bindR (writei (\<lambda>_. (None, None)) 3 [1, 2, 3] 0 empty_file) (\<lambda>_ t. readi (\<lambda>_. (None, None)) 3 1 5 t))
     (\<lambda>(r, bs) t. bs = [2, 3] \<and> r = 2)"
proof -
  have x: "tx {} (Suc 22 + 6 * 1) empty_file" using empty_file_ok(1) by simp
  obtain n t where t: "writei (\<lambda>_. (None, None)) 3 [1, 2, 3] 0 empty_file = Ok n t" "tx {} 22 t" "file_write 3 0 [1, 2, 3] empty_file t"
    using writei_spec [OF x empty_file_ok(2), of 3 0 "[1, 2, 3]" "\<lambda>_. (None, None)"] empty_file_ok
    by (auto simp: inode_demo_def zero_inode_def demo_sb_def elim: wpE)
  have f: "fcontent t 3 = [1, 2, 3]" "fs_ok t" "file_ok t 3"
    and i: "inodes t 3 = (inodes empty_file 3)\<lparr>i_size := i_size (inodes t 3), i_addrs := i_addrs (inodes t 3)\<rparr>"
    using t(3) empty_file_ok(7) unfolding file_write_def by simp_all
  have ty: "i_type (inodes t 3) \<noteq> T_DEV" by (subst i) (simp add: empty_file_ok(6) inode_demo_def)
  have "unat (i_size (inodes t 3)) = 3" using f(1) length_fcontent [of t 3] by simp
  then have "(1 :: u32) \<le> i_size (inodes t 3)" by (simp add: word_le_nat_alt)
  from readi_content [OF t(2) f(2,3) ty this, of 5 "\<lambda>_. (None, None)"]
  show ?thesis unfolding t(1) using f(1) by (auto elim!: wp_mono)
qed

end
