(* ===== verification/Names.thy ===== *)
theory Names
  imports Content
begin

section \<open>Properties of directories and paths\<close>

text \<open>
  A directory is a list of entries, read off its content; \<open>dirlookup\<close> is a search in it and \<open>dirlink\<close>
  adds to it. A path is the sequence of its elements.
\<close>

subsection \<open>Directories\<close>

text \<open>What two names are compared by: their bytes up to a zero, at most \<open>DIRSIZ\<close> of them.\<close>

definition dkey :: "u8 list \<Rightarrow> u8 list" where
  "dkey nm = cname DIRSIZ (reader_of nm)"

lemma namecmp_dkey: "namecmp a b = 0 \<longleftrightarrow> dkey a = dkey b"
  by (simp only: namecmp_def dkey_def strncmp_eq_0)

definition dentries :: "'z fs_st_scheme \<Rightarrow> nat \<Rightarrow> dirent list" where
  "dentries s dp = map (\<lambda>k. dec_dirent (slice (k * DIRENT_SIZE) DIRENT_SIZE (fcontent s dp))) [0..<length (fcontent s dp) div DIRENT_SIZE]"

definition dlook :: "dirent list \<Rightarrow> u8 list \<Rightarrow> nat option" where
  "dlook es key = map_option (\<lambda>e. unat (de_inum e)) (find (\<lambda>e. de_inum e \<noteq> 0 \<and> dkey (de_name e) = key) es)"

text \<open>A well-formed directory: a file of whole entries.\<close>

definition dir_ok :: "'z fs_st_scheme \<Rightarrow> nat \<Rightarrow> bool" where
  "dir_ok s dp \<longleftrightarrow> file_ok s dp \<and> i_type (inodes s dp) = T_DIR \<and> length (fcontent s dp) mod DIRENT_SIZE = 0"

lemma entries_up: "n mod 16 = 0 \<Longrightarrow> (15 + n) div 16 = n div (16 :: nat)"
proof -
  assume "n mod 16 = 0"
  then obtain k where "n = 16 * k" by (auto simp: mod_eq_0_iff_dvd elim: dvdE)
  then show ?thesis by simp
qed

lemma dir_offs_eq: "dir_ok s dp \<Longrightarrow> dir_offs (i_size (inodes s dp)) = map (\<lambda>k. k * DIRENT_SIZE) [0..<length (dentries s dp)]"
  by (simp add: dir_offs_def dentries_def dir_ok_def entries_up)

lemma dir_kept: "kept s t \<Longrightarrow> bview t = bview s \<Longrightarrow> dir_ok t = dir_ok s \<and> dentries t = dentries s"
  using kept_fs(2) [of s t] kept_view(7,10) [of s t] by (simp add: dir_ok_def dentries_def fun_eq_iff)

lemma read_dirent_spec:
  assumes "tx {} r s" and "fs_geom s" and "dir_ok s dp" and "k < length (dentries s dp)"
  shows "wp (read_dirent dv msg dp (k * DIRENT_SIZE) s) (\<lambda>de t. de = dentries s dp ! k \<and> tx {} r t \<and> bview t = bview s \<and> kept s t)"
proof -
  let ?n = "unat (i_size (inodes s dp))" and ?o = "of_nat (k * DIRENT_SIZE) :: u32"
  have f: "file_ok s dp" "i_type (inodes s dp) \<noteq> T_DEV" "?n \<le> MAXFILE * BSIZE" using assms(3) by (simp_all add: dir_ok_def file_ok_def)
  have k: "k * 16 + 16 \<le> ?n" using assms(4) by (simp add: dentries_def)
  have uo: "unat ?o = k * 16" using k f(3) by (simp add: unat_of_nat take_bit_nat_eq_self del: of_nat_mult)
  have le: "?o \<le> i_size (inodes s dp)" using uo k by (simp add: word_le_nat_alt del: of_nat_mult)
  have "wp (readi dv dp ?o 16 s) (\<lambda>x t. x = (16, slice (k * 16) 16 (fcontent s dp)) \<and> tx {} r t \<and> bview t = bview s \<and> kept s t)"
    by (rule readi_spec [OF assms(1,2) f(1,2) le, THEN wp_mono]) (use k f(3) uo in \<open>auto simp: Let_def slice_def simp del: of_nat_mult\<close>)
  then show ?thesis using assms(4) by (auto simp: read_dirent_def dentries_def elim!: wpE)
qed

text \<open>The scan of \<open>dirlookup\<close>, from entry \<open>j\<close> on.\<close>

lemma dirlookup_from_none:
  assumes "tx {} r s" and "fs_geom s" and "dir_ok s dp" and "j \<le> length (dentries s dp)"
    and "\<forall>e\<in>set (drop j (dentries s dp)). \<not> (de_inum e \<noteq> 0 \<and> dkey (de_name e) = dkey name)"
  shows "wp (dirlookup_from dv dp name (map (\<lambda>k. k * DIRENT_SIZE) [j..<length (dentries s dp)]) s)
     (\<lambda>x t. x = None \<and> tx {} r t \<and> bview t = bview s \<and> kept s t)"
  using assms
proof (induction "length (dentries s dp) - j" arbitrary: j s)
  case 0
  then show ?case by simp
next
  case (Suc n)
  have l: "[j..<length (dentries s dp)] = j # [Suc j..<length (dentries s dp)]" and j: "j < length (dentries s dp)"
    using Suc(2) by (simp_all add: upt_conv_Cons)
  obtain t where t: "read_dirent dv ''dirlookup read'' dp (j * DIRENT_SIZE) s = Ok (dentries s dp ! j) t" "tx {} r t" "bview t = bview s" "kept s t"
    using read_dirent_spec [OF Suc.prems(1-3) j, of dv "''dirlookup read''"] by (auto elim: wpE)
  note d = dir_kept [OF t(4,3)]
  have m: "\<not> (de_inum (dentries s dp ! j) \<noteq> 0 \<and> dkey (de_name (dentries s dp ! j)) = dkey name)"
    using Suc.prems(5) j by (simp add: Cons_nth_drop_Suc [symmetric])
  have "wp (dirlookup_from dv dp name (map (\<lambda>k. k * DIRENT_SIZE) [Suc j..<length (dentries t dp)]) t)
     (\<lambda>x u. x = None \<and> tx {} r u \<and> bview u = bview t \<and> kept t u)"
  proof (rule Suc.hyps(1))
    show "n = length (dentries t dp) - Suc j" using Suc(2) d by simp
    show "\<forall>e\<in>set (drop (Suc j) (dentries t dp)). \<not> (de_inum e \<noteq> 0 \<and> dkey (de_name e) = dkey name)"
      using Suc.prems(5) j d by (simp add: Cons_nth_drop_Suc [symmetric])
  qed (use t(2,4) d j Suc.prems kept_fs(4) [OF t(4)] in simp_all)
  then show ?case
    unfolding l using t m d kept_trans [OF t(4)] by (auto simp: namecmp_dkey elim!: wp_mono)
qed

lemma dirlookup_from_some:
  assumes "tx {} r s" and "fs_geom s" and "dir_ok s dp" and "j \<le> k" and "k < length (dentries s dp)"
    and "\<forall>i. j \<le> i \<and> i < k \<longrightarrow> \<not> (de_inum (dentries s dp ! i) \<noteq> 0 \<and> dkey (de_name (dentries s dp ! i)) = dkey name)"
    and "de_inum (dentries s dp ! k) \<noteq> 0" and "dkey (de_name (dentries s dp ! k)) = dkey name" and "i_dev (inodes s dp) = 1"
  shows "\<exists>t. dirlookup_from dv dp name (map (\<lambda>k. k * DIRENT_SIZE) [j..<length (dentries s dp)]) s =
     bindR (iget 1 (unat (de_inum (dentries s dp ! k))) t) (\<lambda>i s. Ok (Some (i, k * DIRENT_SIZE)) s) \<and> tx {} r t \<and> bview t = bview s \<and> kept s t"
  using assms
proof (induction "k - j" arbitrary: j s)
  case 0
  then have e: "j = k" by simp
  have l: "[j..<length (dentries s dp)] = k # [Suc k..<length (dentries s dp)]" using e "0.prems"(5) by (simp add: upt_conv_Cons)
  obtain t where t: "read_dirent dv ''dirlookup read'' dp (k * DIRENT_SIZE) s = Ok (dentries s dp ! k) t" "tx {} r t" "bview t = bview s" "kept s t"
    using read_dirent_spec [OF "0.prems"(1-3,5), of dv "''dirlookup read''"] by (auto elim: wpE)
  show ?case unfolding l using t "0.prems"(7-9) kept_fs(2) [OF t(4)] by (auto simp: namecmp_dkey)
next
  case (Suc n)
  have j: "j < k" using Suc(2) by simp
  have l: "[j..<length (dentries s dp)] = j # [Suc j..<length (dentries s dp)]" and jl: "j < length (dentries s dp)"
    using j Suc.prems(5) by (simp_all add: upt_conv_Cons)
  obtain t where t: "read_dirent dv ''dirlookup read'' dp (j * DIRENT_SIZE) s = Ok (dentries s dp ! j) t" "tx {} r t" "bview t = bview s" "kept s t"
    using read_dirent_spec [OF Suc.prems(1-3) jl, of dv "''dirlookup read''"] by (auto elim: wpE)
  note d = dir_kept [OF t(4,3)]
  have m: "\<not> (de_inum (dentries s dp ! j) \<noteq> 0 \<and> dkey (de_name (dentries s dp ! j)) = dkey name)" using Suc.prems(6) j by simp
  have "\<exists>u. dirlookup_from dv dp name (map (\<lambda>k. k * DIRENT_SIZE) [Suc j..<length (dentries t dp)]) t =
     bindR (iget 1 (unat (de_inum (dentries t dp ! k))) u) (\<lambda>i s. Ok (Some (i, k * DIRENT_SIZE)) s) \<and> tx {} r u \<and> bview u = bview t \<and> kept t u"
    by (rule Suc.hyps(1)) (use Suc(2) Suc.prems t(2) d j kept_fs(2,4) [OF t(4)] in simp_all)
  then show ?case unfolding l using t m d kept_trans [OF t(4)] by (auto simp: namecmp_dkey)
qed

lemma dlook_None: "dlook es key = None \<longleftrightarrow> (\<forall>e\<in>set es. \<not> (de_inum e \<noteq> 0 \<and> dkey (de_name e) = key))"
  by (auto simp: dlook_def find_None_iff)

lemma dlook_Some:
  assumes "dlook es key = Some n"
  obtains k where "k < length es" "de_inum (es ! k) \<noteq> 0" "dkey (de_name (es ! k)) = key" "n = unat (de_inum (es ! k))"
    "\<forall>i<k. \<not> (de_inum (es ! i) \<noteq> 0 \<and> dkey (de_name (es ! i)) = key)"
  using assms by (auto simp: dlook_def find_Some_iff)

lemma dirlookup_none:
  assumes "tx {} r s" and "fs_geom s" and "dir_ok s dp" and "dlook (dentries s dp) (dkey name) = None"
  shows "wp (dirlookup dv dp name s) (\<lambda>x t. x = None \<and> tx {} r t \<and> bview t = bview s \<and> kept s t)"
  using dirlookup_from_none [OF assms(1-3), of 0 name dv] assms(3,4) dir_offs_eq [OF assms(3)]
  by (simp add: dirlookup_def dlook_None dir_ok_def)

lemma dirlookup_some:
  assumes "tx {} r s" and "fs_geom s" and "dir_ok s dp" and "dlook (dentries s dp) (dkey name) = Some n"
  shows "\<exists>t k. dirlookup dv dp name s = bindR (iget 1 n t) (\<lambda>i s. Ok (Some (i, k * DIRENT_SIZE)) s) \<and>
     k < length (dentries s dp) \<and> tx {} r t \<and> bview t = bview s \<and> kept s t"
proof -
  obtain k where k: "k < length (dentries s dp)" "de_inum (dentries s dp ! k) \<noteq> 0" "dkey (de_name (dentries s dp ! k)) = dkey name"
    "n = unat (de_inum (dentries s dp ! k))" "\<forall>i<k. \<not> (de_inum (dentries s dp ! i) \<noteq> 0 \<and> dkey (de_name (dentries s dp ! i)) = dkey name)"
    using dlook_Some [OF assms(4)] by metis
  have "i_dev (inodes s dp) = 1" using assms(3) by (simp add: dir_ok_def file_ok_def file_map_ok_def)
  then show ?thesis
    using dirlookup_from_some [OF assms(1-3) le0 k(1) _ k(2,3), of dv] k assms(3) dir_offs_eq [OF assms(3)]
    by (auto simp: dirlookup_def dir_ok_def)
qed

lemma find_empty_spec:
  assumes "tx {} r s" and "fs_geom s" and "dir_ok s dp" and "j \<le> length (dentries s dp)"
    and "\<forall>i<j. de_inum (dentries s dp ! i) \<noteq> 0"
  shows "wp (find_empty dv dp (map (\<lambda>k. k * DIRENT_SIZE) [j..<length (dentries s dp)]) (length (dentries s dp) * DIRENT_SIZE) s)
     (\<lambda>x t. (\<exists>k\<le>length (dentries s dp). x = k * DIRENT_SIZE \<and> (k < length (dentries s dp) \<longrightarrow> de_inum (dentries s dp ! k) = 0) \<and>
          (\<forall>i<k. de_inum (dentries s dp ! i) \<noteq> 0)) \<and> tx {} r t \<and> bview t = bview s \<and> kept s t)"
  using assms
proof (induction "length (dentries s dp) - j" arbitrary: j s)
  case 0
  then show ?case by (auto intro!: exI [of _ j])
next
  case (Suc n)
  have l: "[j..<length (dentries s dp)] = j # [Suc j..<length (dentries s dp)]" and j: "j < length (dentries s dp)"
    using Suc(2) by (simp_all add: upt_conv_Cons)
  obtain t where t: "read_dirent dv ''dirlink read'' dp (j * DIRENT_SIZE) s = Ok (dentries s dp ! j) t" "tx {} r t" "bview t = bview s" "kept s t"
    using read_dirent_spec [OF Suc.prems(1-3) j, of dv "''dirlink read''"] by (auto elim: wpE)
  note d = dir_kept [OF t(4,3)]
  show ?case
  proof (cases "de_inum (dentries s dp ! j) = 0")
    case True
    then show ?thesis unfolding l using t Suc.prems(5) j by (auto intro!: exI [of _ j])
  next
    case False
    have "wp (find_empty dv dp (map (\<lambda>k. k * DIRENT_SIZE) [Suc j..<length (dentries t dp)]) (length (dentries t dp) * DIRENT_SIZE) t)
     (\<lambda>x u. (\<exists>k\<le>length (dentries t dp). x = k * DIRENT_SIZE \<and> (k < length (dentries t dp) \<longrightarrow> de_inum (dentries t dp ! k) = 0) \<and>
          (\<forall>i<k. de_inum (dentries t dp ! i) \<noteq> 0)) \<and> tx {} r u \<and> bview u = bview t \<and> kept t u)"
      by (rule Suc.hyps(1)) (use Suc(2) Suc.prems t(2) d j False kept_fs(4) [OF t(4)] in \<open>auto simp: less_Suc_eq\<close>)
    then show ?thesis unfolding l using t False d kept_trans [OF t(4)] by (auto elim!: wp_mono)
  qed
qed

text \<open>Entries behind each other, and one of them replaced or one added.\<close>

definition ents :: "u8 list \<Rightarrow> dirent list" where
  "ents c = map (\<lambda>k. dec_dirent (slice (k * DIRENT_SIZE) DIRENT_SIZE c)) [0..<length c div DIRENT_SIZE]"

lemma dentries_ents: "dentries s dp = ents (fcontent s dp)"
  by (simp add: dentries_def ents_def)

lemma ents_put:
  assumes "length c mod DIRENT_SIZE = 0" and "k \<le> length (ents c)" and "length b = DIRENT_SIZE"
  shows "ents (take (k * DIRENT_SIZE) c @ b @ drop (k * DIRENT_SIZE + length b) c) =
     (if k < length (ents c) then (ents c)[k := dec_dirent b] else ents c @ [dec_dirent b])"
proof -
  define n where "n = length (ents c)"
  have l: "length c = n * 16" "length b = 16" "k \<le> n" using assms by (auto simp: n_def ents_def)
  show ?thesis
  proof (cases "k < n")
    case True
    have e: "take (k * 16) c @ b @ drop (k * 16 + 16) c = splice_at (k * 16) b c" using l by (simp add: splice_at_def)
    have kl: "k * 16 + 16 \<le> length c" using True l by simp
    have "slice (i * 16) 16 (splice_at (k * 16) b c) = (if i = k then b else slice (i * 16) 16 c)" if "i < n" for i
    proof (cases "i = k")
      case False
      then have "i * 16 + 16 \<le> k * 16 \<or> k * 16 + 16 \<le> i * 16" by linarith
      then show ?thesis using slice_splice_disjoint [of "k * 16" b c "i * 16" 16] that l kl False by simp
    qed (use l kl in simp)
    then show ?thesis using True l kl by (intro nth_equalityI) (simp_all add: ents_def n_def [symmetric] e nth_list_update)
  next
    case False
    then have "k = n" using l by simp
    then have e: "take (k * 16) c @ b @ drop (k * 16 + length b) c = c @ b" using l by simp
    have "slice (i * 16) 16 (c @ b) = (if i < n then slice (i * 16) 16 c else b)" if "i < Suc n" for i
      using that l by (cases "i < n") (simp_all add: slice_append1 slice_append2 less_Suc_eq)
    then show ?thesis using False l by (intro nth_equalityI) (simp_all add: ents_def n_def [symmetric] e nth_append less_Suc_eq)
  qed
qed

lemma dec_enc_dirent: "length nm = DIRSIZ \<Longrightarrow> dec_dirent (enc_dirent \<lparr>de_inum = w, de_name = nm\<rparr>) = \<lparr>de_inum = w, de_name = nm\<rparr>"
  by (simp add: dec_dirent_def enc_dirent_def slice_append1 slice_append2)

lemma dlook_Cons [simp]:
  "dlook [] key = None"
  "dlook (e # es) key = (if de_inum e \<noteq> 0 \<and> dkey (de_name e) = key then Some (unat (de_inum e)) else dlook es key)"
  by (simp_all add: dlook_def)

lemma dlook_append: "dlook (xs @ ys) key = (case dlook xs key of None \<Rightarrow> dlook ys key | Some n \<Rightarrow> Some n)"
  by (induction xs) auto

lemma dlook_put:
  assumes "k \<le> length es" and "k < length es \<longrightarrow> de_inum (es ! k) = 0" and "dlook es (dkey (de_name e)) = None" and "de_inum e \<noteq> 0"
  shows "dlook (if k < length es then es[k := e] else es @ [e]) key = (if key = dkey (de_name e) then Some (unat (de_inum e)) else dlook es key)"
proof (cases "k < length es")
  case True
  have x: "es = take k es @ es ! k # drop (Suc k) es" by (rule id_take_nth_drop [OF True])
  have "dlook (take k es) (dkey (de_name e)) = None" using assms(3) x by (metis dlook_append option.case_eq_if option.simps(3))
  then show ?thesis using True assms(2,4)
    by (subst (2) x) (auto simp: upd_conv_take_nth_drop dlook_append split: option.split)
next
  case False
  then show ?thesis using assms(3,4) by (auto simp: dlook_append split: option.split)
qed

lemma dirlink_spec:
  assumes "tx {} (Suc r + 6) s" and "fs_ok s" and "nfree s \<ge> 2" and "dir_ok s dp" and "i_inum (inodes s dp) < unat (sb_ninodes (sb s))"
    and "length (fcontent s dp) < MAXFILE * BSIZE" and "dlook (dentries s dp) (dkey name) = None" and "0 < inum" and "inum < 2 ^ 16"
  shows "wp (dirlink dv dp name inum s) (\<lambda>x t. x = 0 \<and> tx {} r t \<and> fs_ok t \<and> dir_ok t dp \<and> sb t = sb s \<and> i_ref (inodes t dp) = i_ref (inodes s dp) \<and>
     (\<forall>key. dlook (dentries t dp) key = (if key = dkey name then Some inum else dlook (dentries s dp) key)) \<and>
     (\<forall>j. j \<noteq> dp \<longrightarrow> inodes t j = inodes s j) \<and>
     (\<forall>j. j \<noteq> dp \<and> file_ok s j \<and> fblocks s j \<inter> fblocks s dp = {} \<longrightarrow> fcontent t j = fcontent s j))"
proof -
  let ?es = "dentries s dp" and ?e = "\<lparr>de_inum = of_nat inum, de_name = strncpy (reader_of name) DIRSIZ\<rparr> :: dirent"
  have g: "fs_geom s" using assms(2) by (simp add: fs_ok_def)
  obtain t where t: "dirlookup dv dp name s = Ok None t" "tx {} (Suc r + 6) t" "bview t = bview s" "kept s t"
    using dirlookup_none [OF assms(1) g assms(4,7)] by (auto elim: wpE)
  note d = dir_kept [OF t(4,3)] and ft = kept_fs [OF t(4)] and vt = kept_view [OF t(4,3)]
  have td: "dir_ok t dp" "dentries t dp = ?es" "fs_geom t" using d assms(4) g ft by simp_all
  obtain k u where u: "find_empty dv dp (map (\<lambda>k. k * DIRENT_SIZE) [0..<length ?es]) (length ?es * DIRENT_SIZE) t = Ok (k * DIRENT_SIZE) u"
    "k \<le> length ?es" "k < length ?es \<longrightarrow> de_inum (?es ! k) = 0" "tx {} (Suc r + 6) u" "bview u = bview t" "kept t u"
    using find_empty_spec [OF t(2) td(3,1), of 0 dv] td(2) by (auto elim: wpE)
  have ku: "kept s u" and wu: "bview u = bview s" using kept_trans [OF t(4) u(6)] u(5) t(3) by simp_all
  note du = dir_kept [OF ku wu] and fu = kept_fs [OF ku] and vu = kept_view [OF ku wu]
  have c: "length (fcontent s dp) mod 16 = 0" "file_ok s dp" using assms(4) by (simp_all add: dir_ok_def)
  have ko: "k * 16 \<le> length (fcontent s dp)" using u(2) by (simp add: dentries_def)
  have ke: "k * 16 + 16 \<le> MAXFILE * BSIZE" using ko c(1) assms(6) by simp
  let ?o = "of_nat (k * DIRENT_SIZE) :: u32"
  have uo: "unat ?o = k * 16" using ke by (simp add: unat_of_nat take_bit_nat_eq_self del: of_nat_mult)
  have le: "length (enc_dirent ?e) = 16" by (simp add: enc_dirent_def)
  have bk: "unat ?o mod BSIZE + length (enc_dirent ?e) \<le> 1 * BSIZE"
    unfolding uo le using mod_mult_mult2 [of k 16 32] mod_less_divisor [of 32 k] by simp
  have "wp (writei dv dp (enc_dirent ?e) ?o u) (\<lambda>n v. n = int (length (enc_dirent ?e)) \<and> tx {} r v \<and> file_write dp (unat ?o) (enc_dirent ?e) u v)"
  proof (rule writei_spec [where c = 1])
    show "tx {} (Suc r + 6 * 1) u" using u(4) by simp
    show "?o \<le> i_size (inodes u dp)" using uo ko fu(2) by (simp add: word_le_nat_alt del: of_nat_mult)
    show "unat ?o + length (enc_dirent ?e) \<le> MAXFILE * BSIZE" using uo le ke by simp
  qed (use assms(2-5) bk fu vu in \<open>auto simp: dir_ok_def\<close>)
  then obtain v where v: "writei dv dp (enc_dirent ?e) ?o u = Ok 16 v" "tx {} r v" "file_write dp (k * 16) (enc_dirent ?e) u v"
    using uo le by (auto elim: wpE)
  have W: "fs_ok v" "file_ok v dp" "sb v = sb u" "fcontent v dp = take (k * 16) (fcontent s dp) @ enc_dirent ?e @ drop (k * 16 + 16) (fcontent s dp)"
    "\<forall>j. j \<noteq> dp \<longrightarrow> inodes v j = inodes s j" and iv: "inodes v dp = (inodes u dp)\<lparr>i_size := i_size (inodes v dp), i_addrs := i_addrs (inodes v dp)\<rparr>"
    using v(3) le vu(10) fu(2) unfolding file_write_def by simp_all
  have ty: "i_type (inodes v dp) = T_DIR" by (subst iv) (use assms(4) fu(2) in \<open>simp add: dir_ok_def\<close>)
  have rf: "i_ref (inodes v dp) = i_ref (inodes s dp)" by (subst iv) (simp add: fu(2))
  have w: "unat (of_nat inum :: u16) = inum" using assms(9) by (simp add: unat_of_nat take_bit_nat_eq_self)
  then have nz: "(of_nat inum :: u16) \<noteq> 0" using assms(8) by auto
  have ky: "dkey (strncpy (reader_of name) 14) = dkey name" by (simp add: dkey_def cname_strncpy)
  have de: "dentries v dp = (if k < length ?es then ?es[k := ?e] else ?es @ [?e])"
    using ents_put [of "fcontent s dp" k "enc_dirent ?e"] c(1) u(2) le W(4) by (simp add: dentries_ents dec_enc_dirent)
  have dl: "dlook (dentries v dp) key = (if key = dkey name then Some inum else dlook ?es key)" for key
    unfolding de using dlook_put [OF u(2,3), of ?e key] nz assms(7) w ky by simp
  have "length (fcontent v dp) mod 16 = 0"
    using ko c(1) le unfolding W(4) by (cases "k * 16 + 16 \<le> length (fcontent s dp)") (simp_all add: mod_add_eq)
  then have dk: "dir_ok v dp" using W(2) ty by (simp add: dir_ok_def)
  have "dirlink dv dp name inum s = Ok 0 v"
    using t(1) u(1) v(1) dir_offs_eq [OF td(1)] td(2) by (simp add: dirlink_def Let_def)
  moreover have "fcontent v j = fcontent s j" if j: "j \<noteq> dp" "file_ok s j" "fblocks s j \<inter> fblocks s dp = {}" for j
    using file_write_other [OF v(3), of j] j vu by simp
  ultimately show ?thesis using v(2) W(1,3,5) dk dl fu(1) rf by simp
qed

lemma iget_spec:
  assumes "\<exists>i<NINODE. i_ref (inodes s i) = 0"
  shows "wp (iget dev inum s) (\<lambda>j t. \<exists>f. t = upd_inode j f s \<and> i_dev (inodes t j) = dev \<and> i_inum (inodes t j) = inum \<and> 0 < i_ref (inodes t j) \<and>
     (\<forall>ip. i_addrs (f ip) = i_addrs ip \<and> i_size (f ip) = i_size ip))"
proof (cases "first_slot NINODE (\<lambda>i. i_ref (inodes s i) > 0 \<and> i_dev (inodes s i) = dev \<and> i_inum (inodes s i) = inum)")
  case None
  obtain i where i: "first_slot NINODE (\<lambda>i. i_ref (inodes s i) = 0) = Some i"
    using assms first_slot_exists [of _ NINODE "\<lambda>i. i_ref (inodes s i) = 0"] by auto
  then have "i_ref (inodes s i) = 0" by (simp add: first_slot_Some)
  then show ?thesis using None i by (auto simp: iget_def intro!: exI [of _ "\<lambda>ip. ip\<lparr>i_dev := dev, i_inum := inum, i_ref := 1, i_valid := False\<rparr>"])
next
  case (Some i)
  then have "i_ref (inodes s i) > 0 \<and> i_dev (inodes s i) = dev \<and> i_inum (inodes s i) = inum" by (simp add: first_slot_Some)
  then show ?thesis using Some by (auto simp: iget_def intro!: exI [of _ "\<lambda>ip. ip\<lparr>i_ref := i_ref ip + 1\<rparr>"])
qed

lemma fcontent_upd_inode:
  assumes "i_addrs (inodes (upd_inode j f s) d) = i_addrs (inodes s d)" and "i_size (inodes (upd_inode j f s) d) = i_size (inodes s d)"
  shows "fcontent (upd_inode j f s) d = fcontent s d"
proof -
  have "find_blk (upd_inode j f s) d = find_blk s d" using assms(1) by (simp only: find_blk_def)
  then have "faddr (upd_inode j f s) d m = faddr s d m" for m using assms(1) by (simp only: faddr_def upd_inode_bio)
  then have "fbyte (upd_inode j f s) d = fbyte s d" by (simp only: fbyte_def upd_inode_bio fun_eq_iff) simp
  then show ?thesis using assms(2) by (simp only: fcontent_def)
qed

text \<open>
  C11. A name linked into a directory is found there: when the directory has no entry of that name,
  \<open>dirlink\<close> succeeds and a \<open>dirlookup\<close> of the name then gives a referenced inode with the linked
  number. Every other name is found or not as before, and the content of the other files is unchanged.
\<close>

theorem dirlink_then_dirlookup:
  assumes "tx {} (Suc r + 6) s" and "fs_ok s" and "nfree s \<ge> 2" and "dir_ok s dp" and "i_inum (inodes s dp) < unat (sb_ninodes (sb s))"
    and "length (fcontent s dp) < MAXFILE * BSIZE" and "dlook (dentries s dp) (dkey name) = None" and "0 < inum" and "inum < 2 ^ 16"
    and "\<exists>i<NINODE. i_ref (inodes s i) = 0"
  shows "wp (bindR (dirlink dv dp name inum s) (\<lambda>x t. bindR (dirlookup dv dp name t) (\<lambda>f t. Ok (x, f) t)))
     (\<lambda>(x, f) t. x = 0 \<and> (\<exists>j off. f = Some (j, off) \<and> i_dev (inodes t j) = 1 \<and> i_inum (inodes t j) = inum \<and> 0 < i_ref (inodes t j)) \<and>
        (\<forall>nm. dkey nm \<noteq> dkey name \<longrightarrow> dlook (dentries t dp) (dkey nm) = dlook (dentries s dp) (dkey nm)) \<and>
        (\<forall>j. j \<noteq> dp \<and> file_ok s j \<and> fblocks s j \<inter> fblocks s dp = {} \<longrightarrow> fcontent t j = fcontent s j))"
proof -
  obtain t where t: "dirlink dv dp name inum s = Ok 0 t" "tx {} r t" "fs_ok t" "dir_ok t dp"
    "\<forall>key. dlook (dentries t dp) key = (if key = dkey name then Some inum else dlook (dentries s dp) key)" "\<forall>j. j \<noteq> dp \<longrightarrow> inodes t j = inodes s j"
    "i_ref (inodes t dp) = i_ref (inodes s dp)"
    "\<forall>j. j \<noteq> dp \<and> file_ok s j \<and> fblocks s j \<inter> fblocks s dp = {} \<longrightarrow> fcontent t j = fcontent s j"
    using dirlink_spec [OF assms(1-9), of dv] by (auto elim: wpE)
  have g: "fs_geom t" using t(3) by (simp add: fs_ok_def)
  have "dlook (dentries t dp) (dkey name) = Some inum" using t(5) by simp
  then obtain u k where u: "dirlookup dv dp name t = bindR (iget 1 inum u) (\<lambda>i s. Ok (Some (i, k * DIRENT_SIZE)) s)" "bview u = bview t" "kept t u"
    using dirlookup_some [OF t(2) g t(4)] by blast
  note fu = kept_fs [OF u(3)] and du = dir_kept [OF u(3,2)]
  have "i_ref (inodes u i) = i_ref (inodes s i)" for i using t(6,7) fu(2) by (cases "i = dp") simp_all
  then have "\<exists>i<NINODE. i_ref (inodes u i) = 0" using assms(10) by simp
  then obtain j f v where v: "iget 1 inum u = Ok j v" "v = upd_inode j f u" "i_dev (inodes v j) = 1" "i_inum (inodes v j) = inum" "0 < i_ref (inodes v j)"
    "\<forall>ip. i_addrs (f ip) = i_addrs ip \<and> i_size (f ip) = i_size ip"
    using iget_spec [of u 1 inum] by (auto elim!: wpE)
  have c: "fcontent v d = fcontent t d" for d
    using fcontent_upd_inode [of j f u d] v(2,6) kept_view(10) [OF u(3,2)] by simp
  then have "dentries v dp = dentries t dp" by (simp add: dentries_ents)
  then show ?thesis using t(1,5,8) u(1) v(1,3-5) c by simp
qed

definition empty_dir :: fs_st where
  "empty_dir = upd_inode 3 (\<lambda>ip. ip\<lparr>i_type := T_DIR\<rparr>) empty_file"

lemma empty_dir_ok:
  "tx {} 29 empty_dir" "fs_ok empty_dir" "nfree empty_dir \<ge> 2" "dir_ok empty_dir 3" "sb empty_dir = demo_sb" "fcontent empty_dir 3 = []"
  "i_inum (inodes empty_dir 3) = 5" "i_ref (inodes empty_dir 0) = 0"
proof -
  note E = empty_file_ok
  show "tx {} 29 empty_dir" "fs_ok empty_dir" "sb empty_dir = demo_sb" "i_inum (inodes empty_dir 3) = 5" "i_ref (inodes empty_dir 0) = 0"
    using E by (simp_all add: empty_dir_def inode_demo_def) (simp add: empty_file_def zero_inode_def)
  show "nfree empty_dir \<ge> 2" using E(3) by (simp add: empty_dir_def nfree_def)
  show c: "fcontent empty_dir 3 = []" using E(6) by (simp add: empty_dir_def fcontent_def)
  have a: "i_addrs (inodes empty_dir 3) = i_addrs (inodes empty_file 3)" by (simp add: empty_dir_def)
  have f: "find_blk empty_dir 3 = find_blk empty_file 3" "\<And>m. faddr empty_dir 3 m = faddr empty_file 3 m"
    by (simp_all add: find_blk_def faddr_def a) (simp_all add: empty_dir_def)
  have "file_ok empty_dir 3"
    using E(4) by (simp add: file_ok_def file_map_ok_def fblocks_def f) (simp add: empty_dir_def)
  then show "dir_ok empty_dir 3" using c by (simp add: dir_ok_def) (simp add: empty_dir_def)
qed

theorem dirlink_then_dirlookup_witness:
  "wp (bindR (dirlink (\<lambda>_. (None, None)) 3 [97] 7 empty_dir) (\<lambda>x t. bindR (dirlookup (\<lambda>_. (None, None)) 3 [97] t) (\<lambda>f t. Ok (x, f) t)))
     (\<lambda>(x, f) t. x = 0 \<and> (\<exists>j off. f = Some (j, off) \<and> i_inum (inodes t j) = 7))"
proof -
  have "tx {} (Suc 22 + 6) empty_dir" using empty_dir_ok(1) by simp
  then have "wp (bindR (dirlink (\<lambda>_. (None, None)) 3 [97] 7 empty_dir) (\<lambda>x t. bindR (dirlookup (\<lambda>_. (None, None)) 3 [97] t) (\<lambda>f t. Ok (x, f) t)))
     (\<lambda>(x, f) t. x = 0 \<and> (\<exists>j off. f = Some (j, off) \<and> i_dev (inodes t j) = 1 \<and> i_inum (inodes t j) = 7 \<and> 0 < i_ref (inodes t j)) \<and>
        (\<forall>nm. dkey nm \<noteq> dkey [97] \<longrightarrow> dlook (dentries t 3) (dkey nm) = dlook (dentries empty_dir 3) (dkey nm)) \<and>
        (\<forall>j. j \<noteq> 3 \<and> file_ok empty_dir j \<and> fblocks empty_dir j \<inter> fblocks empty_dir 3 = {} \<longrightarrow> fcontent t j = fcontent empty_dir j))"
    by (rule dirlink_then_dirlookup)
      (use empty_dir_ok in \<open>auto simp: demo_sb_def dentries_def intro!: exI [of _ 0]\<close>)
  then show ?thesis by (rule wp_mono) auto
qed

subsection \<open>Paths\<close>

text \<open>The elements of a path: what is between slashes, without the empty ones.\<close>

fun pieces :: "u8 list \<Rightarrow> u8 list list" where
  "pieces [] = [[]]"
| "pieces (c # cs) = (if c = SLASH then [] # pieces cs else (c # hd (pieces cs)) # tl (pieces cs))"

definition path_elems :: "u8 list \<Rightarrow> u8 list list" where
  "path_elems p = filter (\<lambda>e. e \<noteq> []) (pieces p)"

text \<open>The name buffer after an element has been copied to it.\<close>

definition name_buf :: "u8 list \<Rightarrow> u8 list \<Rightarrow> u8 list" where
  "name_buf e name = (if length e \<ge> DIRSIZ then splice_at 0 (take DIRSIZ e) name else splice_at 0 (e @ [0]) name)"

lemma pieces_ne [simp]: "pieces p \<noteq> []"
  by (cases p) auto

lemma pieces_word: "SLASH \<notin> set w \<Longrightarrow> pieces (w @ p) = (w @ hd (pieces p)) # tl (pieces p)"
  by (induction w) auto

lemma elems_skip: "path_elems (dropWhile (\<lambda>c. c = SLASH) p) = path_elems p"
  by (induction p) (auto simp: path_elems_def)

lemma elems_word:
  assumes "w \<noteq> []" and "SLASH \<notin> set w" and "p = [] \<or> hd p = SLASH"
  shows "path_elems (w @ p) = w # path_elems p"
proof -
  have "hd (pieces p) = [] \<and> filter (\<lambda>e. e \<noteq> []) (tl (pieces p)) = path_elems p"
    using assms(3) by (cases p) (auto simp: path_elems_def)
  then show ?thesis using assms(1,2) by (simp add: path_elems_def pieces_word)
qed

lemma skipelem_elems:
  "skipelem path name = None \<longleftrightarrow> path_elems path = []"
  "skipelem path name = Some (path', name') \<Longrightarrow> \<exists>e. path_elems path = e # path_elems path' \<and> name' = name_buf e name \<and> (path' = [] \<longleftrightarrow> path_elems path' = [])"
proof -
  let ?p = "dropWhile (\<lambda>c. c = SLASH) path"
  let ?w = "takeWhile (\<lambda>c. c \<noteq> SLASH) ?p" and ?q = "dropWhile (\<lambda>c. c \<noteq> SLASH) ?p"
  have wq: "?p = ?w @ ?q" by simp
  have w: "?w \<noteq> []" if "?p \<noteq> []" using hd_dropWhile [OF that] that by (cases ?p) auto
  have q: "?q = [] \<or> hd ?q = SLASH" using hd_dropWhile [of "\<lambda>c. c \<noteq> SLASH" ?p] by blast
  have e: "path_elems path = ?w # path_elems (dropWhile (\<lambda>c. c = SLASH) ?q)" if "?p \<noteq> []"
    using elems_word [OF w [OF that] _ q] set_takeWhileD [of SLASH "\<lambda>c. c \<noteq> SLASH" ?p] elems_skip [of path] elems_skip [of ?q] wq by metis
  show "skipelem path name = None \<longleftrightarrow> path_elems path = []"
  proof (cases "?p = []")
    case True
    then have "path_elems path = path_elems []" using elems_skip [of path] by metis
    then show ?thesis using True by (simp add: skipelem_def path_elems_def)
  qed (use e in \<open>simp add: skipelem_def Let_def\<close>)
  assume s: "skipelem path name = Some (path', name')"
  then have ne: "?p \<noteq> []" and p': "path' = dropWhile (\<lambda>c. c = SLASH) ?q" and n': "name' = name_buf ?w name"
    by (auto simp: skipelem_def Let_def name_buf_def split: if_splits)
  have "path' = [] \<longleftrightarrow> path_elems path' = []"
  proof (cases path')
    case (Cons c cs)
    then have "c \<noteq> SLASH" using hd_dropWhile [of "\<lambda>c. c = SLASH" ?q] p' by auto
    then show ?thesis using Cons by (simp add: path_elems_def)
  qed (simp add: path_elems_def)
  then show "\<exists>e. path_elems path = e # path_elems path' \<and> name' = name_buf e name \<and> (path' = [] \<longleftrightarrow> path_elems path' = [])"
    using e [OF ne, folded p'] n' by blast
qed

text \<open>
  The walk \<open>namex\<close> is meant to do: from an inode through the elements one after the other. With
  \<open>parent\<close> it stops at the directory of the last element, and an empty path has no parent.
\<close>

fun walk_elems :: "('z fs_st_scheme) devsw \<Rightarrow> bool \<Rightarrow> u8 list list \<Rightarrow> u8 list \<Rightarrow> nat \<Rightarrow> 'z fs_st_scheme \<Rightarrow>
    (nat option \<times> u8 list, 'z fs_st_scheme) result" where
  "walk_elems dv parent [] name ip s =
     (if parent then bindR (iput ip s) (\<lambda>_ s. Ok (None, name) s) else Ok (Some ip, name) s)"
| "walk_elems dv parent (e # es) name ip s =
     bindR (ilock ip s) (\<lambda>_ s.
       if i_type (inodes s ip) \<noteq> T_DIR then bindR (iunlockput ip s) (\<lambda>_ s. Ok (None, name_buf e name) s)
       else if parent \<and> es = [] then bindR (iunlock ip s) (\<lambda>_ s. Ok (Some ip, name_buf e name) s)
       else bindR (dirlookup dv ip (name_buf e name) s) (\<lambda>found s.
            bindR (iunlockput ip s) (\<lambda>_ s.
              case found of None \<Rightarrow> Ok (None, name_buf e name) s
              | Some (nx, _) \<Rightarrow> walk_elems dv parent es (name_buf e name) nx s)))"

lemma namex_loop_walk: "namex_loop dv parent path name ip s = walk_elems dv parent (path_elems path) name ip s"
proof (induction "length path" arbitrary: path name ip s rule: less_induct)
  case less
  show ?case
  proof (cases "skipelem path name")
    case None
    then show ?thesis using skipelem_elems(1) [of path name] by (simp add: namex_loop.simps)
  next
    case (Some x)
    obtain path' name' where x: "x = (path', name')" by (cases x)
    obtain e where e: "path_elems path = e # path_elems path'" "name' = name_buf e name" "path' = [] \<longleftrightarrow> path_elems path' = []"
      using skipelem_elems(2) Some x by blast
    have "namex_loop dv parent path' nm i t = walk_elems dv parent (path_elems path') nm i t" for nm i t
      by (rule less) (use skipelem_shorter Some x in simp)
    then show ?thesis
      by (subst namex_loop.simps) (simp add: Some x e(1,2) e(3) cong: if_cong option.case_cong)
  qed
qed

text \<open>
  C14. Path resolution is the walk over the path's elements: for every path, \<open>namex\<close> starts at the root
  (a path with a leading slash) or at the current directory and takes the non-empty pieces between
  slashes in order, each cut to \<open>DIRSIZ\<close> bytes; slashes in front, between and behind make no difference
  otherwise.
\<close>

theorem namex_walks_elements:
  "namex dv path parent name s =
     (if path \<noteq> [] \<and> hd path = SLASH
      then bindR (iget ROOTDEV ROOTINO s) (walk_elems dv parent (path_elems path) name)
      else case curproc s of
             None \<Rightarrow> Panic ''trap''
           | Some p \<Rightarrow> (case p_cwd (ptable s p) of
                          None \<Rightarrow> Panic ''trap''
                        | Some c \<Rightarrow> walk_elems dv parent (path_elems path) name c (idup c s)))"
proof -
  have "namex_loop dv parent path name = walk_elems dv parent (path_elems path) name" by (intro ext) (rule namex_loop_walk)
  then show ?thesis by (simp add: namex_def cong: if_cong option.case_cong)
qed

end
