(* ===== verification/Spinlock.thy ===== *)
theory Spinlock
  imports Prelude
begin

section \<open>Spin locks (spinlock.c, spinlock.h)\<close>

text \<open>
  The locks and the interrupt state of several CPUs. \<open>acquire\<close> and \<open>release\<close> are split at their
  accesses to the shared lock words, so that the steps of different CPUs interleave as they do on
  the machine; \<open>spin_step\<close> is that interleaving. The other theories run critical sections as one
  step, which the mutual exclusion proved here justifies.
\<close>

subsection \<open>Operations\<close>

record spinlock =
  lk_locked :: bool
  lk_cpu :: "nat option"
  lk_pcs :: "addr_t list"

text \<open>\<open>c_if\<close> is the interrupt flag of the processor's eflags.\<close>

record cpu =
  ncli :: int
  intena :: bool
  c_if :: bool

record spin_st =
  lks :: "nat \<Rightarrow> spinlock"
  cps :: "nat \<Rightarrow> cpu"

definition upd_lk :: "nat \<Rightarrow> (spinlock \<Rightarrow> spinlock) \<Rightarrow> spin_st \<Rightarrow> spin_st" where
  "upd_lk l f s = s\<lparr>lks := (lks s)(l := f (lks s l))\<rparr>"

definition upd_cpu :: "nat \<Rightarrow> (cpu \<Rightarrow> cpu) \<Rightarrow> spin_st \<Rightarrow> spin_st" where
  "upd_cpu c f s = s\<lparr>cps := (cps s)(c := f (cps s c))\<rparr>"

definition initlock :: spinlock where
  "initlock = \<lparr>lk_locked = False, lk_cpu = None, lk_pcs = replicate 10 0\<rparr>"

definition pushcli :: "nat \<Rightarrow> spin_st \<Rightarrow> spin_st" where
  "pushcli c s = upd_cpu c (\<lambda>p.
     let eflags = c_if p;
         p = p\<lparr>c_if := False\<rparr>;
         p = (if ncli p = 0 then p\<lparr>intena := eflags\<rparr> else p)
     in p\<lparr>ncli := ncli p + 1\<rparr>) s"

definition popcli :: "nat \<Rightarrow> spin_st \<Rightarrow> (unit, spin_st) result" where
  "popcli c s =
     (if c_if (cps s c) then Panic ''popcli - interruptible''
      else let s = upd_cpu c (\<lambda>p. p\<lparr>ncli := ncli p - 1\<rparr>) s in
      if ncli (cps s c) < 0 then Panic ''popcli''
      else if ncli (cps s c) = 0 \<and> intena (cps s c) then Ok () (upd_cpu c (\<lambda>p. p\<lparr>c_if := True\<rparr>) s)
      else Ok () s)"

definition holding :: "nat \<Rightarrow> nat \<Rightarrow> spin_st \<Rightarrow> bool" where
  "holding c l s \<longleftrightarrow> lk_locked (lks s l) \<and> lk_cpu (lks s l) = Some c"

text \<open>The parts of \<open>acquire\<close>: up to the loop, one \<open>xchg\<close>, and after the loop.\<close>

definition acquire_start :: "nat \<Rightarrow> nat \<Rightarrow> spin_st \<Rightarrow> (unit, spin_st) result" where
  "acquire_start c l s = (let s = pushcli c s in if holding c l s then Panic ''acquire'' else Ok () s)"

definition acquire_xchg :: "nat \<Rightarrow> spin_st \<Rightarrow> bool \<times> spin_st" where
  "acquire_xchg l s = (lk_locked (lks s l), upd_lk l (\<lambda>k. k\<lparr>lk_locked := True\<rparr>) s)"

definition acquire_done :: "addr_t list \<Rightarrow> nat \<Rightarrow> nat \<Rightarrow> spin_st \<Rightarrow> spin_st" where
  "acquire_done pcs c l s = upd_lk l (\<lambda>k. k\<lparr>lk_cpu := Some c, lk_pcs := pcs\<rparr>) s"

text \<open>\<open>acquire\<close> run without interference: a lock that is held is never released, so it spins for ever.\<close>

definition acquire :: "addr_t list \<Rightarrow> nat \<Rightarrow> nat \<Rightarrow> spin_st \<Rightarrow> (unit, spin_st) result" where
  "acquire pcs c l s =
     bindR (acquire_start c l s) (\<lambda>_ s.
       let (old, s) = acquire_xchg l s in if old then Stuck else Ok () (acquire_done pcs c l s))"

definition release_start :: "nat \<Rightarrow> nat \<Rightarrow> spin_st \<Rightarrow> (unit, spin_st) result" where
  "release_start c l s =
     (if \<not> holding c l s then Panic ''release''
      else Ok () (upd_lk l (\<lambda>k. k\<lparr>lk_pcs := (lk_pcs k)[0 := 0], lk_cpu := None\<rparr>) s))"

definition release_store :: "nat \<Rightarrow> spin_st \<Rightarrow> spin_st" where
  "release_store l s = upd_lk l (\<lambda>k. k\<lparr>lk_locked := False\<rparr>) s"

definition release :: "nat \<Rightarrow> nat \<Rightarrow> spin_st \<Rightarrow> (unit, spin_st) result" where
  "release c l s = bindR (release_start c l s) (\<lambda>_ s. popcli c (release_store l s))"

subsection \<open>Interleaving\<close>

text \<open>
  What a CPU is doing: running ordinary code, spinning for a lock, between its successful \<open>xchg\<close>
  and the end of \<open>acquire\<close>, between the two stores of \<open>release\<close>, or about to call \<open>popcli\<close>. A
  configuration also has the set of locks each CPU holds, which no code reads.
\<close>

datatype phase = Running | Spinning nat | Taken nat | Dropping nat | Popping

type_synonym spin_conf = "spin_st \<times> (nat \<Rightarrow> phase) \<times> (nat \<Rightarrow> nat set)"

inductive spin_step :: "spin_conf \<Rightarrow> spin_conf \<Rightarrow> bool" where
  start: "ph c = Running \<Longrightarrow> acquire_start c l s = Ok () s' \<Longrightarrow> spin_step (s, ph, h) (s', ph(c := Spinning l), h)"
| spin: "ph c = Spinning l \<Longrightarrow> acquire_xchg l s = (True, s') \<Longrightarrow> spin_step (s, ph, h) (s', ph, h)"
| take: "ph c = Spinning l \<Longrightarrow> acquire_xchg l s = (False, s') \<Longrightarrow> spin_step (s, ph, h) (s', ph(c := Taken l), h)"
| own: "ph c = Taken l \<Longrightarrow> spin_step (s, ph, h) (acquire_done pcs c l s, ph(c := Running), h(c := insert l (h c)))"
| drop: "ph c = Running \<Longrightarrow> release_start c l s = Ok () s' \<Longrightarrow>
    spin_step (s, ph, h) (s', ph(c := Dropping l), h(c := h c - {l}))"
| store: "ph c = Dropping l \<Longrightarrow> spin_step (s, ph, h) (release_store l s, ph(c := Popping), h)"
| pop: "ph c = Popping \<Longrightarrow> popcli c s = Ok () s' \<Longrightarrow> spin_step (s, ph, h) (s', ph(c := Running), h)"
| sti: "ph c = Running \<Longrightarrow> ncli (cps s c) = 0 \<Longrightarrow>
    spin_step (s, ph, h) (upd_cpu c (\<lambda>p. p\<lparr>c_if := True\<rparr>) s, ph, h)"

inductive spin_reach :: "spin_conf \<Rightarrow> bool" where
  boot: "(\<And>l. lks s l = initlock) \<Longrightarrow> (\<And>c. ncli (cps s c) = 0) \<Longrightarrow> spin_reach (s, (\<lambda>_. Running), (\<lambda>_. {}))"
| step: "spin_reach x \<Longrightarrow> spin_step x y \<Longrightarrow> spin_reach y"

text \<open>The lock word belongs to a CPU from its \<open>xchg\<close> to the store that clears it.\<close>

definition owns :: "(nat \<Rightarrow> phase) \<Rightarrow> (nat \<Rightarrow> nat set) \<Rightarrow> nat \<Rightarrow> nat \<Rightarrow> bool" where
  "owns ph h c l \<longleftrightarrow> l \<in> h c \<or> ph c = Taken l \<or> ph c = Dropping l"

definition spin_ok :: "spin_conf \<Rightarrow> bool" where
  "spin_ok x = (case x of (s, ph, h) \<Rightarrow>
     (\<forall>l. lk_locked (lks s l) \<longleftrightarrow> (\<exists>c. owns ph h c l))
   \<and> (\<forall>c d l. owns ph h c l \<and> owns ph h d l \<longrightarrow> c = d)
   \<and> (\<forall>c l. lk_cpu (lks s l) = Some c \<longleftrightarrow> l \<in> h c)
   \<and> (\<forall>c l. l \<in> h c \<longrightarrow> ph c \<noteq> Spinning l \<and> ph c \<noteq> Taken l \<and> ph c \<noteq> Dropping l)
   \<and> (\<forall>c. finite (h c) \<and> ncli (cps s c) = int (card (h c)) + (if ph c = Running then 0 else 1))
   \<and> (\<forall>c. ncli (cps s c) > 0 \<longrightarrow> \<not> c_if (cps s c)))"

lemma spin_okD:
  assumes "spin_ok (s, ph, h)"
  shows "lk_locked (lks s l) \<longleftrightarrow> (\<exists>c. owns ph h c l)"
    and "owns ph h c l \<Longrightarrow> owns ph h d l \<Longrightarrow> c = d"
    and "lk_cpu (lks s l) = Some c \<longleftrightarrow> l \<in> h c"
    and "l \<in> h c \<Longrightarrow> ph c \<noteq> Spinning l \<and> ph c \<noteq> Taken l \<and> ph c \<noteq> Dropping l"
    and "finite (h c)" and "ncli (cps s c) = int (card (h c)) + (if ph c = Running then 0 else 1)"
    and "ncli (cps s c) > 0 \<Longrightarrow> \<not> c_if (cps s c)"
  using assms unfolding spin_ok_def prod.case by blast+

lemma upd_spin_simps [simp]:
  "lks (upd_lk l f s) = (lks s)(l := f (lks s l))" "cps (upd_lk l f s) = cps s"
  "lks (upd_cpu c g s) = lks s" "cps (upd_cpu c g s) = (cps s)(c := g (cps s c))"
  by (simp_all add: upd_lk_def upd_cpu_def)

lemma pushcli_simps [simp]:
  "lks (pushcli c s) = lks s" "ncli (cps (pushcli c s) d) = ncli (cps s d) + (if d = c then 1 else 0)"
  "c_if (cps (pushcli c s) d) \<longleftrightarrow> d \<noteq> c \<and> c_if (cps s d)"
  by (simp_all add: pushcli_def Let_def)

lemma popcli_cases:
  assumes "popcli c s = Ok () s'"
  shows "lks s' = lks s" "ncli (cps s' c) = ncli (cps s c) - 1" "\<And>d. d \<noteq> c \<Longrightarrow> cps s' d = cps s d"
    "ncli (cps s' c) > 0 \<Longrightarrow> \<not> c_if (cps s' c)"
  using assms by (auto simp: popcli_def Let_def split: if_splits)

lemma spin_ok_boot: "(\<And>l. lks s l = initlock) \<Longrightarrow> (\<And>c. ncli (cps s c) = 0) \<Longrightarrow> spin_ok (s, (\<lambda>_. Running), (\<lambda>_. {}))"
  by (simp add: spin_ok_def owns_def initlock_def)

lemma owns_start: "ph c = Running \<Longrightarrow> owns (ph(c := Spinning l)) h d k = owns ph h d k"
  by (auto simp: owns_def)

lemma owns_take: "ph c = Spinning l \<Longrightarrow> owns (ph(c := Taken l)) h d k \<longleftrightarrow> owns ph h d k \<or> d = c \<and> k = l"
  by (auto simp: owns_def)

lemma owns_own: "ph c = Taken l \<Longrightarrow> owns (ph(c := Running)) (h(c := insert l (h c))) d k = owns ph h d k"
  by (auto simp: owns_def)

lemma owns_drop:
  "ph c = Running \<Longrightarrow> l \<in> h c \<Longrightarrow> owns (ph(c := Dropping l)) (h(c := h c - {l})) d k = owns ph h d k"
  by (auto simp: owns_def)

lemma owns_store:
  "ph c = Dropping l \<Longrightarrow> l \<notin> h c \<Longrightarrow> owns (ph(c := Popping)) h d k \<longleftrightarrow> owns ph h d k \<and> \<not> (d = c \<and> k = l)"
  by (auto simp: owns_def)

lemma owns_pop: "ph c = Popping \<Longrightarrow> owns (ph(c := Running)) h d k = owns ph h d k"
  by (auto simp: owns_def)

lemma spin_ok_step: "spin_step x y \<Longrightarrow> spin_ok x \<Longrightarrow> spin_ok y"
proof (induction rule: spin_step.induct)
  case (start ph c l s s' h)
  note ok = spin_okD [OF start(3)]
  have s': "s' = pushcli c s" and nh: "l \<notin> h c"
    using start(2) ok(1,3) by (auto simp: acquire_start_def holding_def owns_def Let_def split: if_splits)
  show ?case
    unfolding spin_ok_def prod.case owns_start [of ph c, OF start(1)]
    using ok start(1) nh by (auto simp: s' fun_upd_def split: if_splits)
next
  case (spin ph c l s s' h)
  then have "s' = upd_lk l (\<lambda>k. k\<lparr>lk_locked := True\<rparr>) s" "lk_locked (lks s l)" by (auto simp: acquire_xchg_def)
  then show ?case using spin(3) by (auto simp: spin_ok_def)
next
  case (take ph c l s s' h)
  note ok = spin_okD [OF take(3)]
  have s': "s' = upd_lk l (\<lambda>k. k\<lparr>lk_locked := True\<rparr>) s" and f: "\<not> lk_locked (lks s l)"
    using take(2) by (auto simp: acquire_xchg_def)
  have no: "\<not> owns ph h d l" for d using f ok(1) by blast
  then have "l \<notin> h c" by (auto simp: owns_def)
  then show ?case
    unfolding spin_ok_def prod.case owns_take [of ph c, OF take(1)]
    using ok take(1) no by (auto simp: s' split: if_splits)
next
  case (own ph c l s h pcs)
  note ok = spin_okD [OF own(2)]
  have nl: "l \<notin> h c" using ok(4) own(1) by blast
  have nd: "l \<notin> h d" for d using ok(2) [of c l d] own(1) nl by (auto simp: owns_def)
  show ?case
    unfolding spin_ok_def prod.case owns_own [of ph c, OF own(1)]
    using ok own(1) nl nd by (auto simp: acquire_done_def owns_def split: if_splits)
next
  case (drop ph c l s s' h)
  note ok = spin_okD [OF drop(3)]
  have s': "s' = upd_lk l (\<lambda>k. k\<lparr>lk_pcs := (lk_pcs k)[0 := 0], lk_cpu := None\<rparr>) s" and hl: "l \<in> h c"
    using drop(2) ok(3) by (auto simp: release_start_def holding_def split: if_splits)
  have u: "l \<notin> h d" if "d \<noteq> c" for d using ok(2) [of c l d] hl that by (auto simp: owns_def)
  have card: "int (card (h c - {l})) + 1 = int (card (h c))"
    using card_Suc_Diff1 [OF ok(5) hl] by simp
  show ?case
    unfolding spin_ok_def prod.case owns_drop [of ph c l h, OF drop(1) hl]
    using ok drop(1) hl u card by (auto simp: s' split: if_splits)
next
  case (store ph c l s h)
  note ok = spin_okD [OF store(2)]
  have nl: "l \<notin> h c" using ok(4) store(1) by blast
  have u: "\<forall>d. owns ph h d l \<longrightarrow> d = c" using ok(2) [of c l] store(1) by (auto simp: owns_def)
  show ?case
    unfolding spin_ok_def prod.case owns_store [of ph c l h, OF store(1) nl]
    using ok store(1) nl u by (auto simp: release_store_def split: if_splits)
next
  case (pop ph c s s' h)
  note ok = spin_okD [OF pop(3)] and s' = popcli_cases [OF pop(2)]
  have e: "\<forall>d. ncli (cps s' d) > 0 \<longrightarrow> \<not> c_if (cps s' d)" using ok(7) s'(3,4) by metis
  have "ncli (cps s' d) = int (card (h d)) + (if (ph(c := Running)) d = Running then 0 else 1)" for d
    by (cases "d = c") (simp_all add: ok(6) s'(2,3) pop(1))
  then have n: "\<forall>d. ncli (cps s' d) = int (card (h d)) + (if (ph(c := Running)) d = Running then 0 else 1)" by blast
  show ?case
    unfolding spin_ok_def prod.case owns_pop [of ph c, OF pop(1)]
    using ok(1-5) pop(1) s'(1) e n by auto
next
  case (sti ph c s h)
  then show ?case by (auto simp: spin_ok_def)
qed

lemma spin_reach_ok: "spin_reach x \<Longrightarrow> spin_ok x"
  by (induction rule: spin_reach.induct) (auto intro: spin_ok_boot spin_ok_step)

text \<open>
  C21. Mutual exclusion. In every interleaving of the CPUs' steps from the initial state, no two
  CPUs hold the same lock, interrupts are off on a CPU that holds one, \<open>acquire\<close> panics exactly when
  its CPU already holds the lock and \<open>release\<close> exactly when it does not, and the \<open>popcli\<close> that
  ends a \<open>release\<close> never panics.
\<close>

theorem spin_mutual_exclusion:
  assumes "spin_reach (s, ph, h)"
  shows "(l \<in> h c \<and> l \<in> h d \<longrightarrow> c = d)
       \<and> (l \<in> h c \<longrightarrow> \<not> c_if (cps s c))
       \<and> (acquire_start c l s = Panic ''acquire'' \<longleftrightarrow> l \<in> h c)
       \<and> (release_start c l s = Panic ''release'' \<longleftrightarrow> l \<notin> h c)
       \<and> (ph c = Popping \<longrightarrow> (\<exists>s'. popcli c s = Ok () s'))"
proof -
  note ok = spin_okD [OF spin_reach_ok [OF assms]]
  have hold: "holding c l s \<longleftrightarrow> l \<in> h c" using ok(1,3) by (auto simp: holding_def owns_def)
  have off: "l \<in> h c \<longrightarrow> \<not> c_if (cps s c)"
    using ok(5-7) [of c] card_gt_0_iff [of "h c"] by (auto split: if_splits)
  have pop: "ph c = Popping \<longrightarrow> (\<exists>s'. popcli c s = Ok () s')"
    using ok(6,7) [of c] by (auto simp: popcli_def Let_def)
  have "holding c l (pushcli c s) = holding c l s" by (simp add: holding_def)
  then show ?thesis
    using hold off pop ok(2) by (auto simp: acquire_start_def release_start_def owns_def Let_def)
qed

definition spin_boot :: spin_st where
  "spin_boot = \<lparr>lks = (\<lambda>_. initlock), cps = (\<lambda>_. \<lparr>ncli = 0, intena = False, c_if = True\<rparr>)\<rparr>"

lemma spin_demo:
  "\<exists>s ph h. spin_reach (s, ph, h) \<and> (5 :: nat) \<in> h 0 \<and> ph 1 = Spinning 5"
proof -
  let ?s1 = "pushcli 0 spin_boot"
  let ?s2 = "upd_lk 5 (\<lambda>k. k\<lparr>lk_locked := True\<rparr>) ?s1"
  let ?s3 = "acquire_done [] 0 5 ?s2"
  let ?R = "\<lambda>_ :: nat. Running"
  have "spin_reach (spin_boot, ?R, \<lambda>_. {})" by (rule spin_reach.boot) (simp_all add: spin_boot_def)
  moreover have "spin_step (spin_boot, ?R, \<lambda>_. {}) (?s1, ?R(0 := Spinning 5), \<lambda>_. {})"
    by (rule spin_step.start) (simp_all add: acquire_start_def holding_def spin_boot_def initlock_def)
  moreover have "spin_step (?s1, ?R(0 := Spinning 5), \<lambda>_. {}) (?s2, (?R(0 := Spinning 5))(0 := Taken 5), \<lambda>_. {})"
    by (rule spin_step.take) (simp_all add: acquire_xchg_def spin_boot_def initlock_def)
  moreover have "spin_step (?s2, (?R(0 := Spinning 5))(0 := Taken 5), \<lambda>_. {})
      (?s3, ((?R(0 := Spinning 5))(0 := Taken 5))(0 := Running), (\<lambda>_. {})(0 := insert 5 {}))"
    by (rule spin_step.own) simp
  moreover have "spin_step (?s3, ((?R(0 := Spinning 5))(0 := Taken 5))(0 := Running), (\<lambda>_. {})(0 := insert 5 {}))
      (pushcli 1 ?s3, (((?R(0 := Spinning 5))(0 := Taken 5))(0 := Running))(1 := Spinning 5), (\<lambda>_. {})(0 := insert 5 {}))"
    by (rule spin_step.start) (simp_all add: acquire_start_def holding_def acquire_done_def)
  ultimately have "spin_reach (pushcli 1 ?s3, (((?R(0 := Spinning 5))(0 := Taken 5))(0 := Running))(1 := Spinning 5), (\<lambda>_. {})(0 := insert 5 {}))"
    by (blast intro: spin_reach.step)
  then show ?thesis by (intro exI conjI) (assumption, simp_all)
qed

theorem spin_mutual_exclusion_witness:
  "\<exists>s ph h. spin_reach (s, ph, h) \<and> (5 :: nat) \<in> h 0 \<and> 5 \<notin> h 1 \<and> \<not> c_if (cps s 0)
     \<and> acquire_start 0 5 s = Panic ''acquire'' \<and> release_start 1 5 s = Panic ''release''"
proof -
  obtain s ph h where r: "spin_reach (s, ph, h)" and h: "(5 :: nat) \<in> h 0" using spin_demo by blast
  have "(5 :: nat) \<notin> h 1" using spin_mutual_exclusion [OF r, of 5 0 1] h by auto
  then show ?thesis
    using r h spin_mutual_exclusion [OF r, of 5 0 0] spin_mutual_exclusion [OF r, of 5 1 1] by auto
qed

end
