(* ===== verification/Ide.thy ===== *)
theory Ide
  imports Bio
begin

section \<open>The disk driver with interrupts (ide.c)\<close>

text \<open>
  The driver the kernel is built with when the disk is not in memory. Requests wait on a singly
  linked queue through \<open>qnext\<close>; the head is the request the controller is working on. Writes to the
  controller's ports are a trace; what it returns (status bytes and sector data) is an argument.
  \<open>iderw\<close> is \<open>ide_rw\<close> here, because memide.c defines the same symbol.
\<close>

unbundle bit_operations_syntax

datatype ideop = Outb nat nat | Outsl "u8 list"

record ide_st = bio_st +
  idequeue :: "nat option"
  qnext :: "nat \<Rightarrow> nat option"
  havedisk1 :: bool
  ide_ops :: "ideop list"

definition SECTOR_SIZE :: nat where [simp]: "SECTOR_SIZE = 512"
definition IDE_BSY :: u8 where [simp]: "IDE_BSY = 0x80"
definition IDE_DRDY :: u8 where [simp]: "IDE_DRDY = 0x40"
definition IDE_DF :: u8 where [simp]: "IDE_DF = 0x20"
definition IDE_ERR :: u8 where [simp]: "IDE_ERR = 0x01"
definition IDE_CMD_READ :: nat where [simp]: "IDE_CMD_READ = 0x20"
definition IDE_CMD_WRITE :: nat where [simp]: "IDE_CMD_WRITE = 0x30"
definition IDE_CMD_RDMUL :: nat where [simp]: "IDE_CMD_RDMUL = 0xC4"
definition IDE_CMD_WRMUL :: nat where [simp]: "IDE_CMD_WRMUL = 0xC5"

text \<open>\<open>sts\<close>: the successive values of the status port. None: the disk never becomes ready.\<close>

definition idewait :: "bool \<Rightarrow> u8 list \<Rightarrow> int option" where
  "idewait checkerr sts =
     map_option (\<lambda>r. if checkerr \<and> r AND (IDE_DF OR IDE_ERR) \<noteq> 0 then -1 else 0)
       (find (\<lambda>r. r AND (IDE_BSY OR IDE_DRDY) = IDE_DRDY) sts)"

definition ideinit :: "u8 list \<Rightarrow> u8 list \<Rightarrow> 'z ide_st_scheme \<Rightarrow> (unit, 'z ide_st_scheme) result" where
  "ideinit sts probe s =
     (if idewait False sts = None then Stuck
      else Ok () (s\<lparr>havedisk1 := havedisk1 s \<or> (\<exists>r\<in>set (take 1000 probe). r \<noteq> 0),
                    ide_ops := ide_ops s @ [Outb 0x1F6 0xF0, Outb 0x1F6 0xE0]\<rparr>))"

definition outs :: "ideop list \<Rightarrow> 'z ide_st_scheme \<Rightarrow> 'z ide_st_scheme" where
  "outs xs s = s\<lparr>ide_ops := ide_ops s @ xs\<rparr>"

text \<open>The port writes that start the request for buffer \<open>bf\<close>.\<close>

definition start_ops :: "buf \<Rightarrow> ideop list" where
  "start_ops bf =
     (let spb = BSIZE div SECTOR_SIZE; sector = b_blockno bf * spb;
          read_cmd = (if spb = 1 then IDE_CMD_READ else IDE_CMD_RDMUL);
          write_cmd = (if spb = 1 then IDE_CMD_WRITE else IDE_CMD_WRMUL) in
      [Outb 0x3F6 0, Outb 0x1F2 spb, Outb 0x1F3 (sector mod 256), Outb 0x1F4 (sector div 256 mod 256),
       Outb 0x1F5 (sector div 65536 mod 256), Outb 0x1F6 (0xE0 + 16 * (b_dev bf mod 2) + sector div 16777216 mod 16)] @
      (if b_dirty bf then [Outb 0x1F7 write_cmd, Outsl (b_data bf)] else [Outb 0x1F7 read_cmd]))"

definition idestart :: "u8 list \<Rightarrow> nat \<Rightarrow> 'z ide_st_scheme \<Rightarrow> (unit, 'z ide_st_scheme) result" where
  "idestart sts b s =
     (if b_blockno (bufs s b) \<ge> FSSIZE then Panic ''incorrect blockno''
      else if BSIZE div SECTOR_SIZE > 7 then Panic ''idestart''
      else if idewait False sts = None then Stuck
      else Ok () (outs (start_ops (bufs s b)) s))"

text \<open>
  The interrupt for the request at the head: \<open>rsts\<close> are the status values of the wait before the
  data is read, \<open>data\<close> the sector, \<open>sts\<close> the status values of the wait before the next request.
\<close>

definition ideintr :: "u8 list \<Rightarrow> u8 list \<Rightarrow> u8 list \<Rightarrow> 'z ide_st_scheme \<Rightarrow> (unit, 'z ide_st_scheme) result" where
  "ideintr rsts data sts s =
     (case idequeue s of
        None \<Rightarrow> Ok () s
      | Some b \<Rightarrow>
          (let s = s\<lparr>idequeue := qnext s b\<rparr> in
           bindR (if \<not> b_dirty (bufs s b)
                  then (case idewait True rsts of
                          None \<Rightarrow> Stuck
                        | Some r \<Rightarrow> Ok () (if r \<ge> 0 then upd_buf b (\<lambda>x. x\<lparr>b_data := data\<rparr>) s else s))
                  else Ok () s) (\<lambda>_ s.
           let s = wakeup (BufChan b) (upd_buf b (\<lambda>x. x\<lparr>b_valid := True, b_dirty := False\<rparr>) s) in
           case idequeue s of
             None \<Rightarrow> Ok () s
           | Some c \<Rightarrow> idestart sts c s)))"

text \<open>The walk to the last request; one unit of fuel per buffer.\<close>

fun qlast :: "nat \<Rightarrow> (nat \<Rightarrow> nat option) \<Rightarrow> nat \<Rightarrow> nat option" where
  "qlast 0 nx b = None"
| "qlast (Suc k) nx b = (case nx b of None \<Rightarrow> Some b | Some c \<Rightarrow> qlast k nx c)"

definition ide_append :: "nat \<Rightarrow> 'z ide_st_scheme \<Rightarrow> (unit, 'z ide_st_scheme) result" where
  "ide_append b s =
     (let s = s\<lparr>qnext := (qnext s)(b := None)\<rparr> in
      case idequeue s of
        None \<Rightarrow> Ok () (s\<lparr>idequeue := Some b\<rparr>)
      | Some h \<Rightarrow>
          (case qlast (Suc NBUF) (qnext s) h of
             None \<Rightarrow> Stuck
           | Some t \<Rightarrow> Ok () (s\<lparr>qnext := (qnext s)(t := Some b)\<rparr>)))"

text \<open>The wait for the request to finish; a woken caller tests again.\<close>

definition ide_wait_done :: "nat \<Rightarrow> 'z ide_st_scheme \<Rightarrow> (unit, 'z ide_st_scheme) result" where
  "ide_wait_done b s =
     (if b_valid (bufs s b) \<and> \<not> b_dirty (bufs s b) then Ok () s else sleep (BufChan b) s)"

definition ide_rw :: "u8 list \<Rightarrow> nat \<Rightarrow> 'z ide_st_scheme \<Rightarrow> (unit, 'z ide_st_scheme) result" where
  "ide_rw sts b s =
     (let bf = bufs s b in
      if \<not> holdingsleep (\<lambda>s. b_lock (bufs s b)) s then Panic ''iderw: buf not locked''
      else if b_valid bf \<and> \<not> b_dirty bf then Panic ''iderw: nothing to do''
      else if b_dev bf \<noteq> 0 \<and> \<not> havedisk1 s then Panic ''iderw: ide disk 1 not present''
      else bindR (ide_append b s) (\<lambda>_ s.
           bindR (if idequeue s = Some b then idestart sts b s else Ok () s) (\<lambda>_ s.
           ide_wait_done b s)))"

subsection \<open>The queue is first in, first out\<close>

text \<open>The queue as a list: the buffers met from the head along \<open>qnext\<close>.\<close>

fun qpath :: "(nat \<Rightarrow> nat option) \<Rightarrow> nat option \<Rightarrow> nat list \<Rightarrow> bool" where
  "qpath nx h [] \<longleftrightarrow> h = None"
| "qpath nx h (b # bs) \<longleftrightarrow> h = Some b \<and> qpath nx (nx b) bs"

definition ide_ok :: "nat list \<Rightarrow> 'z ide_st_scheme \<Rightarrow> bool" where
  "ide_ok q s \<longleftrightarrow> qpath (qnext s) (idequeue s) q \<and> distinct q \<and> (\<forall>b\<in>set q. b < NBUF)"

lemma qpath_upd_other: "b \<notin> set q \<Longrightarrow> qpath (nx(b := v)) h q = qpath nx h q"
  by (induction q arbitrary: h) auto

lemma qlast_path:
  "qpath nx (Some h) q \<Longrightarrow> length q \<le> k \<Longrightarrow> qlast k nx h = Some (last q)"
proof (induction q arbitrary: h k)
  case (Cons b q)
  then obtain k' where k: "k = Suc k'" by (cases k) auto
  show ?case
  proof (cases q)
    case Nil
    then show ?thesis using Cons.prems k by simp
  next
    case (Cons c r)
    then have nb: "nx h = Some c" and p: "qpath nx (Some c) q" using Cons.prems by auto
    have "qlast k' nx c = Some (last q)" using Cons.IH [OF p, of k'] Cons.prems(2) k by simp
    then show ?thesis using k nb Cons by simp
  qed
qed simp

lemma qpath_snoc:
  "qpath nx h q \<Longrightarrow> q \<noteq> [] \<Longrightarrow> distinct q \<Longrightarrow> b \<notin> set q \<Longrightarrow> nx b = None \<Longrightarrow>
   qpath (nx(last q := Some b)) h (q @ [b])"
proof (induction q arbitrary: h)
  case (Cons a q)
  show ?case
  proof (cases q)
    case Nil
    then show ?thesis using Cons.prems by auto
  next
    case (Cons c r)
    then have "a \<noteq> last q" using Cons.prems(3) last_in_set by fastforce
    then show ?thesis using Cons.IH [of "nx a"] Cons.prems Cons by auto
  qed
qed simp

lemma length_queue: "distinct (q :: nat list) \<Longrightarrow> \<forall>b\<in>set q. b < 30 \<Longrightarrow> length q \<le> 30"
  using card_mono [of "{..<30::nat}" "set q"] by (fastforce simp: distinct_card)

lemma ide_append_ok:
  assumes ok: "ide_ok q s" and b: "b \<notin> set q" "b < NBUF"
  obtains t where "ide_append b s = Ok () t" "ide_ok (q @ [b]) t" "bufs t = bufs s" "ptable t = ptable s"
    "curproc t = curproc s" "ide_ops t = ide_ops s" "idequeue t = Some (hd (q @ [b]))" "havedisk1 t = havedisk1 s"
proof (cases q)
  case Nil
  then have "idequeue s = None" using ok by (simp add: ide_ok_def)
  then show ?thesis using that Nil b by (simp add: ide_append_def ide_ok_def)
next
  case (Cons h r)
  let ?nx = "(qnext s)(b := None)"
  have h: "idequeue s = Some h" and p: "qpath ?nx (Some h) q" and d: "distinct q" "\<forall>b\<in>set q. b < 30"
    using ok Cons b by (auto simp: ide_ok_def qpath_upd_other)
  have "qlast (Suc NBUF) ?nx h = Some (last q)"
    using qlast_path [OF p, of "Suc NBUF"] length_queue [OF d] by simp
  moreover have "qpath (?nx(last q := Some b)) (Some h) (q @ [b])"
    by (rule qpath_snoc) (use p d b Cons in auto)
  ultimately show ?thesis
    using that [of "s\<lparr>qnext := ?nx(last q := Some b)\<rparr>"] h d b Cons by (simp add: ide_append_def ide_ok_def)
qed

lemma idestart_Ok:
  "b_blockno (bufs s b) < FSSIZE \<Longrightarrow> idewait False sts \<noteq> None \<Longrightarrow>
   idestart sts b s = Ok () (outs (start_ops (bufs s b)) s)"
  by (simp add: idestart_def)

text \<open>Every buffer locked and still to be read, and requests for buffers 4 and 7 waiting.\<close>

definition ide_demo :: ide_st where
  "ide_demo = (bio_st.extend bio_boot (ide_st.fields (Some 4) ((\<lambda>_. None)(4 := Some 7)) True []))
     \<lparr>bufs := (\<lambda>_. zero_buf\<lparr>b_lock := \<lparr>sl_locked = True, sl_pid = 1\<rparr>\<rparr>)\<rparr>"

lemma ide_demo_simps [simp]:
  "bufs ide_demo = (\<lambda>_. zero_buf\<lparr>b_lock := \<lparr>sl_locked = True, sl_pid = 1\<rparr>\<rparr>)" "curproc ide_demo = Some 0"
  "idequeue ide_demo = Some 4" "qnext ide_demo = (\<lambda>_. None)(4 := Some 7)" "havedisk1 ide_demo"
  by (simp_all add: ide_demo_def bio_st.defs ide_st.defs)

lemma ide_demo_ok: "ide_ok [4, 7] ide_demo"
  by (simp add: ide_ok_def)

lemma idewait_ready: "idewait False [0x80, 0x50] = Some 0" "idewait True [0xC0, 0x41] = Some (- 1)"
  by (simp_all add: idewait_def)

text \<open>
  C22. The driver serves requests in the order they were made. A new request goes to the end of the
  queue and its process sleeps; the controller is started for it exactly when the queue was empty.
\<close>

theorem ide_request_queued:
  assumes ok: "ide_ok q s" and b: "b \<notin> set q" "b < NBUF"
    and lock: "sl_locked (b_lock (bufs s b))" and todo: "\<not> b_valid (bufs s b) \<or> b_dirty (bufs s b)"
    and dev: "b_dev (bufs s b) = 0 \<or> havedisk1 s" and blk: "b_blockno (bufs s b) < FSSIZE"
    and rdy: "idewait False sts \<noteq> None" and cur: "curproc s = Some p"
  shows "\<exists>t. ide_rw sts b s = Sleeps (BufChan b) t \<and> ide_ok (q @ [b]) t \<and> bufs t = bufs s
       \<and> ide_ops t = ide_ops s @ (if q = [] then start_ops (bufs s b) else [])
       \<and> p_state (ptable t p) = SLEEPING \<and> p_chan (ptable t p) = Some (BufChan b)"
proof -
  obtain u where u: "ide_append b s = Ok () u" "ide_ok (q @ [b]) u" "bufs u = bufs s" "ptable u = ptable s"
      "curproc u = curproc s" "ide_ops u = ide_ops s" "idequeue u = Some (hd (q @ [b]))"
    using ide_append_ok [OF ok b] by metis
  define v where "v = outs (if q = [] then start_ops (bufs s b) else []) u"
  have hd: "idequeue u = Some b \<longleftrightarrow> q = []" using u(7) b(1) by (cases q) auto
  have "(if idequeue u = Some b then idestart sts b u else Ok () u) = Ok () v"
    using idestart_Ok [of u b sts] blk rdy u(3) hd by (simp add: v_def outs_def)
  then have "ide_rw sts b s = ide_wait_done b v"
    using lock todo dev u(1) by (auto simp: ide_rw_def holdingsleep_def)
  also have "\<dots> = Sleeps (BufChan b) (upd_proc p (\<lambda>q. q\<lparr>p_chan := Some (BufChan b), p_state := SLEEPING\<rparr>) v)"
    using todo cur u(3,5) by (auto simp: ide_wait_done_def sleep_def v_def outs_def)
  finally show ?thesis
    using u by (auto simp: v_def outs_def ide_ok_def upd_proc_def)
qed

theorem ide_request_queued_witness:
  "\<exists>t. ide_rw [0x80, 0x50] 2 ide_demo = Sleeps (BufChan 2) t \<and> ide_ok ([4, 7] @ [2]) t
     \<and> ide_ops t = ide_ops ide_demo \<and> p_state (ptable t 0) = SLEEPING"
  using ide_request_queued [OF ide_demo_ok, of 2 "[0x80, 0x50]" 0]
  by (fastforce simp: idewait_ready zero_buf_def)

text \<open>
  C23. An interrupt finishes exactly the oldest request: its buffer becomes valid and clean, its
  sleeping process runnable, the next request is started, and no other buffer changes. The buffer
  is marked valid also when the controller reported an error and no data was read.
\<close>

theorem ide_interrupt_serves_oldest:
  assumes ok: "ide_ok (b # q) s" and blk: "\<forall>c\<in>set q. b_blockno (bufs s c) < FSSIZE"
    and rsts: "idewait True rsts = Some r" and rdy: "idewait False sts \<noteq> None"
  shows "\<exists>t. ideintr rsts data sts s = Ok () t \<and> ide_ok q t
       \<and> b_valid (bufs t b) \<and> \<not> b_dirty (bufs t b)
       \<and> b_data (bufs t b) = (if b_dirty (bufs s b) \<or> r < 0 then b_data (bufs s b) else data)
       \<and> (\<forall>c. c \<noteq> b \<longrightarrow> bufs t c = bufs s c)
       \<and> ide_ops t = ide_ops s @ (case q of [] \<Rightarrow> [] | c # _ \<Rightarrow> start_ops (bufs s c))
       \<and> (\<forall>i<NPROC. p_state (ptable s i) = SLEEPING \<and> p_chan (ptable s i) = Some (BufChan b)
              \<longrightarrow> p_state (ptable t i) = RUNNABLE)"
proof -
  have h: "idequeue s = Some b" and p: "qpath (qnext s) (qnext s b) q" and d: "distinct (b # q)" "\<forall>c\<in>set q. c < 30"
    using ok by (auto simp: ide_ok_def)
  define f :: "buf \<Rightarrow> buf" where "f x = x\<lparr>b_data := (if b_dirty x \<or> r < 0 then b_data x else data), b_valid := True, b_dirty := False\<rparr>" for x
  define u where "u = wakeup (BufChan b) (upd_buf b f (s\<lparr>idequeue := qnext s b\<rparr>))"
  have f: "b_dirty (bufs s b) \<Longrightarrow> f (bufs s b) = bufs s b\<lparr>b_valid := True, b_dirty := False\<rparr>"
    "r < 0 \<Longrightarrow> f (bufs s b) = bufs s b\<lparr>b_valid := True, b_dirty := False\<rparr>"
    "\<not> b_dirty (bufs s b) \<Longrightarrow> \<not> r < 0 \<Longrightarrow> f (bufs s b) = bufs s b\<lparr>b_data := data, b_valid := True, b_dirty := False\<rparr>"
    by (simp_all add: f_def)
  have run: "ideintr rsts data sts s = (case idequeue u of None \<Rightarrow> Ok () u | Some c \<Rightarrow> idestart sts c u)"
  proof (cases "b_dirty (bufs s b)")
    case True
    then show ?thesis using h f(1) by (simp add: ideintr_def u_def upd_buf_def Let_def cong: option.case_cong)
  next
    case False
    then show ?thesis using h rsts f(2,3) by (cases "r < 0") (simp_all add: ideintr_def u_def upd_buf_def Let_def cong: option.case_cong)
  qed
  have uq: "idequeue u = qnext s b" "qnext u = qnext s" "ide_ops u = ide_ops s" "bufs u = (bufs s)(b := f (bufs s b))"
    by (simp_all add: u_def upd_buf_def wakeup_def wakeup1_def)
  have pt: "ptable u i = (if i < NPROC \<and> p_state (ptable s i) = SLEEPING \<and> p_chan (ptable s i) = Some (BufChan b)
      then (ptable s i)\<lparr>p_state := RUNNABLE\<rparr> else ptable s i)" for i
    by (simp add: u_def upd_buf_def ptable_wakeup)
  define t where "t = outs (case q of [] \<Rightarrow> [] | c # _ \<Rightarrow> start_ops (bufs s c)) u"
  have "ideintr rsts data sts s = Ok () t"
  proof (cases q)
    case Nil
    then show ?thesis using run p uq by (simp add: t_def outs_def)
  next
    case (Cons c r')
    then have "idequeue u = Some c" "bufs u c = bufs s c" using p uq d by auto
    then show ?thesis using run idestart_Ok [of u c sts] blk rdy Cons by (simp add: t_def)
  qed
  moreover have "ide_ok q t" using p d uq by (simp add: ide_ok_def t_def outs_def)
  ultimately show ?thesis using uq pt by (auto simp: t_def outs_def f_def)
qed

theorem ide_interrupt_serves_oldest_witness:
  "\<exists>t. ideintr [0xC0, 0x41] [1, 2, 3] [0x80, 0x50] ide_demo = Ok () t \<and> ide_ok [7] t
     \<and> b_valid (bufs t 4) \<and> b_data (bufs t 4) = b_data (bufs ide_demo 4)"
  using ide_interrupt_serves_oldest [OF ide_demo_ok, of "[0xC0, 0x41]" "- 1" "[0x80, 0x50]" "[1, 2, 3]"]
  by (fastforce simp: idewait_ready zero_buf_def)

end
