(* ===== verification/Ulib.thy ===== *)
theory Ulib
  imports Console
begin

section \<open>The user library (ulib.c, printf.c, user.h)\<close>

text \<open>
  A user program is the tree of the system calls it makes: a node is a call with the program
  that continues from the kernel's reply, and a leaf is \<open>exit\<close>. Control that depends on replies is
  ordinary HOL control flow. \<open>Undef\<close> marks a point the model does not continue from: the fuel of an
  unbounded loop is used up, or the C program has no defined behaviour there. A C string is the
  list of its bytes before the terminating zero.
\<close>

subsection \<open>System calls as a user program sees them (user.h)\<close>

datatype ucall =
    UFork
  | UWait
  | UPipe
  | UWrite int "u8 list"
  | URead int nat
  | UClose int
  | UKill int
  | UExec "u8 list" "u8 list list"
  | UOpen "u8 list" u32
  | UMknod "u8 list" int int
  | UUnlink "u8 list"
  | UFstat int
  | ULink "u8 list" "u8 list"
  | UMkdir "u8 list"
  | UChdir "u8 list"
  | UDup int
  | USbrk u64
  | USleep int

text \<open>What a call gives back: its value, and what it stored through its pointer argument.\<close>

record reply =
  r_val :: int
  r_bytes :: "u8 list"
  r_fds :: "int \<times> int"
  r_stat :: stat

datatype uprog =
    Exit
  | Call ucall "reply \<Rightarrow> uprog"
  | Undef

text \<open>A call whose stored data is not used.\<close>

definition sys :: "ucall \<Rightarrow> (int \<Rightarrow> uprog) \<Rightarrow> uprog" where
  "sys c k = Call c (\<lambda>r. k (r_val r))"

text \<open>
  The calls a program makes against given replies, with what is left of it: the system seen from
  the program is the list of replies.
\<close>

fun run :: "uprog \<Rightarrow> reply list \<Rightarrow> ucall list \<times> uprog" where
  "run (Call c k) (r # rs) = (let (cs, p) = run (k r) rs in (c # cs, p))"
| "run p _ = ([], p)"

text \<open>The bytes a list of calls writes to a descriptor.\<close>

fun written_to :: "int \<Rightarrow> ucall list \<Rightarrow> u8 list" where
  "written_to fd [] = []"
| "written_to fd (UWrite d bs # cs) = (if d = fd then bs @ written_to fd cs else written_to fd cs)"
| "written_to fd (_ # cs) = written_to fd cs"

subsection \<open>Strings\<close>

fun strchr :: "u8 list \<Rightarrow> u8 \<Rightarrow> nat option" where
  "strchr [] c = None"
| "strchr (x # s) c = (if x = 0 then None else if x = c then Some 0 else map_option Suc (strchr s c))"

fun strcmp :: "u8 list \<Rightarrow> u8 list \<Rightarrow> int" where
  "strcmp (p # ps) (q # qs) = (if p \<noteq> 0 \<and> p = q then strcmp ps qs else uint p - uint q)"
| "strcmp (p # ps) [] = uint p"
| "strcmp [] (q # qs) = - uint q"
| "strcmp [] [] = 0"

text \<open>\<open>atoi\<close> computes in a signed 32-bit integer, whose overflow has no defined result.\<close>

fun atoi_loop :: "int \<Rightarrow> u8 list \<Rightarrow> int option" where
  "atoi_loop n [] = Some n"
| "atoi_loop n (c # s) =
     (if 48 \<le> c \<and> c \<le> 57
      then if n * 10 + uint c < 2 ^ 31 then atoi_loop (n * 10 + uint c - 48) s else None
      else Some n)"

definition atoi :: "u8 list \<Rightarrow> int option" where
  "atoi s = atoi_loop 0 s"

lemma strchr_iff: "0 \<notin> set s \<Longrightarrow> (strchr s c \<noteq> None) = (c \<in> set s)"
  by (induction s) auto

lemma strchr_Some: "0 \<notin> set s \<Longrightarrow> strchr s c = Some i \<Longrightarrow> i < length s \<and> s ! i = c \<and> c \<notin> set (take i s)"
  by (induction s arbitrary: i) (auto split: if_splits)

lemma strcmp_eq_0: "0 \<notin> set p \<Longrightarrow> 0 \<notin> set q \<Longrightarrow> strcmp p q = 0 \<longleftrightarrow> p = q"
proof (induction p q rule: strcmp.induct)
  case (1 p ps q qs)
  then show ?case by (auto simp: word_uint_eq_iff)
qed (auto simp: word_uint_eq_iff)

lemma unat_of_nat_8: "n < 256 \<Longrightarrow> unat (of_nat n :: u8) = n"
  by (simp add: unat_of_nat)

lemma digits_dec: "k < 10 \<Longrightarrow> digits ! k = of_nat (48 + k)"
proof -
  assume "k < 10"
  then have "k = 0 \<or> k = 1 \<or> k = 2 \<or> k = 3 \<or> k = 4 \<or> k = 5 \<or> k = 6 \<or> k = 7 \<or> k = 8 \<or> k = 9" by arith
  then show ?thesis by (elim disjE) (simp_all add: digits_def cstr_def)
qed

lemma atoi_loop_digit:
  assumes "k < 10" and "n * 10 + 58 \<le> 2 ^ 31"
  shows "atoi_loop n (digits ! k # s) = atoi_loop (n * 10 + int k) s"
proof -
  from assms(1) have u: "uint (of_nat (48 + k) :: u8) = 48 + int k"
    by (simp only: uint_nat unat_of_nat_8 [of "48 + k"])
  then have "(48 :: u8) \<le> of_nat (48 + k)" "of_nat (48 + k) \<le> (57 :: u8)"
    using assms(1) by (simp_all add: word_le_def)
  then show ?thesis using assms u by (simp add: digits_dec)
qed

subsection \<open>Formatted output (printf.c)\<close>

definition putc :: "int \<Rightarrow> u8 \<Rightarrow> uprog \<Rightarrow> uprog" where
  "putc fd c k = sys (UWrite fd [c]) (\<lambda>_. k)"

fun puts :: "int \<Rightarrow> u8 list \<Rightarrow> uprog \<Rightarrow> uprog" where
  "puts fd [] k = k"
| "puts fd (c # cs) k = putc fd c (puts fd cs k)"

text \<open>
  The characters \<open>printf\<close> puts. The number printers are the same code as the console's; the
  conversion \<open>%c\<close> is only here.
\<close>

fun printf_out :: "u8 list \<Rightarrow> carg list \<Rightarrow> u8 list option" where
  "printf_out [] as = Some []"
| "printf_out (c # fmt) as =
     (if c \<noteq> 37 then map_option (\<lambda>r. c # r) (printf_out fmt as)
      else case fmt of
        [] \<Rightarrow> Some []
      | d # fmt' \<Rightarrow>
          if d = 99 then (case as of CWord w # as' \<Rightarrow> map_option (\<lambda>r. ucast w # r) (printf_out fmt' as') | _ \<Rightarrow> None)
          else if d = 100 then (case as of CWord w # as' \<Rightarrow> map_option ((@) (print_d (sint (ucast w :: u32)))) (printf_out fmt' as') | _ \<Rightarrow> None)
          else if d = 120 then (case as of CWord w # as' \<Rightarrow> map_option ((@) (print_x32 (ucast w))) (printf_out fmt' as') | _ \<Rightarrow> None)
          else if d = 112 then (case as of CWord w # as' \<Rightarrow> map_option ((@) (print_x64 w)) (printf_out fmt' as') | _ \<Rightarrow> None)
          else if d = 115 then (case as of CStr t # as' \<Rightarrow>
              map_option ((@) (case t of None \<Rightarrow> cstr ''(null)'' | Some x \<Rightarrow> x)) (printf_out fmt' as') | _ \<Rightarrow> None)
          else if d = 37 then map_option (\<lambda>r. 37 # r) (printf_out fmt' as)
          else map_option (\<lambda>r. 37 # d # r) (printf_out fmt' as))"

definition printf :: "int \<Rightarrow> u8 list \<Rightarrow> carg list \<Rightarrow> uprog \<Rightarrow> uprog" where
  "printf fd fmt as k = (case printf_out fmt as of None \<Rightarrow> Undef | Some out \<Rightarrow> puts fd out k)"

text \<open>A format or text that ends in a newline, and arguments.\<close>

definition nl :: "string \<Rightarrow> u8 list" where
  "nl t = cstr t @ [10]"

definition str_arg :: "u8 list \<Rightarrow> carg" where
  "str_arg s = CStr (Some s)"

definition int_arg :: "int \<Rightarrow> carg" where
  "int_arg n = CWord (word_of_int n)"

lemma run_puts:
  "length out \<le> length rs \<Longrightarrow>
   run (puts fd out k) rs =
     (let (cs, p) = run k (drop (length out) rs) in (map (\<lambda>c. UWrite fd [c]) out @ cs, p))"
proof (induction out arbitrary: rs)
  case (Cons c out)
  then obtain r rs' where "rs = r # rs'" by (cases rs) auto
  with Cons show ?case by (simp add: putc_def sys_def split_beta Let_def)
qed (simp add: split_beta)

lemma written_to_append: "written_to fd (a @ b) = written_to fd a @ written_to fd b"
  by (induction fd a rule: written_to.induct) auto

lemma written_puts [simp]: "written_to fd (map (\<lambda>c. UWrite fd [c]) out) = out"
  by (induction out) auto

subsection \<open>Input and file status (ulib.c)\<close>

text \<open>\<open>gets\<close> with \<open>n\<close> places left before the terminator; the continuation gets the stored bytes.\<close>

fun gets_loop :: "nat \<Rightarrow> u8 list \<Rightarrow> (u8 list \<Rightarrow> uprog) \<Rightarrow> uprog" where
  "gets_loop 0 buf k = k (buf @ [0])"
| "gets_loop (Suc n) buf k =
     Call (URead 0 1) (\<lambda>r.
       if r_val r < 1 then k (buf @ [0])
       else case r_bytes r of
         [] \<Rightarrow> Undef
       | c # _ \<Rightarrow> if c = 10 \<or> c = 13 then k (buf @ [c, 0]) else gets_loop n (buf @ [c]) k)"

definition gets :: "nat \<Rightarrow> (u8 list \<Rightarrow> uprog) \<Rightarrow> uprog" where
  "gets nbuf k = gets_loop (nbuf - 1) [] k"

definition ulib_stat :: "u8 list \<Rightarrow> (int \<Rightarrow> stat \<Rightarrow> uprog) \<Rightarrow> stat \<Rightarrow> uprog" where
  "ulib_stat n k st0 =
     sys (UOpen n O_RDONLY) (\<lambda>fd.
       if fd < 0 then k (-1) st0
       else Call (UFstat fd) (\<lambda>r. sys (UClose fd) (\<lambda>_. k (r_val r) (if r_val r < 0 then st0 else r_stat r))))"

text \<open>A read of one byte, as the console and the pipes answer it.\<close>

definition byte_reply :: "u8 \<Rightarrow> reply \<Rightarrow> bool" where
  "byte_reply c r = (r_val r = 1 \<and> r_bytes r = [c])"

lemma gets_loop_line:
  assumes "list_all2 byte_reply (line @ [10]) rs" and "10 \<notin> set line" and "13 \<notin> set line"
    and "length line < n"
  shows "run (gets_loop n buf k) (rs @ rs') =
     (let (cs, p) = run (k (buf @ line @ [10, 0])) rs'
      in (replicate (Suc (length line)) (URead 0 1) @ cs, p))"
  using assms
proof (induction line arbitrary: n buf rs)
  case Nil
  then obtain r m where "rs = [r]" "byte_reply 10 r" "n = Suc m"
    by (cases n) (auto simp: list_all2_Cons1)
  then show ?case by (simp add: byte_reply_def split_beta Let_def)
next
  case (Cons c line)
  then obtain r rs1 m where "rs = r # rs1" "byte_reply c r" "n = Suc m" "list_all2 byte_reply (line @ [10]) rs1"
    by (cases n) (auto simp: list_all2_Cons1)
  moreover from this Cons.prems Cons.IH [of rs1 m "buf @ [c]"] have
    "run (gets_loop m (buf @ [c]) k) (rs1 @ rs') =
     (let (cs, p) = run (k (buf @ [c] @ line @ [10, 0])) rs'
      in (replicate (Suc (length line)) (URead 0 1) @ cs, p))" by simp
  ultimately show ?case using Cons.prems by (auto simp: byte_reply_def split_beta Let_def)
qed

end
