(* ===== verification/Shell.thy ===== *)
theory Shell
  imports Ulib
begin

section \<open>The shell (sh.c)\<close>

text \<open>
  The parser walks a command line by index: a token is the pair of the indices \<open>q\<close> and \<open>eq\<close> that
  \<open>gettoken\<close> stores, and a command refers to its words by such pairs until \<open>nulterminate\<close> writes
  the terminators into the line. The four parse functions call each other, so they carry
  fuel; \<open>parsecmd\<close> gives them four units per byte of the line, and the first theorem shows that
  they never use it up. Allocation of command nodes is assumed to succeed.
\<close>

subsection \<open>Commands\<close>

definition MAXARGS :: nat where [simp]: "MAXARGS = 10"

datatype cmd =
    ExecCmd "(nat \<times> nat) list"
  | RedirCmd cmd nat nat u32 int
  | PipeCmd cmd cmd
  | ListCmd cmd cmd
  | BackCmd cmd

definition execcmd :: cmd where [simp]: "execcmd = ExecCmd []"
definition redircmd :: "cmd \<Rightarrow> nat \<Rightarrow> nat \<Rightarrow> u32 \<Rightarrow> int \<Rightarrow> cmd" where
  [simp]: "redircmd subcmd file efile mode fd = RedirCmd subcmd file efile mode fd"
definition pipecmd :: "cmd \<Rightarrow> cmd \<Rightarrow> cmd" where [simp]: "pipecmd left right = PipeCmd left right"
definition listcmd :: "cmd \<Rightarrow> cmd \<Rightarrow> cmd" where [simp]: "listcmd left right = ListCmd left right"
definition backcmd :: "cmd \<Rightarrow> cmd" where [simp]: "backcmd subcmd = BackCmd subcmd"

text \<open>
  \<open>parseexec\<close> keeps a pointer to the \<open>execcmd\<close> it has allocated and stores arguments through it
  while redirections are wrapped around it: the store reaches the innermost command.
\<close>

fun push_arg :: "nat \<times> nat \<Rightarrow> cmd \<Rightarrow> cmd" where
  "push_arg t (ExecCmd as) = ExecCmd (as @ [t])"
| "push_arg t (RedirCmd c q e mode fd) = RedirCmd (push_arg t c) q e mode fd"
| "push_arg t c = c"

text \<open>
  \<open>Failed\<close> is a call of \<open>panic\<close> with its message; \<open>Leftover\<close> is the panic of \<open>parsecmd\<close>, which
  prints the rest of the line first.
\<close>

datatype 'a parse = Parsed 'a nat | Failed string | Leftover "u8 list" | NoFuel

fun bindP :: "'a parse \<Rightarrow> ('a \<Rightarrow> nat \<Rightarrow> 'b parse) \<Rightarrow> 'b parse" where
  "bindP (Parsed a s) k = k a s"
| "bindP (Failed m) k = Failed m"
| "bindP (Leftover r) k = Leftover r"
| "bindP NoFuel k = NoFuel"

subsection \<open>Tokens\<close>

definition whitespace :: "u8 list" where "whitespace = [32, 9, 13, 10, 11]"
definition symbols :: "u8 list" where "symbols = [60, 124, 62, 38, 59, 40, 41]"

text \<open>The byte at an index of the line; the line's end holds the terminator.\<close>

definition at :: "u8 list \<Rightarrow> nat \<Rightarrow> u8" where
  "at b s = (if s < length b then b ! s else 0)"

lemma at_nth: "s < length b \<Longrightarrow> at b s = b ! s"
  by (simp add: at_def)

function skip_ws :: "u8 list \<Rightarrow> nat \<Rightarrow> nat" where
  "skip_ws b s = (if s < length b \<and> strchr whitespace (at b s) \<noteq> None then skip_ws b (s + 1) else s)"
  by pat_completeness auto
termination by (relation "measure (\<lambda>(b, s). length b - s)") auto

function skip_word :: "u8 list \<Rightarrow> nat \<Rightarrow> nat" where
  "skip_word b s =
     (if s < length b \<and> strchr whitespace (at b s) = None \<and> strchr symbols (at b s) = None
      then skip_word b (s + 1) else s)"
  by pat_completeness auto
termination by (relation "measure (\<lambda>(b, s). length b - s)") auto

declare skip_ws.simps [simp del] skip_word.simps [simp del]

text \<open>\<open>gettoken\<close> gives the token's kind, its two indices and the index after the space behind it.\<close>

definition gettoken :: "u8 list \<Rightarrow> nat \<Rightarrow> u8 \<times> nat \<times> nat \<times> nat" where
  "gettoken b s =
     (let q = skip_ws b s;
          c = at b q;
          (ret, e) =
            (if c = 0 then (c, q)
             else if c \<in> {124, 40, 41, 59, 38, 60} then (c, q + 1)
             else if c = 62 then (if at b (q + 1) = 62 then (43, q + 2) else (c, q + 1))
             else (97, skip_word b q))
      in (ret, q, e, skip_ws b e))"

definition sh_peek :: "u8 list \<Rightarrow> nat \<Rightarrow> u8 list \<Rightarrow> nat \<times> bool" where
  "sh_peek b s toks = (let s = skip_ws b s in (s, at b s \<noteq> 0 \<and> strchr toks (at b s) \<noteq> None))"

text \<open>The bytes that end a word, and the words of a line: maximal runs of other bytes.\<close>

definition sep :: "u8 \<Rightarrow> bool" where
  "sep c = (c \<in> set whitespace \<or> c \<in> set symbols)"

definition token_ok :: "u8 list \<Rightarrow> nat \<times> nat \<Rightarrow> bool" where
  "token_ok b = (\<lambda>(q, e). q < e \<and> e \<le> length b \<and> (\<forall>i. q \<le> i \<and> i < e \<longrightarrow> \<not> sep (b ! i)) \<and>
     (e < length b \<longrightarrow> sep (b ! e)))"

lemma strchr_whitespace: "strchr whitespace c \<noteq> None \<longleftrightarrow> c \<in> set whitespace"
  by (rule strchr_iff) (simp add: whitespace_def)

lemma strchr_symbols: "strchr symbols c \<noteq> None \<longleftrightarrow> c \<in> set symbols"
  by (rule strchr_iff) (simp add: symbols_def)

lemma skip_ws_ge: "s \<le> skip_ws b s"
  by (induction b s rule: skip_ws.induct) (subst skip_ws.simps, auto)

lemma skip_ws_le: "s \<le> length b \<Longrightarrow> skip_ws b s \<le> length b"
  by (induction b s rule: skip_ws.induct) (subst skip_ws.simps, auto)

lemma skip_ws_stop: "skip_ws b s < length b \<Longrightarrow> at b (skip_ws b s) \<notin> set whitespace"
proof (induction b s rule: skip_ws.induct)
  case (1 b s)
  then show ?case
    using strchr_whitespace [of "at b s"] skip_ws.simps [of b s] by (auto split: if_splits)
qed

lemma skip_ws_idem [simp]: "skip_ws b (skip_ws b s) = skip_ws b s"
  using skip_ws_stop [of b s] strchr_whitespace [of "at b (skip_ws b s)"]
  by (subst skip_ws.simps) auto

lemma skip_word_token:
  assumes "s < length b" and "\<not> sep (b ! s)"
  shows "token_ok b (s, skip_word b s)"
proof -
  have "s \<le> skip_word b s \<and> skip_word b s \<le> length b \<and> (\<forall>i. s \<le> i \<and> i < skip_word b s \<longrightarrow> \<not> sep (b ! i)) \<and>
      (skip_word b s < length b \<longrightarrow> sep (b ! skip_word b s))" if "s \<le> length b" for s
    using that
  proof (induction b s rule: skip_word.induct)
    case (1 b s)
    note u = skip_word.simps [of b s]
    show ?case
    proof (cases "s < length b \<and> \<not> sep (b ! s)")
      case True
      then have g: "strchr whitespace (at b s) = None" "strchr symbols (at b s) = None"
        using strchr_whitespace [of "at b s"] strchr_symbols [of "at b s"] by (auto simp: sep_def at_def)
      with 1 True u have IH: "Suc s \<le> skip_word b s" "skip_word b s \<le> length b"
        "\<forall>i. Suc s \<le> i \<and> i < skip_word b s \<longrightarrow> \<not> sep (b ! i)"
        "skip_word b s < length b \<longrightarrow> sep (b ! skip_word b s)" by auto
      have "\<not> sep (b ! i)" if "s \<le> i" "i < skip_word b s" for i
        using IH(3) True that by (cases "i = s") auto
      with IH show ?thesis by auto
    next
      case False
      then have "\<not> (s < length b \<and> strchr whitespace (at b s) = None \<and> strchr symbols (at b s) = None)"
        using strchr_whitespace [of "at b s"] strchr_symbols [of "at b s"] by (auto simp: sep_def at_def)
      with u have "skip_word b s = s" by simp
      with False 1 show ?thesis by auto
    qed
  qed
  note this [OF less_imp_le [OF assms(1)]]
  moreover have "skip_word b s \<noteq> s" using assms(2) assms(1) calculation by auto
  ultimately show ?thesis by (auto simp: token_ok_def)
qed

lemma skip_word_ge: "s \<le> skip_word b s"
  by (induction b s rule: skip_word.induct) (subst skip_word.simps, auto)

lemma gettoken_mono: "gettoken b s = (t, q, e, s') \<Longrightarrow> s \<le> s'"
proof -
  assume g: "gettoken b s = (t, q, e, s')"
  define q0 where "q0 = skip_ws b s"
  have "q0 \<le> e" "s' = skip_ws b e"
    using g skip_word_ge [of q0 b] by (auto simp: gettoken_def Let_def q0_def [symmetric] split: if_splits)
  then show ?thesis using skip_ws_ge [of s b] skip_ws_ge [of e b] by (simp add: q0_def)
qed

lemma gettoken_shape:
  assumes "gettoken b s = (t, q, e, s')"
  shows "q = skip_ws b s \<and> s' = skip_ws b e \<and>
     (at b q \<noteq> 0 \<longrightarrow> (if at b q \<in> set symbols then t \<noteq> 97 \<and> q < e else t = 97 \<and> e = skip_word b q))"
proof -
  have q: "q = skip_ws b s" "s' = skip_ws b e" using assms by (auto simp: gettoken_def Let_def split_beta)
  show ?thesis
  proof (cases "at b q \<in> set symbols")
    case True
    then show ?thesis
      using assms q unfolding gettoken_def Let_def q(1) [symmetric] symbols_def
      by (auto split: if_splits)
  next
    case False
    then have "at b q \<notin> {124, 40, 41, 59, 38, 60}" "at b q \<noteq> 62" by (auto simp: symbols_def)
    then show ?thesis
      using assms q False unfolding gettoken_def Let_def q(1) [symmetric] by (cases "at b q = 0") simp_all
  qed
qed

lemma gettoken_ge: "gettoken b s = (t, q, e, s') \<Longrightarrow> 0 \<notin> set b \<Longrightarrow>
  s \<le> s' \<and> (t \<noteq> 0 \<longrightarrow> s < s' \<and> s < length b) \<and> (t = 97 \<longrightarrow> token_ok b (q, e))"
proof -
  assume g: "gettoken b s = (t, q, e, s')" and b: "0 \<notin> set b"
  have q: "s \<le> q" "q = skip_ws b s" using g skip_ws_ge [of s b] by (auto simp: gettoken_def Let_def split_beta)
  show ?thesis
  proof (cases "at b q = 0")
    case True
    with g q show ?thesis using skip_ws_ge [of q b] by (auto simp: gettoken_def Let_def)
  next
    case False
    then have lt: "q < length b" by (auto simp: at_def split: if_splits)
    have nw: "at b q \<notin> set whitespace" using skip_ws_stop [of b s] lt q by simp
    show ?thesis
    proof (cases "at b q \<in> set symbols")
      case True
      with gettoken_shape [OF g] q False skip_ws_ge [of e b] lt show ?thesis by auto
    next
      case nsym: False
      with gettoken_shape [OF g] q False have t: "t = 97" "e = skip_word b q" "s' = skip_ws b e" by auto
      have "token_ok b (q, e)"
        using skip_word_token [OF lt] nw nsym lt t by (auto simp: sep_def at_def)
      with t skip_ws_ge [of e b] q lt show ?thesis by (auto simp: token_ok_def)
    qed
  qed
qed

lemma peek_ge: "sh_peek b s toks = (s', m) \<Longrightarrow> s \<le> s' \<and> (m \<longrightarrow> s' < length b \<and> at b s' \<noteq> 0)"
  using skip_ws_ge [of s b] by (auto simp: sh_peek_def Let_def at_def split: if_splits)

lemma peek_again: "sh_peek b s toks = (s', m) \<Longrightarrow> sh_peek b s' toks = (s', m)"
  unfolding sh_peek_def Let_def by (elim Pair_inject, hypsubst) simp

text \<open>A token taken where \<open>peek\<close> has seen one advances.\<close>

lemma gettoken_after_peek:
  assumes "sh_peek b s toks = (s1, True)" and "gettoken b s1 = (t, q, e, s2)"
  shows "s < length b" "s1 < s2"
proof -
  have s1: "s \<le> s1" "s1 < length b" "at b s1 \<noteq> 0" "s1 = skip_ws b s"
    using assms(1) peek_ge [OF assms(1)] by (auto simp: sh_peek_def Let_def)
  then show "s < length b" by simp
  from s1 have w: "skip_ws b s1 = s1" by simp
  have nw: "at b s1 \<notin> set whitespace" using skip_ws_stop [of b s] s1(2,4) by simp
  have "s1 < skip_word b s1" if "at b s1 \<notin> set symbols"
  proof -
    have "\<not> sep (b ! s1)" using that nw at_nth [OF s1(2)] by (simp add: sep_def)
    from skip_word_token [OF s1(2) this] show ?thesis by (auto simp: token_ok_def)
  qed
  then have "s1 < e" "s2 = skip_ws b e"
    using gettoken_shape [OF assms(2)] s1(3) w by (auto split: if_splits)
  then show "s1 < s2" using skip_ws_ge [of e b] by simp
qed

subsection \<open>The parser\<close>

function parseredirs :: "u8 list \<Rightarrow> cmd \<Rightarrow> nat \<Rightarrow> cmd parse" where
  "parseredirs b c s =
     (case sh_peek b s [60, 62] of (s1, m) \<Rightarrow>
        if m
        then case gettoken b s1 of (tok, _, _, s2) \<Rightarrow>
             case gettoken b s2 of (t, q, e, s3) \<Rightarrow>
               if t \<noteq> 97 then Failed ''missing file for redirection''
               else parseredirs b
                 (if tok = 60 then redircmd c q e O_RDONLY 0
                  else if tok = 62 then redircmd c q e (O_WRONLY OR O_CREATE) 1
                  else if tok = 43 then redircmd c q e (O_WRONLY OR O_CREATE) 1
                  else c) s3
        else Parsed c s1)"
  by pat_completeness auto
termination
proof (relation "measure (\<lambda>(b, c, s). length b - s)")
  fix b c s s1 m tok x1 x2 s2 t y1 q z1 e s3 u1 u2 u3
  assume p: "(s1, m) = sh_peek b s [60, 62]" and m: m
    and g1: "(tok, x1) = gettoken b s1" and x: "(x2, u1) = x1" "(u2, s2) = u1"
    and g2: "(t, y1) = gettoken b s2" and y: "(q, z1) = y1" "(e, s3) = z1"
  have "s < length b" "s1 < s2" "s \<le> s1"
    using gettoken_after_peek [of b s "[60, 62]" s1 tok x2 u2 s2] peek_ge [of b s "[60, 62]" s1 m] p m g1 x by auto
  moreover have "s2 \<le> s3"
    using gettoken_mono [of b s2 t q e s3] g2 y by simp
  ultimately show "((b, (if tok = 60 then redircmd c q e O_RDONLY 0
       else if tok = 62 then redircmd c q e (O_WRONLY OR O_CREATE) 1
       else if tok = 43 then redircmd c q e (O_WRONLY OR O_CREATE) 1 else c), s3), b, c, s)
     \<in> measure (\<lambda>(b, c, s). length b - s)" by auto
qed simp

text \<open>The argument loop of \<open>parseexec\<close>, with \<open>argc\<close> arguments stored so far.\<close>

function parseargs :: "u8 list \<Rightarrow> cmd \<Rightarrow> nat \<Rightarrow> nat \<Rightarrow> cmd parse" where
  "parseargs b ret argc s =
     (case sh_peek b s [124, 41, 38, 59] of (s1, stop) \<Rightarrow>
        if stop then Parsed ret s1
        else case gettoken b s1 of (tok, q, e, s2) \<Rightarrow>
          if tok = 0 then Parsed ret s2
          else if tok \<noteq> 97 then Failed ''syntax''
          else if argc + 1 \<ge> MAXARGS then Failed ''too many args''
          else bindP (parseredirs b (push_arg (q, e) ret) s2) (\<lambda>ret s3. parseargs b ret (argc + 1) s3))"
  by pat_completeness auto
termination by (relation "measure (\<lambda>(b, ret, argc, s). MAXARGS - argc)") auto

text \<open>The loop of \<open>parseline\<close> over \<open>&\<close>.\<close>

function parseback :: "u8 list \<Rightarrow> cmd \<Rightarrow> nat \<Rightarrow> cmd parse" where
  "parseback b c s =
     (case sh_peek b s [38] of (s1, m) \<Rightarrow>
        if m then case gettoken b s1 of (_, _, _, s2) \<Rightarrow> parseback b (backcmd c) s2
        else Parsed c s1)"
  by pat_completeness auto
termination
proof (relation "measure (\<lambda>(b, c, s). length b - s)")
  fix b c s s1 m t x q y e s2
  assume "(s1, m) = sh_peek b s [38]" m "(t, x) = gettoken b s1" "(q, y) = x" "(e, s2) = y"
  then show "((b, backcmd c, s2), b, c, s) \<in> measure (\<lambda>(b, c, s). length b - s)"
    using gettoken_after_peek [of b s "[38]" s1 t q e s2] peek_ge [of b s "[38]" s1 m] by auto
qed simp

declare parseredirs.simps [simp del] parseargs.simps [simp del] parseback.simps [simp del]

fun parseline :: "nat \<Rightarrow> u8 list \<Rightarrow> nat \<Rightarrow> cmd parse"
  and parsepipe :: "nat \<Rightarrow> u8 list \<Rightarrow> nat \<Rightarrow> cmd parse"
  and parseexec :: "nat \<Rightarrow> u8 list \<Rightarrow> nat \<Rightarrow> cmd parse"
  and parseblock :: "nat \<Rightarrow> u8 list \<Rightarrow> nat \<Rightarrow> cmd parse" where
  "parseline 0 b s = NoFuel"
| "parseline (Suc k) b s =
     bindP (parsepipe k b s) (\<lambda>c s.
     bindP (parseback b c s) (\<lambda>c s.
       case sh_peek b s [59] of (s1, m) \<Rightarrow>
         if m then case gettoken b s1 of (_, _, _, s2) \<Rightarrow>
                bindP (parseline k b s2) (\<lambda>d s. Parsed (listcmd c d) s)
         else Parsed c s1))"
| "parsepipe 0 b s = NoFuel"
| "parsepipe (Suc k) b s =
     bindP (parseexec k b s) (\<lambda>c s.
       case sh_peek b s [124] of (s1, m) \<Rightarrow>
         if m then case gettoken b s1 of (_, _, _, s2) \<Rightarrow>
                bindP (parsepipe k b s2) (\<lambda>d s. Parsed (pipecmd c d) s)
         else Parsed c s1)"
| "parseexec 0 b s = NoFuel"
| "parseexec (Suc k) b s =
     (case sh_peek b s [40] of (s1, m) \<Rightarrow>
        if m then parseblock k b s1
        else bindP (parseredirs b execcmd s1) (\<lambda>ret s. parseargs b ret 0 s))"
| "parseblock 0 b s = NoFuel"
| "parseblock (Suc k) b s =
     (case sh_peek b s [40] of (s1, m) \<Rightarrow>
        if \<not> m then Failed ''parseblock''
        else case gettoken b s1 of (_, _, _, s2) \<Rightarrow>
          bindP (parseline k b s2) (\<lambda>c s.
            case sh_peek b s [41] of (s3, m) \<Rightarrow>
              if \<not> m then Failed ''syntax - missing )''
              else case gettoken b s3 of (_, _, _, s4) \<Rightarrow> parseredirs b c s4))"

text \<open>\<open>nulterminate\<close> on the line's bytes.\<close>

fun nulterminate :: "cmd \<Rightarrow> u8 list \<Rightarrow> u8 list" where
  "nulterminate (ExecCmd as) m = fold (\<lambda>(q, e) m. m[e := 0]) as m"
| "nulterminate (RedirCmd c q e mode fd) m = (nulterminate c m)[e := 0]"
| "nulterminate (PipeCmd l r) m = nulterminate r (nulterminate l m)"
| "nulterminate (ListCmd l r) m = nulterminate r (nulterminate l m)"
| "nulterminate (BackCmd c) m = nulterminate c m"

text \<open>
  \<open>parsecmd\<close> on a buffer that holds a line and its terminator: the command and the buffer
  with the words terminated. What is left of a line it cannot parse is printed before the panic.
\<close>

definition parsecmd :: "u8 list \<Rightarrow> (cmd \<times> u8 list) parse" where
  "parsecmd buf =
     (let b = takeWhile (\<lambda>c. c \<noteq> 0) buf in
      bindP (parseline (4 * length b + 4) b 0) (\<lambda>c s.
        case sh_peek b s [] of (s, _) \<Rightarrow>
          if s \<noteq> length b then Leftover (drop s b) else Parsed (c, nulterminate c buf) s))"

subsection \<open>The parser returns\<close>

definition past :: "nat \<Rightarrow> 'a parse \<Rightarrow> bool" where
  "past s p = (case p of Parsed c s' \<Rightarrow> s \<le> s' | _ \<Rightarrow> True)"

lemma past_simps [simp]:
  "past s (Parsed c s') \<longleftrightarrow> s \<le> s'" "past s (Failed m)" "past s (Leftover r)" "past s NoFuel"
  by (simp_all add: past_def)

lemma past_bind: "past s p \<Longrightarrow> (\<And>c t. p = Parsed c t \<Longrightarrow> s \<le> t \<Longrightarrow> past s (k c t)) \<Longrightarrow> past s (bindP p k)"
  by (cases p) auto

lemma past_le: "past t p \<Longrightarrow> s \<le> t \<Longrightarrow> past s p"
  by (cases p) auto

lemma past_parseredirs: "past s (parseredirs b c s)"
proof (induction b c s rule: parseredirs.induct)
  case (1 b c s)
  obtain s1 m where p: "sh_peek b s [60, 62] = (s1, m)" by fastforce
  obtain tok x y s2 where g: "gettoken b s1 = (tok, x, y, s2)" by (metis prod_cases4)
  obtain t q e s3 where h: "gettoken b s2 = (t, q, e, s3)" by (metis prod_cases4)
  have "s \<le> s1" "s1 \<le> s2" "s2 \<le> s3" using peek_ge [OF p] gettoken_mono [OF g] gettoken_mono [OF h] by auto
  then show ?case
    using 1 [OF p [symmetric] _ g [symmetric] refl refl h [symmetric] refl refl] past_le [of s3 _ s]
    by (subst parseredirs.simps) (auto simp: p g h)
qed

lemma past_parseargs: "past s (parseargs b c n s)"
proof (induction b c n s rule: parseargs.induct)
  case (1 b ret argc s)
  obtain s1 m where p: "sh_peek b s [124, 41, 38, 59] = (s1, m)" by fastforce
  obtain tok q e s2 where g: "gettoken b s1 = (tok, q, e, s2)" by (metis prod_cases4)
  have le: "s \<le> s1" "s1 \<le> s2" using peek_ge [OF p] gettoken_mono [OF g] by auto
  have "past s (bindP (parseredirs b (push_arg (q, e) ret) s2) (\<lambda>ret s3. parseargs b ret (argc + 1) s3))"
    if "\<not> m" "tok \<noteq> 0" "tok = 97" "\<not> MAXARGS \<le> argc + 1"
  proof (rule past_bind)
    show "past s (parseredirs b (push_arg (q, e) ret) s2)"
      using past_parseredirs le by (metis past_le order_trans)
    show "past s (parseargs b c (argc + 1) t)" if "s \<le> t" for c t
      using 1 [OF p [symmetric] \<open>\<not> m\<close> g [symmetric] refl refl] \<open>tok \<noteq> 0\<close> \<open>tok = 97\<close> \<open>\<not> MAXARGS \<le> argc + 1\<close> that
      by (auto intro: past_le)
  qed
  with le show ?case by (subst parseargs.simps) (auto simp: p g)
qed

lemma past_parseback: "past s (parseback b c s)"
proof (induction b c s rule: parseback.induct)
  case (1 b c s)
  obtain s1 m where p: "sh_peek b s [38] = (s1, m)" by fastforce
  obtain t q e s2 where g: "gettoken b s1 = (t, q, e, s2)" by (metis prod_cases4)
  have "s \<le> s1" "s1 \<le> s2" using peek_ge [OF p] gettoken_mono [OF g] by auto
  then show ?case
    using 1 [OF p [symmetric] _ g [symmetric] refl refl] past_le [of s2 _ s]
    by (subst parseback.simps) (auto simp: p g)
qed

text \<open>The index reached by the call of a mutually recursive function after \<open>peek\<close> and \<open>gettoken\<close>.\<close>

lemma peek_get_le:
  assumes "sh_peek b s toks = (s1, m)" and "gettoken b s1 = (t, q, e, s2)"
  shows "s \<le> s1" "s \<le> s2" "m \<Longrightarrow> s < length b \<and> s < s2"
  using peek_ge [OF assms(1)] gettoken_mono [OF assms(2)] gettoken_after_peek [of b s toks s1] assms
  by (auto dest: gettoken_after_peek(2) intro: le_less_trans)

text \<open>The tail of \<open>parseline\<close> and \<open>parsepipe\<close>: after an operator the function calls itself.\<close>

definition and_then :: "u8 list \<Rightarrow> u8 list \<Rightarrow> (nat \<Rightarrow> cmd parse) \<Rightarrow> (cmd \<Rightarrow> cmd) \<Rightarrow> cmd \<Rightarrow> nat \<Rightarrow> cmd parse" where
  "and_then b toks p f c s =
     (case sh_peek b s toks of (s1, m) \<Rightarrow>
        if m then case gettoken b s1 of (_, _, _, s2) \<Rightarrow> bindP (p s2) (\<lambda>d s. Parsed (f d) s)
        else Parsed c s1)"

lemma parse_unfold:
  "parseline (Suc k) b s =
     bindP (parsepipe k b s) (\<lambda>c s. bindP (parseback b c s) (\<lambda>c. and_then b [59] (parseline k b) (listcmd c) c))"
  "parsepipe (Suc k) b s =
     bindP (parseexec k b s) (\<lambda>c. and_then b [124] (parsepipe k b) (pipecmd c) c)"
  by (simp_all add: and_then_def [abs_def])

lemma past_and_then:
  assumes "\<forall>t. past t (p t)" and "s \<le> t"
  shows "past s (and_then b toks p f c t)"
proof -
  obtain s1 m where p: "sh_peek b t toks = (s1, m)" by fastforce
  obtain k q e s2 where g: "gettoken b s1 = (k, q, e, s2)" by (metis prod_cases4)
  have "past s (p s2)" using assms peek_get_le(2) [OF p g] by (auto intro: past_le)
  then show ?thesis
    using assms peek_get_le(1) [OF p g] by (auto simp: and_then_def p g intro!: past_bind)
qed

lemma past_parse:
  "(\<forall>s. past s (parseline k b s)) \<and> (\<forall>s. past s (parsepipe k b s)) \<and>
   (\<forall>s. past s (parseexec k b s)) \<and> (\<forall>s. past s (parseblock k b s))"
proof (induction k)
  case (Suc k)
  have line: "past s (parseline (Suc k) b s)" for s
    unfolding parse_unfold using Suc.IH
    by (auto intro!: past_bind past_and_then past_le [OF past_parseback])
  have pipe: "past s (parsepipe (Suc k) b s)" for s
    unfolding parse_unfold using Suc.IH by (auto intro!: past_bind past_and_then)
  have exec: "past s (parseexec (Suc k) b s)" for s
  proof -
    obtain s1 m where p: "sh_peek b s [40] = (s1, m)" by fastforce
    then have "s \<le> s1" using peek_ge by blast
    then have "past s (parseblock k b s1)" "past s (parseredirs b (ExecCmd []) s1)"
      using Suc.IH past_parseredirs by (auto intro: past_le)
    then show ?thesis by (auto simp: p intro!: past_bind past_le [OF past_parseargs])
  qed
  have block: "past s (parseblock (Suc k) b s)" for s
  proof -
    obtain s1 m where p: "sh_peek b s [40] = (s1, m)" by fastforce
    obtain t q e s2 where g: "gettoken b s1 = (t, q, e, s2)" by (metis prod_cases4)
    have "past s (case sh_peek b t [41] of (s3, m) \<Rightarrow>
              if \<not> m then Failed ''syntax - missing )''
              else case gettoken b s3 of (_, _, _, s4) \<Rightarrow> parseredirs b c s4)" if "s \<le> t" for c t
    proof -
      obtain s3 m' where p': "sh_peek b t [41] = (s3, m')" by fastforce
      obtain t' q' e' s4 where g': "gettoken b s3 = (t', q', e', s4)" by (metis prod_cases4)
      from peek_get_le(2) [OF p' g'] that show ?thesis
        by (auto simp: p' g' intro: past_le [OF past_parseredirs])
    qed
    moreover have "past s (parseline k b s2)" using Suc.IH peek_get_le(2) [OF p g] by (auto intro: past_le)
    ultimately show ?thesis by (auto simp: p g intro!: past_bind)
  qed
  from line pipe exec block show ?case by blast
qed simp

text \<open>Only the mutual recursion can use up fuel.\<close>

lemma bindP_NoFuel: "bindP p k = NoFuel \<longleftrightarrow> p = NoFuel \<or> (\<exists>c s. p = Parsed c s \<and> k c s = NoFuel)"
  by (cases p) auto

lemma parseredirs_fuel: "parseredirs b c s \<noteq> NoFuel"
proof (induction b c s rule: parseredirs.induct)
  case (1 b c s)
  obtain s1 m where p: "sh_peek b s [60, 62] = (s1, m)" by fastforce
  obtain tok x y s2 where g: "gettoken b s1 = (tok, x, y, s2)" by (metis prod_cases4)
  obtain t q e s3 where h: "gettoken b s2 = (t, q, e, s3)" by (metis prod_cases4)
  show ?case
    using 1 [OF p [symmetric] _ g [symmetric] refl refl h [symmetric] refl refl]
    by (subst parseredirs.simps) (auto simp: p g h)
qed

lemma parseargs_fuel: "parseargs b c n s \<noteq> NoFuel"
proof (induction b c n s rule: parseargs.induct)
  case (1 b c n s)
  obtain s1 m where p: "sh_peek b s [124, 41, 38, 59] = (s1, m)" by fastforce
  obtain tok q e s2 where g: "gettoken b s1 = (tok, q, e, s2)" by (metis prod_cases4)
  show ?case
    using 1 [OF p [symmetric] _ g [symmetric] refl refl]
    by (subst parseargs.simps) (auto simp: p g bindP_NoFuel parseredirs_fuel)
qed

lemma parseback_fuel: "parseback b c s \<noteq> NoFuel"
proof (induction b c s rule: parseback.induct)
  case (1 b c s)
  obtain s1 m where p: "sh_peek b s [38] = (s1, m)" by fastforce
  obtain t q e s2 where g: "gettoken b s1 = (t, q, e, s2)" by (metis prod_cases4)
  show ?case
    using 1 [OF p [symmetric] _ g [symmetric] refl refl] by (subst parseback.simps) (auto simp: p g)
qed

lemma and_then_fuel:
  assumes "\<forall>s2. s < s2 \<and> s < length b \<longrightarrow> p s2 \<noteq> NoFuel" and "s \<le> t"
  shows "and_then b toks p f c t \<noteq> NoFuel"
proof -
  obtain s1 m where p: "sh_peek b t toks = (s1, m)" by fastforce
  obtain k q e s2 where g: "gettoken b s1 = (k, q, e, s2)" by (metis prod_cases4)
  have "m \<Longrightarrow> p s2 \<noteq> NoFuel" using assms peek_get_le(3) [OF p g] by auto
  then show ?thesis by (auto simp: and_then_def p g bindP_NoFuel)
qed

lemma parsed_past:
  "parseline k b s = Parsed c t \<Longrightarrow> s \<le> t" "parsepipe k b s = Parsed c t \<Longrightarrow> s \<le> t"
  "parseexec k b s = Parsed c t \<Longrightarrow> s \<le> t" "parseback b c' s = Parsed c t \<Longrightarrow> s \<le> t"
  "parseredirs b c' s = Parsed c t \<Longrightarrow> s \<le> t"
  using past_parse [of k b] past_parseback [of s b c'] past_parseredirs [of s b c']
  by (metis past_simps(1))+

lemma parse_fuel:
  "(\<forall>s. 4 * (length b - s) + 4 \<le> k \<longrightarrow> parseline k b s \<noteq> NoFuel) \<and>
   (\<forall>s. 4 * (length b - s) + 3 \<le> k \<longrightarrow> parsepipe k b s \<noteq> NoFuel) \<and>
   (\<forall>s. 4 * (length b - s) + 2 \<le> k \<longrightarrow> parseexec k b s \<noteq> NoFuel) \<and>
   (\<forall>s. 4 * (length b - s) + 1 \<le> k \<longrightarrow> parseblock k b s \<noteq> NoFuel)"
proof (induction k)
  case (Suc k)
  have line: "parseline (Suc k) b s \<noteq> NoFuel" if k: "4 * (length b - s) + 4 \<le> Suc k" for s
  proof -
    have "\<forall>s2. s < s2 \<and> s < length b \<longrightarrow> parseline k b s2 \<noteq> NoFuel" using Suc.IH k by auto
    then have "and_then b [59] (parseline k b) f c t \<noteq> NoFuel" if "s \<le> t" for f c t
      using that by (rule and_then_fuel)
    moreover have "parsepipe k b s \<noteq> NoFuel" using Suc.IH k by auto
    ultimately show ?thesis
      unfolding parse_unfold using parsed_past parseback_fuel by (auto simp: bindP_NoFuel) (meson order_trans)
  qed
  have pipe: "parsepipe (Suc k) b s \<noteq> NoFuel" if k: "4 * (length b - s) + 3 \<le> Suc k" for s
  proof -
    have "\<forall>s2. s < s2 \<and> s < length b \<longrightarrow> parsepipe k b s2 \<noteq> NoFuel" using Suc.IH k by auto
    then have "and_then b [124] (parsepipe k b) f c t \<noteq> NoFuel" if "s \<le> t" for f c t
      using that by (rule and_then_fuel)
    moreover have "parseexec k b s \<noteq> NoFuel" using Suc.IH k by auto
    ultimately show ?thesis unfolding parse_unfold using parsed_past by (auto simp: bindP_NoFuel)
  qed
  have exec: "parseexec (Suc k) b s \<noteq> NoFuel" if k: "4 * (length b - s) + 2 \<le> Suc k" for s
  proof -
    obtain s1 m where p: "sh_peek b s [40] = (s1, m)" by fastforce
    then have "s \<le> s1" using peek_ge by blast
    then have "4 * (length b - s1) + 1 \<le> k" using k by linarith
    then have "parseblock k b s1 \<noteq> NoFuel" using Suc.IH by blast
    then show ?thesis by (simp add: p bindP_NoFuel parseredirs_fuel parseargs_fuel)
  qed
  have block: "parseblock (Suc k) b s \<noteq> NoFuel" if k: "4 * (length b - s) + 1 \<le> Suc k" for s
  proof -
    obtain s1 m where p: "sh_peek b s [40] = (s1, m)" by fastforce
    obtain t q e s2 where g: "gettoken b s1 = (t, q, e, s2)" by (metis prod_cases4)
    have "m \<Longrightarrow> parseline k b s2 \<noteq> NoFuel" using Suc.IH k peek_get_le(3) [OF p g] by auto
    then show ?thesis by (auto simp: p g bindP_NoFuel parseredirs_fuel split: prod.split)
  qed
  from line pipe exec block show ?case by blast
qed simp

text \<open>The errors the parser reports: \<open>parseblock\<close>'s own complaint is not among them.\<close>

definition parse_errors :: "string set" where
  "parse_errors = {''missing file for redirection'', ''syntax'', ''too many args'', ''syntax - missing )''}"

definition errs :: "'a parse \<Rightarrow> bool" where
  "errs p = (case p of Failed m \<Rightarrow> m \<in> parse_errors | _ \<Rightarrow> True)"

lemma errs_simps [simp]:
  "errs (Parsed c s)" "errs NoFuel" "errs (Leftover r)" "errs (Failed m) \<longleftrightarrow> m \<in> parse_errors"
  by (simp_all add: errs_def)

lemma errs_bind: "errs p \<Longrightarrow> (\<And>c t. p = Parsed c t \<Longrightarrow> errs (k c t)) \<Longrightarrow> errs (bindP p k)"
  by (cases p) auto

lemma errs_parseredirs: "errs (parseredirs b c s)"
proof (induction b c s rule: parseredirs.induct)
  case (1 b c s)
  obtain s1 m where p: "sh_peek b s [60, 62] = (s1, m)" by fastforce
  obtain tok x y s2 where g: "gettoken b s1 = (tok, x, y, s2)" by (metis prod_cases4)
  obtain t q e s3 where h: "gettoken b s2 = (t, q, e, s3)" by (metis prod_cases4)
  show ?case
    using 1 [OF p [symmetric] _ g [symmetric] refl refl h [symmetric] refl refl]
    by (subst parseredirs.simps) (auto simp: p g h parse_errors_def)
qed

lemma errs_parseargs: "errs (parseargs b c n s)"
proof (induction b c n s rule: parseargs.induct)
  case (1 b c n s)
  obtain s1 m where p: "sh_peek b s [124, 41, 38, 59] = (s1, m)" by fastforce
  obtain tok q e s2 where g: "gettoken b s1 = (tok, q, e, s2)" by (metis prod_cases4)
  show ?case
    using 1 [OF p [symmetric] _ g [symmetric] refl refl]
    by (subst parseargs.simps) (auto simp: p g parse_errors_def intro!: errs_bind [OF errs_parseredirs])
qed

lemma errs_parseback: "errs (parseback b c s)"
proof (induction b c s rule: parseback.induct)
  case (1 b c s)
  obtain s1 m where p: "sh_peek b s [38] = (s1, m)" by fastforce
  obtain t q e s2 where g: "gettoken b s1 = (t, q, e, s2)" by (metis prod_cases4)
  show ?case
    using 1 [OF p [symmetric] _ g [symmetric] refl refl] by (subst parseback.simps) (auto simp: p g)
qed

lemma errs_and_then: "\<forall>t. errs (p t) \<Longrightarrow> errs (and_then b toks p f c t)"
  by (auto simp: and_then_def split: prod.split intro!: errs_bind)

lemma errs_parse:
  "(\<forall>s. errs (parseline k b s)) \<and> (\<forall>s. errs (parsepipe k b s)) \<and> (\<forall>s. errs (parseexec k b s)) \<and>
   (\<forall>s s1. sh_peek b s [40] = (s1, True) \<longrightarrow> errs (parseblock k b s))"
proof (induction k)
  case (Suc k)
  have "errs (parseline (Suc k) b s)" "errs (parsepipe (Suc k) b s)" for s
    unfolding parse_unfold using Suc.IH by (auto intro!: errs_bind errs_and_then errs_parseback)
  moreover have "errs (parseexec (Suc k) b s)" for s
  proof -
    obtain s1 m where p: "sh_peek b s [40] = (s1, m)" by fastforce
    then have "m \<Longrightarrow> sh_peek b s1 [40] = (s1, True)" using peek_again by simp
    with Suc.IH show ?thesis by (auto simp: p intro!: errs_bind errs_parseredirs errs_parseargs)
  qed
  moreover have "errs (parseblock (Suc k) b s)" if "sh_peek b s [40] = (s1, True)" for s s1
    using Suc.IH that
    by (auto split: prod.split intro!: errs_bind errs_parseredirs) (simp add: parse_errors_def)
  ultimately show ?case by blast
qed simp

text \<open>
  C37. The shell's parser always returns: on every command line, the recursive descent ends with a
  command and the line with its words terminated, with one of four error messages, or with a
  non-empty rest of the line that does not belong to the command. There is no line on which it
  runs for ever, and none on which \<open>parseblock\<close> complains that it was called without an opening
  parenthesis.
\<close>

theorem parsecmd_returns:
  "(\<exists>c m s. parsecmd buf = Parsed (c, m) s) \<or> (\<exists>e. parsecmd buf = Failed e \<and> e \<in> parse_errors) \<or>
   (\<exists>r. parsecmd buf = Leftover r)"
proof -
  have "parsecmd buf \<noteq> NoFuel" and "errs (parsecmd buf)"
    using parse_fuel [of "takeWhile (\<lambda>c. c \<noteq> 0) buf"] errs_parse
    by (auto simp: parsecmd_def Let_def bindP_NoFuel split: prod.split intro!: errs_bind)
  then show ?thesis by (cases "parsecmd buf") auto
qed

subsection \<open>Parsed commands are well formed\<close>

text \<open>
  A command the rest of the shell can run: fewer than \<open>MAXARGS\<close> arguments, so that the null
  pointer behind the last one is inside \<open>argv\<close>; words that are words of the line; and the two
  kinds of redirection.
\<close>

fun cmd_ok :: "u8 list \<Rightarrow> cmd \<Rightarrow> bool" where
  "cmd_ok b (ExecCmd as) = (length as < MAXARGS \<and> list_all (token_ok b) as)"
| "cmd_ok b (RedirCmd c q e mode fd) =
     (cmd_ok b c \<and> token_ok b (q, e) \<and>
      (mode = O_RDONLY \<and> fd = 0 \<or> mode = O_WRONLY OR O_CREATE \<and> fd = 1))"
| "cmd_ok b (PipeCmd l r) = (cmd_ok b l \<and> cmd_ok b r)"
| "cmd_ok b (ListCmd l r) = (cmd_ok b l \<and> cmd_ok b r)"
| "cmd_ok b (BackCmd c) = cmd_ok b c"

fun spine_args :: "cmd \<Rightarrow> (nat \<times> nat) list option" where
  "spine_args (ExecCmd as) = Some as"
| "spine_args (RedirCmd c q e mode fd) = spine_args c"
| "spine_args c = None"

fun tokens :: "cmd \<Rightarrow> (nat \<times> nat) list" where
  "tokens (ExecCmd as) = as"
| "tokens (RedirCmd c q e mode fd) = tokens c @ [(q, e)]"
| "tokens (PipeCmd l r) = tokens l @ tokens r"
| "tokens (ListCmd l r) = tokens l @ tokens r"
| "tokens (BackCmd c) = tokens c"

definition gives :: "('a \<Rightarrow> bool) \<Rightarrow> 'a parse \<Rightarrow> bool" where
  "gives P p = (case p of Parsed c s \<Rightarrow> P c | _ \<Rightarrow> True)"

lemma gives_simps [simp]:
  "gives P (Parsed c s) \<longleftrightarrow> P c" "gives P (Failed m)" "gives P (Leftover r)" "gives P NoFuel"
  by (simp_all add: gives_def)

lemma gives_bind: "gives Q p \<Longrightarrow> (\<And>c t. Q c \<Longrightarrow> gives P (k c t)) \<Longrightarrow> gives P (bindP p k)"
  by (cases p) auto

lemma push_arg_ok:
  "cmd_ok b c \<Longrightarrow> spine_args c = Some as \<Longrightarrow> length as + 1 < MAXARGS \<Longrightarrow> token_ok b t \<Longrightarrow>
   cmd_ok b (push_arg t c) \<and> spine_args (push_arg t c) = Some (as @ [t])"
  by (induction c) auto

lemma gives_parseredirs:
  "cmd_ok b c \<Longrightarrow> 0 \<notin> set b \<Longrightarrow> gives (\<lambda>d. cmd_ok b d \<and> spine_args d = spine_args c) (parseredirs b c s)"
proof (induction b c s rule: parseredirs.induct)
  case (1 b c s)
  obtain s1 m where p: "sh_peek b s [60, 62] = (s1, m)" by fastforce
  obtain tok x y s2 where g: "gettoken b s1 = (tok, x, y, s2)" by (metis prod_cases4)
  obtain t q e s3 where h: "gettoken b s2 = (t, q, e, s3)" by (metis prod_cases4)
  have "t = 97 \<Longrightarrow> token_ok b (q, e)" using gettoken_ge [OF h] 1(3) by blast
  then show ?case
    using 1(1) [OF p [symmetric] _ g [symmetric] refl refl h [symmetric] refl refl] 1(2,3)
    by (subst parseredirs.simps) (auto simp: p g h)
qed

lemma gives_parseargs:
  "cmd_ok b c \<Longrightarrow> spine_args c = Some as \<Longrightarrow> length as = n \<Longrightarrow> 0 \<notin> set b \<Longrightarrow>
   gives (cmd_ok b) (parseargs b c n s)"
proof (induction b c n s arbitrary: as rule: parseargs.induct)
  case (1 b c n s)
  obtain s1 m where p: "sh_peek b s [124, 41, 38, 59] = (s1, m)" by fastforce
  obtain tok q e s2 where g: "gettoken b s1 = (tok, q, e, s2)" by (metis prod_cases4)
  have "gives (cmd_ok b) (bindP (parseredirs b (push_arg (q, e) c) s2) (\<lambda>ret s3. parseargs b ret (n + 1) s3))"
    if "\<not> m" "tok = 97" "\<not> MAXARGS \<le> n + 1"
  proof (rule gives_bind)
    have t: "token_ok b (q, e)" using gettoken_ge [OF g] that 1(5) by blast
    have pa: "cmd_ok b (push_arg (q, e) c)" "spine_args (push_arg (q, e) c) = Some (as @ [(q, e)])"
      using push_arg_ok [OF 1(2,3) _ t] that 1(4) by auto
    show "gives (\<lambda>d. cmd_ok b d \<and> spine_args d = Some (as @ [(q, e)])) (parseredirs b (push_arg (q, e) c) s2)"
      using gives_parseredirs [OF pa(1) 1(5)] pa(2) by simp
    show "gives (cmd_ok b) (parseargs b d (n + 1) t)"
      if "cmd_ok b d \<and> spine_args d = Some (as @ [(q, e)])" for d t
      using 1(1) [OF p [symmetric] \<open>\<not> m\<close> g [symmetric] refl refl, of d "as @ [(q, e)]" t] that
        \<open>tok = 97\<close> \<open>\<not> MAXARGS \<le> n + 1\<close> 1(4,5) by auto
  qed
  then show ?case using 1(2) by (subst parseargs.simps) (auto simp: p g)
qed

lemma gives_parseback: "cmd_ok b c \<Longrightarrow> gives (cmd_ok b) (parseback b c s)"
proof (induction b c s rule: parseback.induct)
  case (1 b c s)
  obtain s1 m where p: "sh_peek b s [38] = (s1, m)" by fastforce
  obtain t q e s2 where g: "gettoken b s1 = (t, q, e, s2)" by (metis prod_cases4)
  show ?case
    using 1(1) [OF p [symmetric] _ g [symmetric] refl refl] 1(2) by (subst parseback.simps) (auto simp: p g)
qed

lemma gives_and_then:
  "\<forall>t. gives P (p t) \<Longrightarrow> (\<And>d. P d \<Longrightarrow> P (f d)) \<Longrightarrow> P c \<Longrightarrow> gives P (and_then b toks p f c t)"
  by (auto simp: and_then_def split: prod.split intro!: gives_bind [of P])

lemma gives_parse:
  assumes "0 \<notin> set b"
  shows "(\<forall>s. gives (cmd_ok b) (parseline k b s)) \<and> (\<forall>s. gives (cmd_ok b) (parsepipe k b s)) \<and>
     (\<forall>s. gives (cmd_ok b) (parseexec k b s)) \<and> (\<forall>s. gives (cmd_ok b) (parseblock k b s))"
proof (induction k)
  case (Suc k)
  have "gives (cmd_ok b) (parseline (Suc k) b s)" "gives (cmd_ok b) (parsepipe (Suc k) b s)" for s
    unfolding parse_unfold using Suc.IH
    by (auto intro!: gives_bind [of "cmd_ok b"] gives_and_then gives_parseback)
  moreover have "gives (cmd_ok b) (parseexec (Suc k) b s)" for s
  proof -
    have "gives (\<lambda>d. cmd_ok b d \<and> spine_args d = Some []) (parseredirs b (ExecCmd []) t)" for t
      using gives_parseredirs [OF _ assms, of "ExecCmd []" t] by simp
    then show ?thesis
      using Suc.IH assms by (auto split: prod.split intro!: gives_bind intro: gives_parseargs)
  qed
  moreover have "gives (cmd_ok b) (parseblock (Suc k) b s)" for s
  proof -
    have "gives (cmd_ok b) (parseredirs b c t)" if "cmd_ok b c" for c t
      using gives_parseredirs [OF that assms, of t] by (auto simp: gives_def split: parse.splits)
    then show ?thesis
      using Suc.IH by (auto split: prod.split intro!: gives_bind [of "cmd_ok b"])
  qed
  ultimately show ?case by blast
qed simp

subsection \<open>The terminated words\<close>

text \<open>The C string at an index of a buffer.\<close>

definition cstring :: "u8 list \<Rightarrow> nat \<Rightarrow> u8 list" where
  "cstring m q = takeWhile (\<lambda>c. c \<noteq> 0) (drop q m)"

lemma nulterminate_fold: "nulterminate c m = fold (\<lambda>(q, e) m. m[e := 0]) (tokens c) m"
  by (induction c arbitrary: m) auto

lemma fold_zero_nth:
  "length (fold (\<lambda>(q, e) m. m[e := 0]) ts m) = length m \<and>
   (i < length m \<longrightarrow> fold (\<lambda>(q, e) m. m[e := 0]) ts m ! i = (if i \<in> snd ` set ts then 0 else m ! i))"
proof (induction ts arbitrary: m)
  case (Cons t ts)
  obtain q e where t: "t = (q, e)" by fastforce
  from Cons [of "m[e := 0]"] show ?case by (auto simp: t nth_list_update)
qed simp

lemma cmd_ok_tokens: "cmd_ok b c \<Longrightarrow> list_all (token_ok b) (tokens c)"
  by (induction c) auto

lemma token_string:
  assumes b: "b = takeWhile (\<lambda>c. c \<noteq> 0) buf" "0 \<in> set buf"
    and ok: "list_all (token_ok b) ts" and t: "(q, e) \<in> set ts"
    and m: "m = fold (\<lambda>(q, e) m. m[e := 0]) ts buf"
  shows "cstring m q = slice q (e - q) buf"
proof -
  have qe: "q < e" "e \<le> length b" and word: "\<And>i. q \<le> i \<Longrightarrow> i < e \<Longrightarrow> \<not> sep (b ! i)"
    using ok t by (auto simp: list_all_iff token_ok_def)
  have lb: "length b < length buf"
    using b length_takeWhile_le [of "\<lambda>c. c \<noteq> 0" buf] takeWhile_eq_all_conv [of "\<lambda>c. c \<noteq> 0" buf]
      takeWhile_eq_take [of "\<lambda>c. c \<noteq> 0" buf] by (metis le_neq_implies_less order_refl take_all)
  have nb: "b ! i = buf ! i \<and> buf ! i \<noteq> 0" if "i < length b" for i
    using that b(1) takeWhile_nth [of i "\<lambda>c. c \<noteq> 0" buf] nth_mem [of i b] set_takeWhileD [of "b ! i"] by metis
  have lm: "length m = length buf" using fold_zero_nth [of ts buf] m by blast
  have keep: "m ! i = buf ! i" if i: "q \<le> i" "i < e" for i
  proof -
    have "i \<noteq> e'" if "(q', e') \<in> set ts" for q' e'
    proof
      assume "i = e'"
      then have "sep (b ! i)" using ok that i qe by (auto simp: list_all_iff token_ok_def)
      with word i show False by blast
    qed
    then have "i \<notin> snd ` set ts" by force
    with fold_zero_nth [of ts buf i] m i qe lb show ?thesis by simp
  qed
  have z: "m ! e = 0"
  proof -
    have "e \<in> snd ` set ts" using t by force
    with fold_zero_nth [of ts buf e] m qe lb show ?thesis by simp
  qed
  have "cstring m q = take (e - q) (drop q m)"
    unfolding cstring_def
    by (rule takeWhile_eq_take_P_nth) (use lm lb qe keep nb z in auto)
  also have "\<dots> = slice q (e - q) buf"
    by (rule nth_equalityI) (use lm lb qe keep in \<open>auto simp: slice_def\<close>)
  finally show ?thesis .
qed

text \<open>
  C38. What the shell runs is well formed. When \<open>parsecmd\<close> returns a command for a terminated
  buffer, every argument list has fewer than \<open>MAXARGS\<close> words, every word is a maximal run of
  ordinary characters of the line, every redirection is one of the two kinds, and after
  \<open>nulterminate\<close> the C string at the word's start is exactly the word: no terminator falls inside another word.
\<close>

theorem parsecmd_words:
  assumes "parsecmd buf = Parsed (c, m) s" and "0 \<in> set buf"
  shows "cmd_ok (takeWhile (\<lambda>x. x \<noteq> 0) buf) c \<and> length m = length buf \<and>
    list_all (\<lambda>(q, e). cstring m q = slice q (e - q) buf) (tokens c)"
proof -
  define b where "b = takeWhile (\<lambda>x. x \<noteq> 0) buf"
  have "0 \<notin> set b" using set_takeWhileD [of 0 "\<lambda>x. x \<noteq> 0" buf] by (auto simp: b_def)
  then have "gives (cmd_ok b) (parseline k b 0)" for k using gives_parse by blast
  moreover obtain t where "parseline (4 * length b + 4) b 0 = Parsed c t" and cm: "m = nulterminate c buf"
    using assms(1) unfolding parsecmd_def b_def [symmetric] Let_def
    by (cases "parseline (4 * length b + 4) b 0") (auto split: prod.splits if_splits)
  ultimately have c: "cmd_ok b c" "m = nulterminate c buf" by (metis gives_simps(1), simp)
  show ?thesis
    using c token_string [OF b_def assms(2) cmd_ok_tokens [OF c(1)] _ c(2) [unfolded nulterminate_fold]]
      fold_zero_nth [of "tokens c" buf] nulterminate_fold [of c buf]
    by (auto simp: b_def [symmetric] list_all_iff)
qed

definition demo_line :: "u8 list" where
  "demo_line = cstr ''wc x<f|ls>g&'' @ [10, 0]"

definition demo_words :: "u8 list" where
  "demo_words = cstr ''wc'' @ [0] @ cstr ''x'' @ [0] @ cstr ''f'' @ [0] @ cstr ''ls'' @ [0] @ cstr ''g'' @ [0, 10, 0]"

lemma demo_line_parsed:
  "parsecmd demo_line =
     Parsed (BackCmd (PipeCmd (RedirCmd (ExecCmd [(0, 2), (3, 4)]) 5 6 O_RDONLY 0)
                              (RedirCmd (ExecCmd [(7, 9)]) 10 11 (O_WRONLY OR O_CREATE) 1)), demo_words) 13"
  by code_simp

theorem parsecmd_words_witness:
  "list_all (\<lambda>(q, e). cstring demo_words q = slice q (e - q) demo_line) [(0, 2), (3, 4), (5, 6), (7, 9), (10, 11)]"
proof -
  have "0 \<in> set demo_line" by (simp add: demo_line_def)
  from parsecmd_words [OF demo_line_parsed this] show ?thesis by simp
qed

subsection \<open>Running commands\<close>

definition sh_panic :: "u8 list \<Rightarrow> uprog" where
  "sh_panic t = printf 2 (nl ''%s'') [str_arg t] Exit"

definition fork1 :: "(int \<Rightarrow> uprog) \<Rightarrow> uprog" where
  "fork1 k = sys UFork (\<lambda>pid. if pid = -1 then sh_panic (cstr ''fork'') else k pid)"

text \<open>\<open>runcmd\<close> on a command whose words lie in the buffer \<open>m\<close>.\<close>

fun runcmd :: "u8 list \<Rightarrow> cmd \<Rightarrow> uprog" where
  "runcmd m (ExecCmd as) =
     (case map (\<lambda>(q, e). cstring m q) as of
        [] \<Rightarrow> Exit
      | a # argv \<Rightarrow> sys (UExec a (a # argv)) (\<lambda>_. printf 2 (nl ''exec %s failed'') [str_arg a] Exit))"
| "runcmd m (RedirCmd c q e mode fd) =
     sys (UClose fd) (\<lambda>_.
     sys (UOpen (cstring m q) mode) (\<lambda>r.
       if r < 0 then printf 2 (nl ''open %s failed'') [str_arg (cstring m q)] Exit
       else runcmd m c))"
| "runcmd m (ListCmd l r) =
     fork1 (\<lambda>pid. if pid = 0 then runcmd m l else sys UWait (\<lambda>_. runcmd m r))"
| "runcmd m (PipeCmd l r) =
     Call UPipe (\<lambda>p.
       if r_val p < 0 then sh_panic (cstr ''pipe'')
       else fork1 (\<lambda>pid.
         if pid = 0
         then sys (UClose 1) (\<lambda>_. sys (UDup (snd (r_fds p))) (\<lambda>_.
              sys (UClose (fst (r_fds p))) (\<lambda>_. sys (UClose (snd (r_fds p))) (\<lambda>_. runcmd m l))))
         else fork1 (\<lambda>pid.
           if pid = 0
           then sys (UClose 0) (\<lambda>_. sys (UDup (fst (r_fds p))) (\<lambda>_.
                sys (UClose (fst (r_fds p))) (\<lambda>_. sys (UClose (snd (r_fds p))) (\<lambda>_. runcmd m r))))
           else sys (UClose (fst (r_fds p))) (\<lambda>_. sys (UClose (snd (r_fds p))) (\<lambda>_.
                sys UWait (\<lambda>_. sys UWait (\<lambda>_. Exit)))))))"
| "runcmd m (BackCmd c) = fork1 (\<lambda>pid. if pid = 0 then runcmd m c else Exit)"

definition nbuf :: nat where "nbuf = 100"

text \<open>\<open>getcmd\<close> clears the buffer, prompts and reads a line into it.\<close>

definition getcmd :: "(int \<Rightarrow> u8 list \<Rightarrow> uprog) \<Rightarrow> uprog" where
  "getcmd k =
     printf 2 (cstr ''$ '') []
       (gets nbuf (\<lambda>bs. let buf = bs @ replicate (nbuf - length bs) 0
                        in k (if buf ! 0 = 0 then -1 else 0) buf))"

text \<open>The child of the main loop: \<open>runcmd(parsecmd(buf))\<close>.\<close>

definition run_line :: "u8 list \<Rightarrow> uprog" where
  "run_line buf =
     (case parsecmd buf of
        Parsed cm s \<Rightarrow> runcmd (snd cm) (fst cm)
      | Failed e \<Rightarrow> sh_panic (cstr e)
      | Leftover r \<Rightarrow> printf 2 (nl ''leftovers: %s'') [str_arg r] (sh_panic (cstr ''syntax''))
      | NoFuel \<Rightarrow> Undef)"

text \<open>The read loop of \<open>main\<close>, for \<open>n\<close> lines.\<close>

fun main_loop :: "nat \<Rightarrow> uprog" where
  "main_loop 0 = Undef"
| "main_loop (Suc n) =
     getcmd (\<lambda>r buf.
       if r < 0 then Exit
       else if buf ! 0 = 99 \<and> buf ! 1 = 100 \<and> buf ! 2 = 32
       then let buf = buf[length (cstring buf 0) - 1 := 0] in
            sys (UChdir (cstring buf 3)) (\<lambda>r.
              if r < 0 then printf 2 (nl ''cannot cd %s'') [str_arg (cstring buf 3)] (main_loop n)
              else main_loop n)
       else fork1 (\<lambda>pid. if pid = 0 then run_line buf else sys UWait (\<lambda>_. main_loop n)))"

text \<open>The descriptor loop of \<open>main\<close>, for \<open>n\<close> attempts.\<close>

fun open_console :: "nat \<Rightarrow> uprog \<Rightarrow> uprog" where
  "open_console 0 k = Undef"
| "open_console (Suc n) k =
     sys (UOpen (cstr ''console'') O_RDWR) (\<lambda>fd.
       if fd \<ge> 0 then if fd \<ge> 3 then sys (UClose fd) (\<lambda>_. k) else open_console n k
       else k)"

definition sh_main :: "nat \<Rightarrow> uprog" where
  "sh_main n = open_console n (main_loop n)"

subsection \<open>Descriptors of a pipeline\<close>

text \<open>
  The kernel's descriptor calls on the table of one process: a new descriptor is the lowest free
  one, as \<open>fdalloc\<close> takes it. The entries are open files; a pipe has two ends. The replies of \<open>fork\<close>
  select the process that is followed.
\<close>

datatype 'f ofile = RdEnd | WrEnd | Other 'f

type_synonym 'f fdtab = "nat \<Rightarrow> 'f ofile option"

definition lowest :: "'f fdtab \<Rightarrow> nat option" where
  "lowest t = first_slot NOFILE (\<lambda>d. t d = None)"

definition val_reply :: "int \<Rightarrow> reply" where
  "val_reply n = \<lparr>r_val = n, r_bytes = [], r_fds = (0, 0), r_stat = \<lparr>st_type = 0, st_dev = 0, st_ino = 0, st_nlink = 0, st_size = 0\<rparr>\<rparr>"

fun fd_step :: "uprog \<times> 'f fdtab \<times> int list \<Rightarrow> (uprog \<times> 'f fdtab \<times> int list) option" where
  "fd_step (Call (UClose d) k, t, ps) = Some (k (val_reply 0), t(nat d := None), ps)"
| "fd_step (Call (UDup d) k, t, ps) =
     map_option (\<lambda>n. (k (val_reply (int n)), t(n := t (nat d)), ps)) (lowest t)"
| "fd_step (Call UPipe k, t, ps) =
     Option.bind (lowest t) (\<lambda>a. Option.bind (lowest (t(a \<mapsto> RdEnd))) (\<lambda>b.
       Some (k ((val_reply 0)\<lparr>r_fds := (int a, int b)\<rparr>), t(a \<mapsto> RdEnd, b \<mapsto> WrEnd), ps)))"
| "fd_step (Call UFork k, t, p # ps) = Some (k (val_reply p), t, ps)"
| "fd_step _ = None"

fun fd_steps :: "nat \<Rightarrow> uprog \<times> 'f fdtab \<times> int list \<Rightarrow> (uprog \<times> 'f fdtab \<times> int list) option" where
  "fd_steps 0 x = Some x"
| "fd_steps (Suc n) x = Option.bind (fd_step x) (fd_steps n)"

lemma lowest_closed:
  assumes "\<forall>j<d. t j \<noteq> None" and "d < NOFILE" and "t d = None"
  shows "lowest t = Some d"
  using assms by (simp add: lowest_def first_slot_Some)

text \<open>
  C39. A pipeline connects exactly two descriptors. From a process with standard input and output
  open and two free descriptors, the first child of \<open>runcmd\<close> on a pipe reaches the left command
  with the same table except that descriptor 1 is the pipe's write end, the second child
  reaches the right command with descriptor 0 the read end, and the shell itself has its old table back before it waits: no process
  keeps an end of the pipe that it does not use.
\<close>

theorem pipeline_descriptors:
  assumes "t 0 \<noteq> None" and "t 1 \<noteq> None" and "lowest t = Some a" and "lowest (t(a \<mapsto> RdEnd)) = Some b"
    and "0 < p1" and "0 < p2"
  shows "fd_steps 6 (runcmd m (PipeCmd l r), t, [0]) = Some (runcmd m l, t(1 \<mapsto> WrEnd), []) \<and>
     fd_steps 7 (runcmd m (PipeCmd l r), t, [p1, 0]) = Some (runcmd m r, t(0 \<mapsto> RdEnd), []) \<and>
     fd_steps 5 (runcmd m (PipeCmd l r), t, [p1, p2]) = Some (sys UWait (\<lambda>_. sys UWait (\<lambda>_. Exit)), t, [])"
proof (intro conjI)
  have a: "t a = None" "a < NOFILE" using assms(3) by (auto simp: lowest_def first_slot_Some)
  then have a01: "a \<noteq> 0" "a \<noteq> 1" using assms(1,2) by metis+
  have b: "t b = None" "b < NOFILE" "b \<noteq> a"
    using assms(4) by (auto simp: lowest_def first_slot_Some split: if_splits)
  then have "b \<noteq> 0" "b \<noteq> 1" using assms(1,2) by metis+
  note b = this b and a = a01 a
  let ?t = "t(a \<mapsto> RdEnd, b \<mapsto> WrEnd)"
  have l1: "lowest (?t(1 := None)) = Some 1"
    by (rule lowest_closed) (use assms a b in auto)
  have l0: "lowest (?t(0 := None)) = Some 0"
    by (rule lowest_closed) (use assms a b in auto)
  show "fd_steps 6 (runcmd m (PipeCmd l r), t, [0]) = Some (runcmd m l, t(1 \<mapsto> WrEnd), [])"
    using assms a b l1
    by (auto simp: numeral_eq_Suc sys_def fork1_def val_reply_def fun_eq_iff)
  show "fd_steps 7 (runcmd m (PipeCmd l r), t, [p1, 0]) = Some (runcmd m r, t(0 \<mapsto> RdEnd), [])"
    using assms a b l0
    by (auto simp: numeral_eq_Suc sys_def fork1_def val_reply_def fun_eq_iff)
  show "fd_steps 5 (runcmd m (PipeCmd l r), t, [p1, p2]) =
      Some (sys UWait (\<lambda>_. sys UWait (\<lambda>_. Exit)), t, [])"
    using assms a b
    by (auto simp: numeral_eq_Suc sys_def fork1_def val_reply_def fun_eq_iff)
qed

definition std_fds :: "nat fdtab" where
  "std_fds = (\<lambda>d. if d < 3 then Some (Other d) else None)"

theorem pipeline_descriptors_witness:
  "fd_steps 6 (runcmd [] (PipeCmd (ExecCmd []) (ExecCmd [])), std_fds, [0]) = Some (Exit, std_fds(1 \<mapsto> WrEnd), [])"
proof -
  have "lowest std_fds = Some 3" "lowest (std_fds(3 \<mapsto> RdEnd)) = Some 4"
    by (rule lowest_closed; auto simp: std_fds_def)+
  from pipeline_descriptors [OF _ _ this, of 1 1 "[]" "ExecCmd []" "ExecCmd []"] show ?thesis
    by (simp add: std_fds_def)
qed

end
