(* ===== verification/Grep.thy ===== *)
theory Grep
  imports Ulib
begin

section \<open>grep (grep.c)\<close>

text \<open>
  The matcher of grep on C strings, given as the lists of their bytes: \<open>re[0] = 0\<close> is the empty
  list, and \<open>re[1]\<close> of a one-byte list is the terminator. The patterns have a meaning as a set
  of strings, and the matcher decides it. The reading loop of \<open>grep\<close> is a program of system calls.
\<close>

subsection \<open>The matcher\<close>

function matchhere :: "u8 list \<Rightarrow> u8 list \<Rightarrow> bool"
  and matchstar :: "u8 \<Rightarrow> u8 list \<Rightarrow> u8 list \<Rightarrow> bool" where
  "matchhere [] t = True"
| "matchhere (c # re) t =
     (if re \<noteq> [] \<and> hd re = 42 then matchstar c (tl re) t
      else if c = 36 \<and> re = [] then t = []
      else if t \<noteq> [] \<and> (c = 46 \<or> c = hd t) then matchhere re (tl t)
      else False)"
| "matchstar c re t =
     (if matchhere re t then True
      else if t \<noteq> [] \<and> (hd t = c \<or> c = 46) then matchstar c re (tl t)
      else False)"
  by pat_completeness auto
termination
proof (relation "measures [\<lambda>x. case x of Inl (re, t) \<Rightarrow> 2 * length re | Inr (c, re, t) \<Rightarrow> 2 * length re + 1,
    \<lambda>x. case x of Inl (re, t) \<Rightarrow> length t | Inr (c, re, t) \<Rightarrow> length t]")
  fix c :: u8 and re t :: "u8 list"
  assume "re \<noteq> [] \<and> hd re = 42"
  then show "(Inr (c, tl re, t), Inl (c # re, t))
     \<in> measures [\<lambda>x. case x of Inl (re, t) \<Rightarrow> 2 * length re | Inr (c, re, t) \<Rightarrow> 2 * length re + 1,
         \<lambda>x. case x of Inl (re, t) \<Rightarrow> length t | Inr (c, re, t) \<Rightarrow> length t]"
    by (cases re) auto
qed auto

declare matchhere.simps [simp del] matchstar.simps [simp del]

fun match_from :: "u8 list \<Rightarrow> u8 list \<Rightarrow> bool" where
  "match_from re t =
     (if matchhere re t then True
      else case t of [] \<Rightarrow> False | _ # rest \<Rightarrow> match_from re rest)"

declare match_from.simps [simp del]

definition match :: "u8 list \<Rightarrow> u8 list \<Rightarrow> bool" where
  "match re t = (if re \<noteq> [] \<and> hd re = 94 then matchhere (tl re) t else match_from re t)"

subsection \<open>What a pattern means\<close>

datatype item = One u8 | Star u8

definition fits :: "u8 \<Rightarrow> u8 \<Rightarrow> bool" where
  "fits c x = (c = 46 \<or> x = c)"

fun lang :: "item list \<Rightarrow> u8 list \<Rightarrow> bool" where
  "lang [] w = (w = [])"
| "lang (One c # is) w = (\<exists>x v. w = x # v \<and> fits c x \<and> lang is v)"
| "lang (Star c # is) w = (\<exists>u v. w = u @ v \<and> list_all (fits c) u \<and> lang is v)"

text \<open>The items of a pattern without its leading \<open>^\<close>, and whether it ends in \<open>$\<close>.\<close>

fun items :: "u8 list \<Rightarrow> item list \<times> bool" where
  "items [] = ([], False)"
| "items [c] = (if c = 36 then ([], True) else ([One c], False))"
| "items (c # d # re) =
     (if d = 42 then (let (is, e) = items re in (Star c # is, e))
      else (let (is, e) = items (d # re) in (One c # is, e)))"

definition here :: "item list \<times> bool \<Rightarrow> u8 list \<Rightarrow> bool" where
  "here r t = (\<exists>v w. t = v @ w \<and> lang (fst r) v \<and> (snd r \<longrightarrow> w = []))"

definition found :: "u8 list \<Rightarrow> u8 list \<Rightarrow> bool" where
  "found re t =
     (if re \<noteq> [] \<and> hd re = 94 then here (items (tl re)) t
      else (\<exists>u rest. t = u @ rest \<and> here (items re) rest))"

lemma hereI: "lang is v \<Longrightarrow> (e \<longrightarrow> w = []) \<Longrightarrow> t = v @ w \<Longrightarrow> here (is, e) t"
  by (auto simp: here_def)

lemma hereE: "here (is, e) t \<Longrightarrow> (\<And>v w. lang is v \<Longrightarrow> (e \<longrightarrow> w = []) \<Longrightarrow> t = v @ w \<Longrightarrow> P) \<Longrightarrow> P"
  unfolding here_def by (metis fst_conv snd_conv)

lemma here_Nil: "here ([], e) t \<longleftrightarrow> (e \<longrightarrow> t = [])"
  by (auto elim: hereE intro: hereI)

lemma here_One: "here (One c # is, e) t \<longleftrightarrow> t \<noteq> [] \<and> fits c (hd t) \<and> here (is, e) (tl t)"
proof
  assume "here (One c # is, e) t"
  then obtain x v w where "fits c x" "lang is v" "e \<longrightarrow> w = []" "t = (x # v) @ w"
    by (elim hereE) (unfold lang.simps, blast)
  then show "t \<noteq> [] \<and> fits c (hd t) \<and> here (is, e) (tl t)" by (simp add: hereI)
next
  assume r: "t \<noteq> [] \<and> fits c (hd t) \<and> here (is, e) (tl t)"
  then obtain v w where vw: "lang is v" "e \<longrightarrow> w = []" "tl t = v @ w" by (blast elim: hereE)
  then have "t = (hd t # v) @ w" using r by (cases t) auto
  moreover have "lang (One c # is) (hd t # v)" using r vw by simp
  ultimately show "here (One c # is, e) t" using vw(2) by (blast intro: hereI)
qed

lemma here_Star:
  "here (Star c # is, e) t \<longleftrightarrow>
     here (is, e) t \<or> t \<noteq> [] \<and> fits c (hd t) \<and> here (Star c # is, e) (tl t)"
proof
  assume "here (Star c # is, e) t"
  then obtain u v w where uvw: "list_all (fits c) u" "lang is v" "e \<longrightarrow> w = []" "t = (u @ v) @ w"
    by (elim hereE) (unfold lang.simps, blast)
  show "here (is, e) t \<or> t \<noteq> [] \<and> fits c (hd t) \<and> here (Star c # is, e) (tl t)"
  proof (cases u)
    case Nil
    with uvw show ?thesis by (simp add: hereI)
  next
    case (Cons x u')
    with uvw have "lang (Star c # is) (u' @ v)" "tl t = (u' @ v) @ w" by auto
    with uvw have "here (Star c # is, e) (tl t)" by (blast intro: hereI)
    with Cons uvw show ?thesis by simp
  qed
next
  assume "here (is, e) t \<or> t \<noteq> [] \<and> fits c (hd t) \<and> here (Star c # is, e) (tl t)"
  then show "here (Star c # is, e) t"
  proof
    assume "here (is, e) t"
    then obtain v w where vw: "lang is v" "e \<longrightarrow> w = []" "t = v @ w" by (blast elim: hereE)
    then have "lang (Star c # is) v" by (auto intro: exI [of _ "[]"])
    with vw show ?thesis by (blast intro: hereI)
  next
    assume r: "t \<noteq> [] \<and> fits c (hd t) \<and> here (Star c # is, e) (tl t)"
    then obtain u v w where uvw: "list_all (fits c) u" "lang is v" "e \<longrightarrow> w = []" "tl t = (u @ v) @ w"
      by (elim conjE hereE) (unfold lang.simps, blast)
    have "list_all (fits c) (hd t # u)" using uvw(1) r by simp
    then have "lang (Star c # is) ((hd t # u) @ v)" unfolding lang.simps using uvw(2) by blast
    moreover have "t = ((hd t # u) @ v) @ w" using r uvw(4) by (cases t) auto
    ultimately show ?thesis using uvw(3) by (blast intro: hereI)
  qed
qed

lemma matchhere_spec:
  "matchhere re t \<longleftrightarrow> here (items re) t"
  "matchstar c re t \<longleftrightarrow> here (Star c # fst (items re), snd (items re)) t"
proof (induction re t and c re t rule: matchhere_matchstar.induct)
  case (1 t)
  then show ?case by (simp add: matchhere.simps here_Nil)
next
  case (2 c re t)
  show ?case
  proof (cases re)
    case Nil
    then show ?thesis
      using 2 by (cases t) (auto simp: matchhere.simps here_One here_Nil fits_def)
  next
    case (Cons d re')
    then show ?thesis
      using 2 by (auto simp: matchhere.simps here_One fits_def split_beta)
  qed
next
  case (3 c re t)
  then show ?case by (subst matchstar.simps, subst here_Star) (auto simp: fits_def)
qed

lemma match_from_spec: "match_from re t \<longleftrightarrow> (\<exists>u rest. t = u @ rest \<and> here (items re) rest)"
proof (induction re t rule: match_from.induct)
  case (1 re t)
  show ?case
  proof (cases t)
    case Nil
    then show ?thesis by (simp add: match_from.simps matchhere_spec)
  next
    case (Cons x rest)
    have "(\<exists>u r. x # rest = u @ r \<and> here (items re) r) \<longleftrightarrow>
        here (items re) (x # rest) \<or> (\<exists>u r. rest = u @ r \<and> here (items re) r)"
      by (metis append_Cons append_Nil append_eq_Cons_conv)
    with 1 Cons show ?thesis by (subst match_from.simps) (auto simp: matchhere_spec)
  qed
qed

text \<open>
  C40. grep's matcher decides the meaning of its patterns. On every pattern and every text,
  \<open>match\<close> answers true exactly when the text has a part in the pattern's language (\<open>.\<close> is any
  character, \<open>c*\<close> any number of them), at the beginning when the pattern starts with \<open>^\<close> and up to the end when it ends with \<open>$\<close>.
\<close>

theorem match_decides_language:
  "match re t \<longleftrightarrow> found re t"
  by (simp add: match_def found_def matchhere_spec match_from_spec)

subsection \<open>The reading loop\<close>

definition GREP_NBUF :: nat where [simp]: "GREP_NBUF = 1024"

text \<open>
  The inner loop on the string at \<open>p\<close>: the pieces it writes and the bytes left behind the last
  newline.
\<close>

function scan :: "u8 list \<Rightarrow> u8 list \<Rightarrow> u8 list list \<times> u8 list" where
  "scan pattern p =
     (case strchr p 10 of
        None \<Rightarrow> ([], p)
      | Some q \<Rightarrow>
          let (out, rest) = scan pattern (drop (q + 1) p)
          in ((if match pattern (take q p) then [take (q + 1) p] else []) @ out, rest))"
  by pat_completeness auto
termination
proof (relation "measure (\<lambda>(pattern, p). length p)")
  fix pattern p q
  assume "strchr p 10 = Some q"
  then have "p \<noteq> []" by auto
  then show "((pattern, drop (q + 1) p), (pattern, p)) \<in> measure (\<lambda>(pattern, p). length p)" by auto
qed simp

declare scan.simps [simp del]

fun write_all :: "u8 list list \<Rightarrow> uprog \<Rightarrow> uprog" where
  "write_all [] k = k"
| "write_all (b # bs) k = sys (UWrite 1 b) (\<lambda>_. write_all bs k)"

text \<open>
  The outer loop with the bytes \<open>buf\<close> kept from earlier reads, for \<open>n\<close> reads. When the
  buffer holds no newline after a read, all of it is dropped: \<open>p == buf\<close> sets \<open>m\<close> to zero.
\<close>

fun grep_loop :: "nat \<Rightarrow> u8 list \<Rightarrow> int \<Rightarrow> u8 list \<Rightarrow> uprog \<Rightarrow> uprog" where
  "grep_loop 0 pattern fd buf k = Undef"
| "grep_loop (Suc n) pattern fd buf k =
     Call (URead fd (GREP_NBUF - length buf - 1)) (\<lambda>r.
       if r_val r > 0
       then let buf = buf @ r_bytes r; (out, rest) = scan pattern buf
            in write_all out (grep_loop n pattern fd (if length rest = length buf then [] else rest) k)
       else k)"

definition grep :: "nat \<Rightarrow> u8 list \<Rightarrow> int \<Rightarrow> uprog \<Rightarrow> uprog" where
  "grep n pattern fd k = grep_loop n pattern fd [] k"

text \<open>\<open>main\<close> over the file arguments.\<close>

fun grep_files :: "nat \<Rightarrow> u8 list \<Rightarrow> u8 list list \<Rightarrow> uprog" where
  "grep_files n pattern [] = Exit"
| "grep_files n pattern (f # fs) =
     sys (UOpen f 0) (\<lambda>fd.
       if fd < 0 then printf 1 (nl ''grep: cannot open %s'') [str_arg f] Exit
       else grep n pattern fd (sys (UClose fd) (\<lambda>_. grep_files n pattern fs)))"

definition grep_main :: "nat \<Rightarrow> u8 list list \<Rightarrow> uprog" where
  "grep_main n argv =
     (if length argv \<le> 1 then printf 2 (nl ''usage: grep pattern [file ...]'') [] Exit
      else if length argv \<le> 2 then grep n (argv ! 1) 0 Exit
      else grep_files n (argv ! 1) (drop 2 argv))"

end
