(* ===== verification/Umalloc.thy ===== *)
theory Umalloc
  imports Ulib
begin

section \<open>The user memory allocator (umalloc.c)\<close>

text \<open>
  The heap is given by the fields of the headers: \<open>h_ptr a\<close> and \<open>h_size a\<close> are \<open>s.ptr\<close> and \<open>s.size\<close>
  of the header at address \<open>a\<close>. User addresses are far below \<open>2^64\<close>, so pointers are natural
  numbers and header arithmetic adds sixteen bytes per unit; sizes are 32-bit. The address \<open>bse\<close> of
  the static header and the system call \<open>sbrk\<close>, with the state it works on, are parameters. The loops
  over the circular list may run for ever on a corrupt list, which is \<open>None\<close>.
\<close>

subsection \<open>State and operations\<close>

record uheap =
  h_ptr :: "nat \<Rightarrow> nat"
  h_size :: "nat \<Rightarrow> u32"
  h_freep :: nat

definition set_ptr :: "nat \<Rightarrow> nat \<Rightarrow> uheap \<Rightarrow> uheap" where
  "set_ptr a v h = h\<lparr>h_ptr := (h_ptr h)(a := v)\<rparr>"

definition set_size :: "nat \<Rightarrow> u32 \<Rightarrow> uheap \<Rightarrow> uheap" where
  "set_size a n h = h\<lparr>h_size := (h_size h)(a := n)\<rparr>"

text \<open>Pointer arithmetic on headers: \<open>p + n\<close>.\<close>

definition hplus :: "nat \<Rightarrow> u32 \<Rightarrow> nat" where
  "hplus p n = p + 16 * unat n"

partial_function (option) free_find :: "uheap \<Rightarrow> nat \<Rightarrow> nat \<Rightarrow> nat option" where
  "free_find h bp p =
     (if bp > p \<and> bp < h_ptr h p then Some p
      else if p \<ge> h_ptr h p \<and> (bp > p \<or> bp < h_ptr h p) then Some p
      else free_find h bp (h_ptr h p))"

definition free_join :: "nat \<Rightarrow> nat \<Rightarrow> uheap \<Rightarrow> uheap" where
  "free_join p bp h =
     (let h = (if hplus bp (h_size h bp) = h_ptr h p
               then set_ptr bp (h_ptr h (h_ptr h p)) (set_size bp (h_size h bp + h_size h (h_ptr h p)) h)
               else set_ptr bp (h_ptr h p) h);
          h = (if hplus p (h_size h p) = bp
               then set_ptr p (h_ptr h bp) (set_size p (h_size h p + h_size h bp) h)
               else set_ptr p bp h)
      in h\<lparr>h_freep := p\<rparr>)"

definition free :: "nat \<Rightarrow> uheap \<Rightarrow> uheap option" where
  "free ap h = (let bp = ap - 16 in map_option (\<lambda>p. free_join p bp h) (free_find h bp (h_freep h)))"

definition morecore :: "(u64 \<Rightarrow> 'k \<Rightarrow> u64 \<times> 'k) \<Rightarrow> u32 \<Rightarrow> uheap \<Rightarrow> 'k \<Rightarrow> (nat \<times> uheap \<times> 'k) option" where
  "morecore sbrk nu h k =
     (let nu = (if nu < 4096 then 4096 else nu);
          (p, k) = sbrk (ucast nu * 16) k
      in if p = -1 then Some (0, h, k)
         else let hp = unat p; h = set_size hp nu h
              in map_option (\<lambda>h. (h_freep h, h, k)) (free (hp + 16) h))"

text \<open>Taking \<open>nunits\<close> from the block at \<open>p\<close>, whose predecessor is \<open>prevp\<close>.\<close>

definition take_block :: "u32 \<Rightarrow> nat \<Rightarrow> nat \<Rightarrow> uheap \<Rightarrow> nat \<times> uheap" where
  "take_block nunits prevp p h =
     (if h_size h p = nunits
      then (p + 16, (set_ptr prevp (h_ptr h p) h)\<lparr>h_freep := prevp\<rparr>)
      else let n = h_size h p - nunits; h = set_size p n h; p = hplus p n; h = set_size p nunits h
           in (p + 16, h\<lparr>h_freep := prevp\<rparr>))"

partial_function (option) malloc_loop ::
    "(u64 \<Rightarrow> 'k \<Rightarrow> u64 \<times> 'k) \<Rightarrow> u32 \<Rightarrow> nat \<Rightarrow> nat \<Rightarrow> uheap \<Rightarrow> 'k \<Rightarrow> (nat \<times> uheap \<times> 'k) option" where
  "malloc_loop sbrk nunits prevp p h k =
     (if h_size h p \<ge> nunits
      then (let (r, h) = take_block nunits prevp p h in Some (r, h, k))
      else if p = h_freep h
      then Option.bind (morecore sbrk nunits h k) (\<lambda>(p, h, k).
             if p = 0 then Some (0, h, k) else malloc_loop sbrk nunits p (h_ptr h p) h k)
      else malloc_loop sbrk nunits p (h_ptr h p) h k)"

definition nunits_of :: "u32 \<Rightarrow> u32" where
  "nunits_of nbytes = ucast ((ucast nbytes + 16 - 1 :: u64) div 16 + 1)"

definition malloc :: "nat \<Rightarrow> (u64 \<Rightarrow> 'k \<Rightarrow> u64 \<times> 'k) \<Rightarrow> u32 \<Rightarrow> uheap \<Rightarrow> 'k \<Rightarrow> (nat \<times> uheap \<times> 'k) option" where
  "malloc bse sbrk nbytes h k =
     (let h = (if h_freep h = 0
               then set_size bse 0 (set_ptr bse bse h)\<lparr>h_freep := bse\<rparr>
               else h)
      in malloc_loop sbrk (nunits_of nbytes) (h_freep h) (h_ptr h (h_freep h)) h k)"

lemma set_simps [simp]:
  "h_ptr (set_ptr a v h) = (h_ptr h)(a := v)" "h_size (set_ptr a v h) = h_size h"
  "h_freep (set_ptr a v h) = h_freep h"
  "h_ptr (set_size a n h) = h_ptr h" "h_size (set_size a n h) = (h_size h)(a := n)"
  "h_freep (set_size a n h) = h_freep h"
  by (simp_all add: set_ptr_def set_size_def)

subsection \<open>The circular list\<close>

text \<open>
  The free list holds the headers at the addresses \<open>B\<close> in ascending order, from the last back to
  the first; the first is the static header.
\<close>

definition next_hdr :: "nat set \<Rightarrow> nat \<Rightarrow> nat" where
  "next_hdr B a = (if \<exists>b\<in>B. a < b then Min {b \<in> B. a < b} else Min B)"

definition pred :: "nat set \<Rightarrow> nat \<Rightarrow> nat" where
  "pred B x = Max {b \<in> B. b < x}"

lemma next_hdr_cases:
  assumes "finite B" "B \<noteq> {}"
  obtains (up) "a < next_hdr B a" "next_hdr B a \<in> B" "\<forall>b\<in>B. a < b \<longrightarrow> next_hdr B a \<le> b"
  | (wrap) "next_hdr B a = Min B" "\<forall>b\<in>B. b \<le> a"
proof (cases "\<exists>b\<in>B. a < b")
  case True
  let ?S = "{b \<in> B. a < b}"
  have S: "finite ?S" "?S \<noteq> {}" using assms True by auto
  from Min_in [OF S] Min_le [OF S(1)] True up show ?thesis by (auto simp: next_hdr_def)
next
  case False
  with wrap show ?thesis by (auto simp: next_hdr_def not_less)
qed

lemma next_hdr_le: "finite B \<Longrightarrow> b \<in> B \<Longrightarrow> a < b \<Longrightarrow> a < next_hdr B a \<and> next_hdr B a \<le> b"
  by (rule next_hdr_cases [of B a]) auto

lemma next_hdr_in: "finite B \<Longrightarrow> B \<noteq> {} \<Longrightarrow> next_hdr B a \<in> B"
  by (rule next_hdr_cases [of B a]) auto

text \<open>Following the list from any header reaches any other header.\<close>

lemma walk_up:
  assumes B: "finite B" "t \<in> B"
    and step: "\<And>a. a \<in> B \<Longrightarrow> a \<noteq> t \<Longrightarrow> P (next_hdr B a) \<Longrightarrow> P a" and tgt: "P t"
  shows "a \<in> B \<Longrightarrow> a \<le> t \<Longrightarrow> P a"
proof (induction "t - a" arbitrary: a rule: less_induct)
  case less
  show ?case
  proof (cases "a = t")
    case False
    then have lt: "a < t" using less.prems by simp
    from B have "B \<noteq> {}" by auto
    with B lt have "a < next_hdr B a" "next_hdr B a \<in> B" "next_hdr B a \<le> t"
      by (auto elim!: next_hdr_cases [of B a])
    with less lt have "P (next_hdr B a)" by simp
    with step less.prems False show ?thesis by blast
  qed (use tgt in simp)
qed

lemma walk_induct [consumes 3, case_names target step]:
  assumes B: "finite B" "t \<in> B" and a: "a \<in> B"
    and tgt: "P t" and step: "\<And>a. a \<in> B \<Longrightarrow> a \<noteq> t \<Longrightarrow> P (next_hdr B a) \<Longrightarrow> P a"
  shows "P a"
  using a
proof (induction "Max B - a" arbitrary: a rule: less_induct)
  case less
  from B have ne: "B \<noteq> {}" by auto
  show ?case
  proof (cases "a \<le> t")
    case True
    from walk_up [of B t P, OF B step tgt less.prems True] show ?thesis by simp
  next
    case False
    have "P (next_hdr B a)"
    proof (rule next_hdr_cases [OF B(1) ne, of a])
      assume *: "a < next_hdr B a" "next_hdr B a \<in> B"
      then have "next_hdr B a \<le> Max B" using B(1) by simp
      with * less show ?thesis by simp
    next
      assume *: "next_hdr B a = Min B"
      have "P (Min B)" using walk_up [of B t P, OF B step tgt] B ne by (simp add: Min_le)
      with * show ?thesis by simp
    qed
    with step less.prems False show ?thesis by blast
  qed
qed

lemma next_hdr_up: "finite B \<Longrightarrow> y \<in> B \<Longrightarrow> a < y \<Longrightarrow> \<forall>b\<in>B. a < b \<longrightarrow> y \<le> b \<Longrightarrow> next_hdr B a = y"
  by (auto simp: next_hdr_def intro: Min_eqI)

lemma next_hdr_wrap: "\<forall>b\<in>B. b \<le> a \<Longrightarrow> next_hdr B a = Min B"
  by (auto simp: next_hdr_def not_less)

lemma pred_spec:
  assumes "finite B" "c \<in> B" "c < x"
  shows "pred B x \<in> B" "pred B x < x" "b \<in> B \<Longrightarrow> b < x \<Longrightarrow> b \<le> pred B x"
proof -
  let ?S = "{b \<in> B. b < x}"
  have S: "finite ?S" "?S \<noteq> {}" using assms by auto
  from Max_in [OF S] show "pred B x \<in> B" "pred B x < x" by (auto simp: pred_def)
  show "b \<in> B \<Longrightarrow> b < x \<Longrightarrow> b \<le> pred B x" using Max_ge [OF S(1)] by (auto simp: pred_def)
qed

subsection \<open>The representation\<close>

text \<open>
  \<open>fin\<close> is the end of a header's block; the static header takes its own sixteen bytes. The heap
  stays below \<open>2^36\<close>, so that no size wraps when blocks are joined.
\<close>

definition fin :: "nat \<Rightarrow> uheap \<Rightarrow> nat \<Rightarrow> nat" where
  "fin bse h a = (if a = bse then a + 16 else hplus a (h_size h a))"

definition rep :: "nat \<Rightarrow> nat set \<Rightarrow> uheap \<Rightarrow> bool" where
  "rep bse B h =
     (finite B \<and> bse \<in> B \<and> 0 < bse \<and> h_size h bse = 0 \<and> h_freep h \<in> B \<and>
      (\<forall>a\<in>B. bse \<le> a \<and> h_ptr h a = next_hdr B a \<and> fin bse h a < 2 ^ 36 \<and> (a \<noteq> bse \<longrightarrow> 0 < h_size h a)) \<and>
      (\<forall>a\<in>B. \<forall>b\<in>B. a < b \<longrightarrow> fin bse h a \<le> b))"

definition block :: "uheap \<Rightarrow> nat \<Rightarrow> nat set" where
  "block h a = {a..<hplus a (h_size h a)}"

definition region :: "nat \<Rightarrow> nat set \<Rightarrow> uheap \<Rightarrow> nat set" where
  "region bse B h = (\<Union>a\<in>B - {bse}. block h a)"

text \<open>A block that may be entered into the list.\<close>

definition fresh :: "nat \<Rightarrow> nat set \<Rightarrow> uheap \<Rightarrow> nat \<Rightarrow> bool" where
  "fresh bse B h x =
     (x \<notin> B \<and> bse < x \<and> 0 < h_size h x \<and> hplus x (h_size h x) < 2 ^ 36 \<and>
      (\<forall>a\<in>B. (a < x \<longrightarrow> fin bse h a \<le> x) \<and> (x < a \<longrightarrow> hplus x (h_size h x) \<le> a)))"

lemma repD:
  assumes "rep bse B h"
  shows "finite B" "bse \<in> B" "0 < bse" "h_size h bse = 0" "h_freep h \<in> B"
    "\<And>a. a \<in> B \<Longrightarrow> bse \<le> a" "\<And>a. a \<in> B \<Longrightarrow> h_ptr h a = next_hdr B a" "\<And>a. a \<in> B \<Longrightarrow> fin bse h a < 2 ^ 36"
    "\<And>a. a \<in> B \<Longrightarrow> a \<noteq> bse \<Longrightarrow> 0 < h_size h a" "\<And>a b. a \<in> B \<Longrightarrow> b \<in> B \<Longrightarrow> a < b \<Longrightarrow> fin bse h a \<le> b"
  using assms by (auto simp: rep_def)

lemma size_pos: "0 < (n :: u32) \<longleftrightarrow> 0 < unat n"
  by (simp add: word_less_nat_alt)

lemma fin_gt: "rep bse B h \<Longrightarrow> a \<in> B \<Longrightarrow> a < fin bse h a"
  using repD(9) [of bse B h a] by (auto simp: fin_def hplus_def size_pos)

lemma Min_rep: "rep bse B h \<Longrightarrow> Min B = bse"
  by (auto simp: rep_def intro: Min_eqI)

lemma rep_cong:
  assumes "rep bse B h" and "\<forall>a\<in>B. h_ptr h' a = h_ptr h a \<and> h_size h' a = h_size h a" and "h_freep h' \<in> B"
  shows "rep bse B h' \<and> region bse B h' = region bse B h"
proof -
  have "fin bse h' a = fin bse h a" "a \<in> B" if "a \<in> B" for a using assms(2) that by (auto simp: fin_def)
  with assms show ?thesis by (auto simp: rep_def region_def block_def)
qed

text \<open>Entering a block.\<close>

lemma next_hdr_insert:
  assumes r: "rep bse B h" and f: "x \<notin> B" "bse < x"
  shows "next_hdr (insert x B) x = next_hdr B (pred B x)" "next_hdr (insert x B) (pred B x) = x"
    "a \<in> B \<Longrightarrow> a \<noteq> pred B x \<Longrightarrow> next_hdr (insert x B) a = next_hdr B a"
proof -
  note p = pred_spec [OF repD(1,2) [OF r] f(2)]
  have ne: "B \<noteq> {}" and fin: "finite B" using repD(1,2) [OF r] by auto
  have m: "Min (insert x B) = bse" "Min B = bse"
    using Min_rep [OF r] fin ne f(2) by auto
  have gt: "pred B x < b \<Longrightarrow> b \<in> B \<Longrightarrow> x < b" for b
    using p(3) [of b] f(1) by (metis leD linorder_neqE_nat)
  show "next_hdr (insert x B) (pred B x) = x"
    by (rule next_hdr_up) (use fin p gt in \<open>auto intro: less_imp_le\<close>)
  show "next_hdr (insert x B) x = next_hdr B (pred B x)"
  proof (rule next_hdr_cases [OF fin ne, of "pred B x"])
    assume "pred B x < next_hdr B (pred B x)" "next_hdr B (pred B x) \<in> B" "\<forall>b\<in>B. pred B x < b \<longrightarrow> next_hdr B (pred B x) \<le> b"
    then show ?thesis by (intro next_hdr_up) (use fin gt p(2) in auto)
  next
    assume *: "next_hdr B (pred B x) = Min B" "\<forall>b\<in>B. b \<le> pred B x"
    then have "next_hdr (insert x B) x = Min (insert x B)" by (intro next_hdr_wrap) (use p(2) in auto)
    with * m show ?thesis by simp
  qed
  show "next_hdr (insert x B) a = next_hdr B a" if a: "a \<in> B" "a \<noteq> pred B x" for a
  proof (rule next_hdr_cases [OF fin ne, of a])
    assume *: "a < next_hdr B a" "next_hdr B a \<in> B" "\<forall>b\<in>B. a < b \<longrightarrow> next_hdr B a \<le> b"
    have "next_hdr B a \<le> x" if "a < x"
      using *(3) p(1) p(2) p(3) [OF a(1) that] a(2) by (meson le_neq_implies_less le_trans less_imp_le_nat)
    with * show ?thesis by (intro next_hdr_up) (use fin in auto)
  next
    assume *: "next_hdr B a = Min B" "\<forall>b\<in>B. b \<le> a"
    have "x \<le> a" using p a *(2) by (metis le_antisym linorder_le_cases nat_le_linear order_le_less)
    with * have "next_hdr (insert x B) a = Min (insert x B)" by (intro next_hdr_wrap) auto
    with * m show ?thesis by simp
  qed
qed

lemma link_rep:
  assumes r: "rep bse B h" and f: "fresh bse B h x"
  shows "rep bse (insert x B) (set_ptr (pred B x) x (set_ptr x (next_hdr B (pred B x)) h))"
    "region bse (insert x B) (set_ptr (pred B x) x (set_ptr x (next_hdr B (pred B x)) h)) = region bse B h \<union> block h x"
proof -
  have fx: "x \<notin> B" "bse < x" "0 < h_size h x" "hplus x (h_size h x) < 2 ^ 36" using f by (auto simp: fresh_def)
  note p = pred_spec [OF repD(1,2) [OF r] fx(2)] and n = next_hdr_insert [OF r fx(1,2)]
  let ?h = "set_ptr (pred B x) x (set_ptr x (next_hdr B (pred B x)) h)"
  have e: "fin bse ?h a = fin bse h a" for a by (simp add: fin_def)
  have ptr: "h_ptr ?h a = next_hdr (insert x B) a" if "a \<in> insert x B" for a
    using that n p(2) repD(7) [OF r] by auto
  have ord: "fin bse h a \<le> b" if "a \<in> insert x B" "b \<in> insert x B" "a < b" for a b
  proof -
    have "fin bse h x = hplus x (h_size h x)" using fx(2) by (simp add: fin_def)
    with that repD(10) [OF r, of a b] f show ?thesis by (auto simp: fresh_def)
  qed
  show "rep bse (insert x B) ?h"
    unfolding rep_def using ptr ord e repD(1-6,8,9) [OF r] fx by (auto simp: fin_def)
  show "region bse (insert x B) ?h = region bse B h \<union> block h x"
    using fx by (auto simp: region_def block_def)
qed

text \<open>Taking the header behind \<open>a\<close> out of the list.\<close>

lemma next_hdr_remove:
  assumes r: "rep bse B h" and a: "a \<in> B" "next_hdr B a \<noteq> bse"
  shows "a < next_hdr B a" "next_hdr B a \<in> B" "next_hdr (B - {next_hdr B a}) a = next_hdr B (next_hdr B a)"
    "b \<in> B \<Longrightarrow> b \<noteq> a \<Longrightarrow> b \<noteq> next_hdr B a \<Longrightarrow> next_hdr (B - {next_hdr B a}) b = next_hdr B b"
proof -
  let ?y = "next_hdr B a"
  have ne: "B \<noteq> {}" and fin: "finite B" using repD(1,2) [OF r] by auto
  have up: "a < ?y" "?y \<in> B" "\<forall>b\<in>B. a < b \<longrightarrow> ?y \<le> b"
    using a(2) Min_rep [OF r] by (metis (no_types, lifting) next_hdr_cases [OF fin ne])+
  then show "a < ?y" "?y \<in> B" by auto
  have B': "finite (B - {?y})" "bse \<in> B - {?y}" using fin repD(2) [OF r] a(2) by auto
  have m: "Min (B - {?y}) = bse" by (rule Min_eqI) (use B' repD(6) [OF r] in auto)
  show "next_hdr (B - {?y}) a = next_hdr B ?y"
  proof (rule next_hdr_cases [OF fin ne, of ?y])
    assume "?y < next_hdr B ?y" "next_hdr B ?y \<in> B" "\<forall>b\<in>B. ?y < b \<longrightarrow> next_hdr B ?y \<le> b"
    then show ?thesis by (intro next_hdr_up) (use B' up in \<open>auto simp: le_neq_implies_less\<close>)
  next
    assume *: "next_hdr B ?y = Min B" "\<forall>b\<in>B. b \<le> ?y"
    have "b \<le> a" if "b \<in> B" "b \<noteq> ?y" for b using *(2) up(3) that by (metis le_antisym not_le)
    then have "next_hdr (B - {?y}) a = Min (B - {?y})" by (intro next_hdr_wrap) auto
    with * m Min_rep [OF r] show ?thesis by simp
  qed
  show "next_hdr (B - {?y}) b = next_hdr B b" if b: "b \<in> B" "b \<noteq> a" "b \<noteq> ?y" for b
  proof (rule next_hdr_cases [OF fin ne, of b])
    assume *: "b < next_hdr B b" "next_hdr B b \<in> B" "\<forall>c\<in>B. b < c \<longrightarrow> next_hdr B b \<le> c"
    have "next_hdr B b \<noteq> ?y"
    proof
      assume e: "next_hdr B b = ?y"
      show False
      proof (cases "a < b")
        case True
        with up(3) b(1) have "?y \<le> b" by blast
        with * e show False by simp
      next
        case False
        with b(2) have "b < a" by simp
        with *(3) a(1) have "?y \<le> a" using e by auto
        with up(1) show False by simp
      qed
    qed
    with * show ?thesis by (intro next_hdr_up) (use B' in auto)
  next
    assume *: "next_hdr B b = Min B" "\<forall>c\<in>B. c \<le> b"
    then have "next_hdr (B - {?y}) b = Min (B - {?y})" by (intro next_hdr_wrap) auto
    with * m Min_rep [OF r] show ?thesis by simp
  qed
qed

lemma blocks_disjoint:
  assumes r: "rep bse B h" and a: "a \<in> B" "a \<noteq> bse" and b: "b \<in> B" "b \<noteq> bse" "a \<noteq> b"
  shows "block h a \<inter> block h b = {}"
  using repD(10) [OF r a(1) b(1)] repD(10) [OF r b(1) a(1)] a b
  by (cases "a < b") (auto simp: block_def fin_def)

lemma region_remove:
  "rep bse B h \<Longrightarrow> y \<in> B \<Longrightarrow> y \<noteq> bse \<Longrightarrow> region bse (B - {y}) h = region bse B h - block h y"
  using blocks_disjoint [of bse B h _ y] by (fastforce simp: region_def)

lemma unlink_rep:
  assumes r: "rep bse B h" and a: "a \<in> B" "next_hdr B a \<noteq> bse" and fp: "fp \<in> B - {next_hdr B a}"
    and h': "h' = (set_ptr a (h_ptr h (next_hdr B a)) h)\<lparr>h_freep := fp\<rparr>"
  shows "rep bse (B - {next_hdr B a}) h'"
    "region bse (B - {next_hdr B a}) h' = region bse B h - block h (next_hdr B a)"
proof -
  note n = next_hdr_remove [OF r a]
  have e: "fin bse h' b = fin bse h b" for b by (simp add: fin_def h')
  have ptr: "h_ptr h' b = next_hdr (B - {next_hdr B a}) b" if "b \<in> B - {next_hdr B a}" for b
    using that n(3,4) repD(7) [OF r] n(2) by (auto simp: h')
  show "rep bse (B - {next_hdr B a}) h'"
    unfolding rep_def e using ptr repD(1-6,8-10) [OF r] fp a by (auto simp: h')
  show "region bse (B - {next_hdr B a}) h' = region bse B h - block h (next_hdr B a)"
    using region_remove [OF r n(2) a(2)] by (simp add: region_def block_def h')
qed

text \<open>Changing the size of a block.\<close>

lemma resize_rep:
  assumes r: "rep bse B h" and a: "a \<in> B" "a \<noteq> bse" and n: "0 < n" "hplus a n < 2 ^ 36"
    and le: "\<forall>b\<in>B. a < b \<longrightarrow> hplus a n \<le> b"
  shows "rep bse B (set_size a n h)"
    "region bse B (set_size a n h) = (region bse B h - block h a) \<union> {a..<hplus a n}"
proof -
  have e: "fin bse (set_size a n h) b = (if b = a then hplus a n else fin bse h b)" for b
    using a(2) by (simp add: fin_def)
  show "rep bse B (set_size a n h)"
    unfolding rep_def e using repD [OF r] a n le by auto
  have "block (set_size a n h) b = (if b = a then {a..<hplus a n} else block h b)" for b
    by (simp add: block_def)
  then have "region bse B (set_size a n h) = region bse (B - {a}) h \<union> {a..<hplus a n}"
    unfolding region_def using a by (auto split: if_splits)
  then show "region bse B (set_size a n h) = (region bse B h - block h a) \<union> {a..<hplus a n}"
    using region_remove [OF r a] by simp
qed

text \<open>Joining a block with the one that begins at its end.\<close>

lemma hplus_add:
  assumes "hplus a n = y" and "hplus y m < 2 ^ 36"
  shows "hplus a (n + m) = hplus y m" "0 < n \<Longrightarrow> n \<le> n + m" "0 < n \<Longrightarrow> 0 < n + m"
proof -
  have "unat n + unat m < 2 ^ 32" using assms by (simp add: hplus_def)
  then have u: "unat (n + m) = unat n + unat m" by (intro iffD1 [OF unat_add_lem]) simp
  then show "hplus a (n + m) = hplus y m" using assms(1) by (simp add: hplus_def)
  show "0 < n \<Longrightarrow> n \<le> n + m" "0 < n \<Longrightarrow> 0 < n + m" using u by (simp_all add: word_le_nat_alt size_pos)
qed

lemma join_rep:
  assumes r: "rep bse B h" and a: "a \<in> B" "a \<noteq> bse" "hplus a (h_size h a) = next_hdr B a"
    and fp: "fp \<in> B - {next_hdr B a}"
    and h': "h' = (set_size a (h_size h a + h_size h (next_hdr B a)) (set_ptr a (h_ptr h (next_hdr B a)) h))\<lparr>h_freep := fp\<rparr>"
  shows "rep bse (B - {next_hdr B a}) h'" "region bse (B - {next_hdr B a}) h' = region bse B h"
    "h_size h a \<le> h_size h' a" "h_size h (next_hdr B a) \<le> h_size h' a"
proof -
  let ?y = "next_hdr B a"
  have pos: "0 < h_size h a" using repD(9) [OF r] a by blast
  have ny: "?y \<noteq> bse" using a(3) pos repD(6) [OF r a(1)] by (auto simp: hplus_def size_pos)
  note n = next_hdr_remove [OF r a(1) ny] and u = unlink_rep [OF r a(1) ny fp refl]
  have lim: "hplus ?y (h_size h ?y) < 2 ^ 36" using repD(8) [OF r n(2)] ny by (simp add: fin_def)
  note s = hplus_add [OF a(3) lim]
  have s2: "h_size h ?y \<le> h_size h a + h_size h ?y"
    using hplus_add(2) [of a "h_size h a" ?y] s(1) a(3) lim
    by (simp add: hplus_def word_le_nat_alt)
  let ?g = "(set_ptr a (h_ptr h ?y) h)\<lparr>h_freep := fp\<rparr>"
  have ab: "a \<in> B - {?y}" using a(1) n(1) by auto
  have le: "\<forall>b\<in>B - {?y}. a < b \<longrightarrow> hplus a (h_size h a + h_size h ?y) \<le> b"
  proof (intro ballI impI)
    fix b assume b: "b \<in> B - {?y}" "a < b"
    then have "fin bse h a \<le> b" using repD(10) [OF r a(1)] by blast
    then have "?y < b" using a b by (auto simp: fin_def)
    then show "hplus a (h_size h a + h_size h ?y) \<le> b"
      using repD(10) [OF r n(2), of b] b ny s(1) by (auto simp: fin_def)
  qed
  note z = resize_rep [OF u(1) ab a(2) s(3) [OF pos], unfolded s(1), OF lim le [unfolded s(1)]]
  have g: "h' = set_size a (h_size h a + h_size h ?y) ?g" unfolding h' by (simp add: set_size_def set_ptr_def)
  show "rep bse (B - {?y}) h'" using z(1) g by simp
  have "block ?g a = {a..<?y}" using a(3) by (simp add: block_def)
  then have "region bse (B - {?y}) h' = (region bse B h - block h ?y - {a..<?y}) \<union> {a..<hplus ?y (h_size h ?y)}"
    using z(2) u(2) g by simp
  moreover have "{a..<hplus ?y (h_size h ?y)} = {a..<?y} \<union> block h ?y"
    using n(1) by (auto simp: block_def hplus_def)
  moreover have "{a..<?y} \<subseteq> region bse B h" "block h ?y \<subseteq> region bse B h"
    using a n(2) ny by (auto simp: region_def block_def)
  ultimately show "region bse (B - {?y}) h' = region bse B h" by auto
  show "h_size h a \<le> h_size h' a" "h_size h ?y \<le> h_size h' a" using s(2) pos s2 by (simp_all add: h')
qed

lemma join_rep_at:
  assumes r: "rep bse B h" and a: "a \<in> B" "a \<noteq> bse" "hplus a (h_size h a) = y" "next_hdr B a = y"
    and h': "\<forall>b\<in>B - {y}. h_ptr h' b = (if b = a then next_hdr B y else h_ptr h b) \<and>
        h_size h' b = (if b = a then h_size h a + h_size h y else h_size h b)"
    and fp: "h_freep h' \<in> B - {y}"
  shows "rep bse (B - {y}) h' \<and> region bse (B - {y}) h' = region bse B h \<and>
     h_size h a \<le> h_size h' a \<and> h_size h y \<le> h_size h' a"
proof -
  let ?g = "(set_size a (h_size h a + h_size h y) (set_ptr a (h_ptr h y) h))\<lparr>h_freep := h_freep h'\<rparr>"
  have yB: "y \<in> B" using next_hdr_in [of B a] repD(1,2) [OF r] a(4) by blast
  have "a \<noteq> y" using repD(9) [OF r a(1,2)] a(3) by (auto simp: hplus_def size_pos)
  note j = join_rep [OF r a(1,2) a(3) [folded a(4)] fp [folded a(4)] refl, unfolded a(4)]
  have "\<forall>b\<in>B - {y}. h_ptr h' b = h_ptr ?g b \<and> h_size h' b = h_size ?g b"
    using h' repD(7) [OF r yB] by auto
  from rep_cong [OF j(1) this fp] j(2-4) h' a(1) \<open>a \<noteq> y\<close> show ?thesis by auto
qed

lemma link_rep_at:
  assumes r: "rep bse B h" and f: "fresh bse B h x" and p: "p = pred B x"
    and h': "\<forall>b\<in>insert x B. h_ptr h' b = (if b = p then x else if b = x then next_hdr B p else h_ptr h b) \<and>
        h_size h' b = h_size h b"
    and fp: "h_freep h' \<in> insert x B"
  shows "rep bse (insert x B) h' \<and> region bse (insert x B) h' = region bse B h \<union> block h x"
proof -
  note l = link_rep [OF r f, folded p]
  have "\<forall>b\<in>insert x B. h_ptr h' b = h_ptr (set_ptr p x (set_ptr x (next_hdr B p) h)) b \<and>
      h_size h' b = h_size (set_ptr p x (set_ptr x (next_hdr B p) h)) b"
    using h' by auto
  from rep_cong [OF l(1) this fp] l(2) show ?thesis by auto
qed

subsection \<open>free\<close>

lemma free_find_pred:
  assumes r: "rep bse B h" and x: "x \<notin> B" "bse < x" and p: "p \<in> B"
  shows "free_find h x p = Some (pred B x)"
proof -
  note pr = pred_spec [OF repD(1,2) [OF r] x(2)]
  have ne: "B \<noteq> {}" and fin: "finite B" using repD(1,2) [OF r] by auto
  note m = Min_rep [OF r]
  from fin pr(1) p show ?thesis
  proof (induction rule: walk_induct)
    case target
    have "x < next_hdr B (pred B x) \<or> next_hdr B (pred B x) \<le> pred B x"
    proof (rule next_hdr_cases [OF fin ne, of "pred B x"])
      assume "pred B x < next_hdr B (pred B x)" "next_hdr B (pred B x) \<in> B"
      then show ?thesis using pr(3) x(1) by (metis leD linorder_neqE_nat)
    next
      assume "next_hdr B (pred B x) = Min B"
      then show ?thesis using m repD(6) [OF r pr(1)] by simp
    qed
    then show ?case using pr(2) repD(7) [OF r pr(1)] by (subst free_find.simps) auto
  next
    case (step a)
    have "\<not> (a < x \<and> x < next_hdr B a)" "\<not> (next_hdr B a \<le> a \<and> (a < x \<or> x < next_hdr B a))"
    proof -
      have 1: "next_hdr B a < x \<and> a < next_hdr B a" if "a < x"
      proof -
        from pr(3) [OF step(1) that] step(2) have "a < pred B x" by simp
        then show ?thesis using next_hdr_le [OF fin pr(1)] pr(2) by fastforce
      qed
      then show "\<not> (a < x \<and> x < next_hdr B a)" by auto
      have "next_hdr B a = bse" if "next_hdr B a \<le> a"
        using that m by (auto intro: next_hdr_cases [OF fin ne, of a])
      with 1 x(2) show "\<not> (next_hdr B a \<le> a \<and> (a < x \<or> x < next_hdr B a))" by force
    qed
    with step(3) repD(7) [OF r step(1)] show ?case by (subst free_find.simps) auto
  qed
qed

text \<open>
  The four cases of \<open>free\<close>: the new block is entered, and joined with its successor and its
  predecessor where they touch.
\<close>

definition freed :: "nat \<Rightarrow> nat set \<Rightarrow> uheap \<Rightarrow> nat \<Rightarrow> nat set \<Rightarrow> uheap \<Rightarrow> bool" where
  "freed bse B h x B' h' =
     (rep bse B' h' \<and> region bse B' h' = region bse B h \<union> block h x \<and>
      (h_size h x \<le> h_size h' (h_freep h') \<or> h_size h x \<le> h_size h' (next_hdr B' (h_freep h'))))"

text \<open>The first half of \<open>free\<close>: the block is linked in, joined with its successor if they touch.\<close>

definition free_next :: "nat \<Rightarrow> nat \<Rightarrow> uheap \<Rightarrow> uheap" where
  "free_next y x h =
     (if hplus x (h_size h x) = y then set_ptr x (h_ptr h y) (set_size x (h_size h x + h_size h y) h)
      else set_ptr x y h)"

lemma free_next_rep:
  assumes r: "rep bse B h" and f: "fresh bse B h x" and p: "p = pred B x"
    and h2: "h2 = (set_ptr p x (free_next (next_hdr B p) x h))\<lparr>h_freep := p\<rparr>"
  shows "\<exists>B2. rep bse B2 h2 \<and> region bse B2 h2 = region bse B h \<union> block h x \<and> h_size h x \<le> h_size h2 x \<and>
     p \<in> B2 \<and> x \<in> B2"
proof -
  define y where "y = next_hdr B p"
  have fx: "x \<notin> B" "bse < x" "0 < h_size h x" using f by (auto simp: fresh_def)
  note pr = pred_spec [OF repD(1,2) [OF r] fx(2), folded p]
  note n = next_hdr_insert [OF r fx(1,2), folded p, folded y_def]
  have yB: "y \<in> B" using next_hdr_in [of B p] repD(1,2) [OF r] by (auto simp: y_def)
  have ne: "p \<noteq> x" "x \<noteq> y" using fx yB pr(2) by auto
  let ?h1 = "(set_ptr p x (set_ptr x y h))\<lparr>h_freep := p\<rparr>" and ?B1 = "insert x B"
  have l: "rep bse ?B1 ?h1" "region bse ?B1 ?h1 = region bse B h \<union> block h x"
    using link_rep_at [OF r f p, of ?h1] pr(1) ne by (auto simp: y_def)
  show ?thesis
  proof (cases "hplus x (h_size h x) = y")
    case True
    then have xy: "x < y" "p \<noteq> y" using fx(3) pr(2) by (auto simp: hplus_def size_pos)
    have y1: "next_hdr ?B1 y = h_ptr h y" using n(3) [OF yB] xy(2) repD(7) [OF r yB] by simp
    have "rep bse (?B1 - {y}) h2 \<and> region bse (?B1 - {y}) h2 = region bse ?B1 ?h1 \<and>
        h_size ?h1 x \<le> h_size h2 x \<and> h_size ?h1 y \<le> h_size h2 x"
      by (rule join_rep_at [OF l(1) insertI1])
        (use True fx ne xy n pr y1 in \<open>auto simp: h2 free_next_def y_def [symmetric]\<close>)
    then show ?thesis using l(2) pr(1) xy ne by (intro exI [of _ "?B1 - {y}"]) auto
  next
    case False
    then have "h2 = ?h1" by (simp add: h2 free_next_def y_def [symmetric])
    with l pr(1) show ?thesis by (intro exI [of _ ?B1]) auto
  qed
qed

lemma free_join_freed:
  assumes r: "rep bse B h" and f: "fresh bse B h x"
  shows "\<exists>B'. freed bse B h x B' (free_join (pred B x) x h)"
proof -
  define p where "p = pred B x"
  have fx: "x \<notin> B" "bse < x" using f by (auto simp: fresh_def)
  note pr = pred_spec [OF repD(1,2) [OF r] fx(2), folded p_def]
  have ne: "p \<noteq> x" using pr(2) by simp
  define h1 where "h1 = free_next (next_hdr B p) x h"
  let ?h2 = "(set_ptr p x h1)\<lparr>h_freep := p\<rparr>" and ?h3 = "free_join p x h"
  obtain B2 where s2: "rep bse B2 ?h2" "region bse B2 ?h2 = region bse B h \<union> block h x" "h_size h x \<le> h_size h1 x"
    and b2: "p \<in> B2" "x \<in> B2" using free_next_rep [OF r f p_def refl] by (auto simp: h1_def)
  have nx: "next_hdr B2 p = x" "next_hdr B2 x = h_ptr h1 x"
    using repD(7) [OF s2(1) b2(1)] repD(7) [OF s2(1) b2(2)] ne by simp_all
  have sp: "h_size h1 p = h_size h p" using ne by (simp add: h1_def free_next_def)
  have jn: "?h3 = (if hplus p (h_size h1 p) = x
       then set_ptr p (h_ptr h1 x) (set_size p (h_size h1 p + h_size h1 x) h1) else set_ptr p x h1)\<lparr>h_freep := p\<rparr>"
    using repD(7) [OF r pr(1)] by (simp add: free_join_def Let_def h1_def free_next_def)
  show ?thesis
  proof (cases "hplus p (h_size h1 p) = x")
    case True
    then have "p \<noteq> bse" using fx(2) repD(4) [OF r] sp by (auto simp: hplus_def)
    then have "rep bse (B2 - {x}) ?h3 \<and> region bse (B2 - {x}) ?h3 = region bse B2 ?h2 \<and>
        h_size ?h2 p \<le> h_size ?h3 p \<and> h_size ?h2 x \<le> h_size ?h3 p"
      by (intro join_rep_at [OF s2(1) b2(1)]) (use True sp nx b2 ne in \<open>auto simp: jn\<close>)
    moreover have "h_freep ?h3 = p" by (simp add: jn)
    ultimately have "freed bse B h x (B2 - {x}) ?h3" using s2 by (auto simp: freed_def)
    then show ?thesis unfolding p_def by blast
  next
    case False
    then have "?h3 = ?h2" by (simp add: jn)
    then have "freed bse B h x B2 ?h3" using s2 nx by (auto simp: freed_def)
    then show ?thesis unfolding p_def by blast
  qed
qed

lemma free_spec:
  assumes r: "rep bse B h" and f: "fresh bse B h x"
  shows "\<exists>B' h'. free (x + 16) h = Some h' \<and> freed bse B h x B' h'"
proof -
  have fx: "x \<notin> B" "bse < x" using f by (auto simp: fresh_def)
  from free_find_pred [OF r fx repD(5) [OF r]] have "free (x + 16) h = Some (free_join (pred B x) x h)"
    by (simp add: free_def)
  with free_join_freed [OF r f] show ?thesis by blast
qed

subsection \<open>malloc\<close>

text \<open>The block at \<open>q\<close> of \<open>n\<close> units has been taken out of the free memory.\<close>

definition taken :: "nat \<Rightarrow> nat set \<Rightarrow> u32 \<Rightarrow> nat \<Rightarrow> uheap \<Rightarrow> bool" where
  "taken bse R n q h' =
     (\<exists>B'. rep bse B' h' \<and> fresh bse B' h' q \<and> h_size h' q = n \<and> block h' q \<subseteq> R \<and>
        region bse B' h' = R - block h' q)"

lemma take_exact:
  assumes r: "rep bse B h" and p: "prevp \<in> B" "p = next_hdr B prevp" and n: "0 < n" "h_size h p = n"
  shows "taken bse (region bse B h) n p ((set_ptr prevp (h_ptr h p) h)\<lparr>h_freep := prevp\<rparr>)"
proof -
  have nb: "next_hdr B prevp \<noteq> bse" using n p(2) repD(4) [OF r] by auto
  note x = next_hdr_remove [OF r p(1) nb, folded p(2)]
  have "prevp \<in> B - {p}" using p(1) x(1) by auto
  note u = unlink_rep [OF r p(1) nb, folded p(2), OF this refl]
  let ?h = "(set_ptr prevp (h_ptr h p) h)\<lparr>h_freep := prevp\<rparr>"
  have fin: "fin bse ?h a = fin bse h a" for a by (simp add: fin_def)
  have "fin bse h p = hplus p n" using nb p(2) n(2) by (simp add: fin_def)
  then have "fresh bse (B - {p}) ?h p"
    unfolding fresh_def fin
    using repD(6) [OF r x(2)] repD(8) [OF r x(2)] repD(10) [OF r _ x(2)] repD(10) [OF r x(2)] nb p(2) n
    by (auto simp: le_neq_implies_less)
  with u n x(2) nb p(2) show ?thesis
    unfolding taken_def by (intro exI [of _ "B - {p}"]) (auto simp: region_def block_def)
qed

lemma take_split:
  assumes r: "rep bse B h" and p: "prevp \<in> B" "p \<in> B" and n: "0 < n" "n < h_size h p"
    and q: "q = hplus p (h_size h p - n)"
  shows "taken bse (region bse B h) n q ((set_size q n (set_size p (h_size h p - n) h))\<lparr>h_freep := prevp\<rparr>)"
proof -
  have nb: "p \<noteq> bse" using n repD(4) [OF r] by auto
  define m where "m = h_size h p - n"
  have um: "unat (h_size h p) = unat m + unat n" "0 < unat n" "0 < unat m"
    using n by (simp_all add: m_def unat_sub word_le_nat_alt word_less_nat_alt less_imp_le)
  have fp: "fin bse h p = hplus p (h_size h p)" using nb by (simp add: fin_def)
  then have e: "fin bse h p = q + 16 * unat n" "p < q" using um q by (simp_all add: hplus_def m_def [symmetric])
  have after: "\<forall>b\<in>B. p < b \<longrightarrow> q + 16 * unat n \<le> b" using repD(10) [OF r p(2)] e by auto
  have lim: "q + 16 * unat n < 2 ^ 36" using repD(8) [OF r p(2)] e by simp
  have hq: "hplus p m = q" using q by (simp add: m_def)
  have z: "rep bse B (set_size p m h)" "region bse B (set_size p m h) = (region bse B h - block h p) \<union> {p..<q}"
  proof -
    have "\<forall>b\<in>B. p < b \<longrightarrow> hplus p m \<le> b" "hplus p m < 2 ^ 36" "0 < m"
      using after lim hq um(3) by (auto simp: size_pos)
    from resize_rep [OF r p(2) nb this(3,2,1)] show "rep bse B (set_size p m h)"
      "region bse B (set_size p m h) = (region bse B h - block h p) \<union> {p..<q}" using hq by simp_all
  qed
  have qB: "q \<notin> B" using after e um(2) by force
  let ?h = "(set_size q n (set_size p m h))\<lparr>h_freep := prevp\<rparr>"
  have c: "rep bse B ?h" "region bse B ?h = region bse B (set_size p m h)"
    using rep_cong [OF z(1), of ?h] qB p(1) by auto
  have bq: "block ?h q = {q..<q + 16 * unat n}" by (simp add: block_def hplus_def)
  have bp: "block h p = {p..<q} \<union> {q..<q + 16 * unat n}" using fp e by (auto simp: block_def)
  have "fin bse ?h a \<le> q" if "a \<in> B" "a < q" for a
  proof (cases "a = p")
    case True
    with nb qB p(2) hq show ?thesis by (auto simp: fin_def)
  next
    case False
    with that after have "a < p" using e(2) by (metis le_add1 le_trans linorder_neqE_nat not_le)
    then have "fin bse h a \<le> p" using repD(10) [OF r that(1) p(2)] by blast
    moreover have "fin bse ?h a = fin bse h a" using False that by (simp add: fin_def)
    ultimately show ?thesis using e(2) by simp
  qed
  then have fr: "fresh bse B ?h q"
    unfolding fresh_def using qB repD(6) [OF r p(2)] e after lim n(1) p(2)
    by (auto simp: hplus_def)
  have "{p..<q} \<inter> {q..<q + 16 * unat n} = {}" "block h p \<subseteq> region bse B h"
    using p(2) nb by (auto simp: region_def)
  with c z(2) bq bp have "block ?h q \<subseteq> region bse B h" "region bse B ?h = region bse B h - block ?h q" by auto
  with c fr show ?thesis
    unfolding taken_def m_def [symmetric] by (intro exI [of _ B]) simp
qed

lemma take_block_taken:
  assumes r: "rep bse B h" and p: "prevp \<in> B" "p = next_hdr B prevp" and n: "0 < n" "n \<le> h_size h p"
  shows "\<exists>q h'. take_block n prevp p h = (q + 16, h') \<and> taken bse (region bse B h) n q h'"
proof (cases "h_size h p = n")
  case True
  with take_exact [OF r p n(1) True] show ?thesis by (auto simp: take_block_def)
next
  case False
  then have "n < h_size h p" using n(2) by simp
  moreover have "p \<in> B" using next_hdr_in [of B prevp] repD(1,2) [OF r] p(2) by blast
  ultimately show ?thesis
    using take_split [OF r p(1) _ n(1) _ refl] False by (auto simp: take_block_def Let_def)
qed

text \<open>One turn around the list: a block that is large enough is taken, or more memory is asked for.\<close>

lemma malloc_loop_turn:
  assumes r: "rep bse B h" and n: "0 < n" and p: "prevp \<in> B" "p = next_hdr B prevp"
  shows "(\<exists>q h'. malloc_loop sbrk n prevp p h k = Some (q + 16, h', k) \<and> taken bse (region bse B h) n q h') \<or>
     \<not> n \<le> h_size h (h_freep h) \<and>
     malloc_loop sbrk n prevp p h k =
       Option.bind (morecore sbrk n h k) (\<lambda>(p, h, k).
         if p = 0 then Some (0, h, k) else malloc_loop sbrk n p (h_ptr h p) h k)"
    (is "?R prevp p")
proof -
  have pB: "p \<in> B" using next_hdr_in [of B prevp] repD(1,2) [OF r] p(2) by blast
  have fit: "\<exists>q h'. malloc_loop sbrk n prevp p h k = Some (q + 16, h', k) \<and> taken bse (region bse B h) n q h'"
    if "n \<le> h_size h p" "prevp \<in> B" "p = next_hdr B prevp" for prevp p
    using take_block_taken [OF r that(2,3) n that(1)] that(1) by (subst malloc_loop.simps) auto
  from repD(1,5) [OF r] pB have "\<forall>prevp\<in>B. p = next_hdr B prevp \<longrightarrow> ?R prevp p"
  proof (induction rule: walk_induct)
    case target
    show ?case
    proof (intro ballI impI)
      fix prevp assume p: "prevp \<in> B" "h_freep h = next_hdr B prevp"
      show "?R prevp (h_freep h)"
      proof (cases "n \<le> h_size h (h_freep h)")
        case False
        then show ?thesis by (subst (2) malloc_loop.simps) simp
      qed (use fit p in blast)
    qed
  next
    case (step a)
    show ?case
    proof (intro ballI impI)
      fix prevp assume p: "prevp \<in> B" "a = next_hdr B prevp"
      show "?R prevp a"
      proof (cases "n \<le> h_size h a")
        case False
        then have "malloc_loop sbrk n prevp a h k = malloc_loop sbrk n a (next_hdr B a) h k"
          using step(2) repD(7) [OF r step(1)] by (subst malloc_loop.simps) simp
        then show ?thesis using step(1,3) by simp
      qed (use fit p in blast)
    qed
  qed
  with p show ?thesis by blast
qed

text \<open>
  What \<open>sbrk\<close> promises for a request of \<open>n\<close> bytes: it fails, or the new memory begins behind
  everything the allocator has and ends below the limit.
\<close>

definition new_mem :: "(u64 \<Rightarrow> 'k \<Rightarrow> u64 \<times> 'k) \<Rightarrow> nat \<Rightarrow> 'k \<Rightarrow> nat set" where
  "new_mem sbrk n k = (let q = fst (sbrk (of_nat n) k) in if q = -1 then {} else {unat q..<unat q + n})"

definition sbrk_ok :: "nat \<Rightarrow> nat set \<Rightarrow> uheap \<Rightarrow> (u64 \<Rightarrow> 'k \<Rightarrow> u64 \<times> 'k) \<Rightarrow> nat \<Rightarrow> 'k \<Rightarrow> bool" where
  "sbrk_ok bse B h sbrk n k =
     (let q = fst (sbrk (of_nat n) k)
      in q = -1 \<or> (\<forall>a\<in>B. fin bse h a \<le> unat q) \<and> unat q + n < 2 ^ 36)"

text \<open>The number of bytes \<open>morecore\<close> asks for.\<close>

definition request :: "u32 \<Rightarrow> nat" where
  "request nu = 16 * unat (max nu 4096)"

lemma unat_ucast_32: "unat (ucast (w :: u32) :: u64) = unat w"
  using unsigned_less [of w, where 'a = nat] by (simp add: unsigned_ucast_eq take_bit_nat_eq_self)

lemma morecore_spec:
  assumes r: "rep bse B h" and s: "sbrk_ok bse B h sbrk (request n) k"
  shows "\<exists>k'. morecore sbrk n h k = Some (0, h, k') \<or>
     (\<exists>h' B'. morecore sbrk n h k = Some (h_freep h', h', k') \<and> rep bse B' h' \<and>
        region bse B' h' = region bse B h \<union> new_mem sbrk (request n) k \<and>
        (n \<le> h_size h' (h_freep h') \<or> n \<le> h_size h' (next_hdr B' (h_freep h'))))"
proof -
  define nu where "nu = max n 4096"
  have nu: "(if n < 4096 then 4096 else n) = nu" "n \<le> nu" "0 < nu"
    by (auto simp: nu_def less_max_iff_disj)
  have arg: "(ucast nu * 16 :: u64) = of_nat (request n)"
  proof -
    have "of_nat (unat nu) = (ucast nu :: u64)" unfolding unat_ucast_32 [symmetric] by simp
    then show ?thesis by (simp add: request_def nu_def mult.commute)
  qed
  obtain q k' where q: "sbrk (of_nat (request n)) k = (q, k')" by fastforce
  show ?thesis
  proof (cases "q = -1")
    case True
    then have "morecore sbrk n h k = Some (0, h, k')" using q nu(1) arg by (simp add: morecore_def Let_def)
    then show ?thesis by blast
  next
    case False
    let ?q = "unat q" and ?h = "set_size (unat q) nu h"
    have s': "\<forall>a\<in>B. fin bse h a \<le> ?q" "?q + request n < 2 ^ 36"
      using s q False by (auto simp: sbrk_ok_def)
    then have lt: "a < ?q" if "a \<in> B" for a using fin_gt [OF r that] that by force
    have hp: "hplus ?q nu = ?q + request n" by (simp add: hplus_def request_def nu_def)
    have r1: "rep bse B ?h" "region bse B ?h = region bse B h"
    proof -
      have "\<forall>a\<in>B. h_ptr ?h a = h_ptr h a \<and> h_size ?h a = h_size h a" using lt by fastforce
      from rep_cong [OF r this] show "rep bse B ?h" "region bse B ?h = region bse B h"
        using repD(5) [OF r] by simp_all
    qed
    have "fin bse ?h a = fin bse h a" if "a \<in> B" for a using lt [OF that] by (simp add: fin_def)
    then have "fresh bse B ?h ?q"
      unfolding fresh_def using s' lt nu(3) hp repD(2) [OF r] by (auto dest: less_not_sym)
    from free_spec [OF r1(1) this] obtain B' h' where f: "free (?q + 16) ?h = Some h'" "freed bse B ?h ?q B' h'"
      by blast
    have "block ?h ?q = new_mem sbrk (request n) k" using q False hp by (simp add: block_def new_mem_def)
    with f r1(2) nu(2) have
      "rep bse B' h' \<and> region bse B' h' = region bse B h \<union> new_mem sbrk (request n) k \<and>
        (n \<le> h_size h' (h_freep h') \<or> n \<le> h_size h' (next_hdr B' (h_freep h')))"
      by (auto simp: freed_def)
    moreover have "morecore sbrk n h k = Some (h_freep h', h', k')"
      using f(1) q False nu(1) arg by (simp add: morecore_def Let_def)
    ultimately show ?thesis by blast
  qed
qed

lemma malloc_loop_spec:
  assumes r: "rep bse B h" and n: "0 < n" and s: "sbrk_ok bse B h sbrk (request n) k"
  shows "\<exists>r h' k'. malloc_loop sbrk n (h_freep h) (next_hdr B (h_freep h)) h k = Some (r, h', k') \<and>
     (r = 0 \<and> h' = h \<or>
      (\<exists>q R. r = q + 16 \<and> (R = region bse B h \<or> R = region bse B h \<union> new_mem sbrk (request n) k) \<and>
         taken bse R n q h'))"
proof -
  let ?loop = "malloc_loop sbrk n (h_freep h) (next_hdr B (h_freep h)) h k"
  consider (fit) q h' where "?loop = Some (q + 16, h', k)" "taken bse (region bse B h) n q h'"
    | (more) "?loop = Option.bind (morecore sbrk n h k) (\<lambda>(p, h, k).
         if p = 0 then Some (0, h, k) else malloc_loop sbrk n p (h_ptr h p) h k)"
    using malloc_loop_turn [OF r n repD(5) [OF r] refl, of sbrk k] by blast
  then show ?thesis
  proof cases
    case fit
    then show ?thesis by auto
  next
    case more
    from morecore_spec [OF r s] obtain k' where
      "morecore sbrk n h k = Some (0, h, k') \<or>
       (\<exists>h' B'. morecore sbrk n h k = Some (h_freep h', h', k') \<and> rep bse B' h' \<and>
         region bse B' h' = region bse B h \<union> new_mem sbrk (request n) k \<and>
         (n \<le> h_size h' (h_freep h') \<or> n \<le> h_size h' (next_hdr B' (h_freep h'))))" by blast
    then show ?thesis
    proof
      assume "morecore sbrk n h k = Some (0, h, k')"
      then show ?thesis using more by simp
    next
      assume "\<exists>h' B'. morecore sbrk n h k = Some (h_freep h', h', k') \<and> rep bse B' h' \<and>
         region bse B' h' = region bse B h \<union> new_mem sbrk (request n) k \<and>
         (n \<le> h_size h' (h_freep h') \<or> n \<le> h_size h' (next_hdr B' (h_freep h')))"
      then obtain h1 B1 where h1: "morecore sbrk n h k = Some (h_freep h1, h1, k')" "rep bse B1 h1"
        "region bse B1 h1 = region bse B h \<union> new_mem sbrk (request n) k"
        "n \<le> h_size h1 (h_freep h1) \<or> n \<le> h_size h1 (next_hdr B1 (h_freep h1))" by blast
      have fp: "h_freep h1 \<in> B1" "h_freep h1 \<noteq> 0" using repD(3,5,6) [OF h1(2)] by force+
      obtain q h' where "malloc_loop sbrk n (h_freep h1) (next_hdr B1 (h_freep h1)) h1 k' = Some (q + 16, h', k')"
        "taken bse (region bse B1 h1) n q h'"
      proof (cases "n \<le> h_size h1 (h_freep h1)")
        case True
        with malloc_loop_turn [OF h1(2) n fp(1) refl, of sbrk k'] that show ?thesis by blast
      next
        case False
        with h1(4) have "n \<le> h_size h1 (next_hdr B1 (h_freep h1))" by blast
        with take_block_taken [OF h1(2) fp(1) refl n this] that show ?thesis
          by (subst (asm) malloc_loop.simps) auto
      qed
      then show ?thesis
        using more h1(1,3) fp repD(7) [OF h1(2) fp(1)] by auto
    qed
  qed
qed

lemma nunits_of_spec: "0 < nunits_of nbytes" "16 + unat nbytes \<le> 16 * unat (nunits_of nbytes)"
proof -
  have nb: "unat nbytes < 2 ^ 32" using unsigned_less [of nbytes, where 'a = nat] by simp
  have b: "unat (ucast nbytes + 16 - 1 :: u64) = unat nbytes + 15"
  proof -
    have "ucast nbytes + 16 - 1 = (ucast nbytes + 15 :: u64)" by simp
    also have "unat (ucast nbytes + 15 :: u64) = unat (ucast nbytes :: u64) + unat (15 :: u64)"
      by (rule unat_add_small) (use nb in \<open>simp add: unat_ucast_32\<close>)
    finally show ?thesis by (simp add: unat_ucast_32)
  qed
  have d: "unat ((ucast nbytes + 16 - 1 :: u64) div 16) = (unat nbytes + 15) div 16"
    using b by (simp add: unat_div_distrib)
  moreover have lt: "(unat nbytes + 15) div 16 + 1 < 2 ^ 32" using nb by simp
  ultimately have "unat ((ucast nbytes + 16 - 1 :: u64) div 16 + 1) = (unat nbytes + 15) div 16 + 1"
    by (subst unat_add_small) simp_all
  then have u: "unat (nunits_of nbytes) = (unat nbytes + 15) div 16 + 1"
    using lt by (simp add: nunits_of_def unsigned_ucast_eq take_bit_nat_eq_self)
  then show "0 < nunits_of nbytes" "16 + unat nbytes \<le> 16 * unat (nunits_of nbytes)"
    by (simp_all add: size_pos)
qed

text \<open>A heap that has been used before, or one that no call has touched yet.\<close>

definition heap_ok :: "nat \<Rightarrow> nat set \<Rightarrow> uheap \<Rightarrow> bool" where
  "heap_ok bse B h =
     (if h_freep h = 0 then B = {bse} \<and> 0 < bse \<and> bse + 16 < 2 ^ 36 else rep bse B h)"

lemma rep_first: "0 < bse \<Longrightarrow> bse + 16 < 2 ^ 36 \<Longrightarrow> rep bse {bse} (set_size bse 0 (set_ptr bse bse h)\<lparr>h_freep := bse\<rparr>)"
  by (simp add: rep_def fin_def next_hdr_def set_size_def set_ptr_def)

lemma region_first [simp]: "region bse {bse} h = {}"
  by (simp add: region_def)

text \<open>
  The pointer \<open>r\<close> has been handed out of the memory \<open>R\<close>: the requested bytes lie in its block, the
  block was part of \<open>R\<close>, the free memory is the rest of \<open>R\<close>, and \<open>free\<close> makes it all of \<open>R\<close> again.
\<close>

definition handed_out :: "nat \<Rightarrow> nat set \<Rightarrow> nat \<Rightarrow> nat \<Rightarrow> uheap \<Rightarrow> bool" where
  "handed_out bse R n r h =
     ({r..<r + n} \<subseteq> block h (r - 16) \<and> block h (r - 16) \<subseteq> R \<and>
      (\<exists>B. rep bse B h \<and> region bse B h = R - block h (r - 16)) \<and>
      (\<exists>h' B'. free r h = Some h' \<and> rep bse B' h' \<and> region bse B' h' = R))"

lemma taken_handed_out:
  assumes "taken bse R m q h" and "16 + n \<le> 16 * unat m"
  shows "handed_out bse R n (q + 16) h"
proof -
  from assms(1) obtain B where t: "rep bse B h" "fresh bse B h q" "h_size h q = m"
    "block h q \<subseteq> R" "region bse B h = R - block h q" by (auto simp: taken_def)
  from free_spec [OF t(1,2)] obtain B' h' where
    "free (q + 16) h = Some h'" "rep bse B' h'" "region bse B' h' = region bse B h \<union> block h q"
    unfolding freed_def by blast
  moreover have "region bse B h \<union> block h q = R" using t(4,5) by auto
  moreover have "{q + 16..<q + 16 + n} \<subseteq> block h q"
    using assms(2) t(3) by (auto simp: block_def hplus_def)
  ultimately show ?thesis using t by (auto simp: handed_out_def)
qed

text \<open>
  C35. The user allocator hands out memory safely. On a well-formed heap, with an \<open>sbrk\<close> that fails or
  returns new memory, \<open>malloc\<close> returns. Either it returns null and the free memory is as before,
  or it returns the address behind a header whose block was free memory (or new memory), has at
  least the bytes asked for, and is no longer part of the free memory, so that it overlaps no block
  handed out later. Giving the block back with \<open>free\<close> also returns, and
  makes exactly its memory free again, whatever blocks it is joined with.
\<close>

theorem malloc_then_free:
  assumes ok: "heap_ok bse B h" and s: "sbrk_ok bse B h sbrk (request (nunits_of nbytes)) k"
  shows "\<exists>r h' k'. malloc bse sbrk nbytes h k = Some (r, h', k') \<and>
     (r = 0 \<and> heap_ok bse B h' \<and> region bse B h' = region bse B h \<or>
      handed_out bse (region bse B h) (unat nbytes) r h' \<or>
      handed_out bse (region bse B h \<union> new_mem sbrk (request (nunits_of nbytes)) k) (unat nbytes) r h')"
proof -
  define h0 where "h0 = (if h_freep h = 0 then set_size bse 0 (set_ptr bse bse h)\<lparr>h_freep := bse\<rparr> else h)"
  note n = nunits_of_spec [of nbytes]
  have r0: "rep bse B h0" "region bse B h0 = region bse B h"
    using ok rep_first [of bse h] by (auto simp: heap_ok_def h0_def)
  have "sbrk_ok bse B h0 sbrk (request (nunits_of nbytes)) k"
    using s ok by (auto simp: sbrk_ok_def h0_def heap_ok_def fin_def Let_def split: if_splits)
  from malloc_loop_spec [OF r0(1) n(1) this] obtain r h' k' where
    m: "malloc_loop sbrk (nunits_of nbytes) (h_freep h0) (next_hdr B (h_freep h0)) h0 k = Some (r, h', k')"
    and c: "r = 0 \<and> h' = h0 \<or> (\<exists>q R. r = q + 16 \<and>
      (R = region bse B h \<or> R = region bse B h \<union> new_mem sbrk (request (nunits_of nbytes)) k) \<and>
      taken bse R (nunits_of nbytes) q h')" unfolding r0(2) by blast
  have "malloc bse sbrk nbytes h k = Some (r, h', k')"
    using m repD(7) [OF r0(1) repD(5) [OF r0(1)]] by (simp add: malloc_def Let_def h0_def [symmetric])
  moreover have "heap_ok bse B h0" using r0(1) repD(3,5,6) [OF r0(1)] by (force simp: heap_ok_def)
  ultimately show ?thesis using c r0(2) taken_handed_out [OF _ n(2)] by metis
qed

definition demo_sbrk :: "u64 \<Rightarrow> u64 \<Rightarrow> u64 \<times> u64" where
  "demo_sbrk n brk = (brk, brk + n)"

definition empty_heap :: uheap where
  "empty_heap = \<lparr>h_ptr = (\<lambda>_. 0), h_size = (\<lambda>_. 0), h_freep = 0\<rparr>"

theorem malloc_then_free_witness:
  "heap_ok 4096 {4096} empty_heap \<and>
   (\<exists>r h' k'. malloc 4096 demo_sbrk 100 empty_heap 8192 = Some (r, h', k') \<and>
     (r = 0 \<or> handed_out 4096 {} 100 r h' \<or> handed_out 4096 {8192..<73728} 100 r h'))"
proof -
  have ok: "heap_ok 4096 {4096} empty_heap" by (simp add: heap_ok_def empty_heap_def)
  have n: "nunits_of 100 = 8" by (simp add: nunits_of_def)
  then have sb: "sbrk_ok 4096 {4096} empty_heap demo_sbrk (request (nunits_of 100)) 8192"
    by (simp add: sbrk_ok_def demo_sbrk_def fin_def request_def max_def)
  have "new_mem demo_sbrk (request (nunits_of 100)) 8192 = {8192..<73728}"
    using n by (simp add: new_mem_def demo_sbrk_def request_def max_def)
  with malloc_then_free [OF ok sb] ok show ?thesis by auto
qed

end
