(* ===== verification/Tools.thy ===== *)
theory Tools
  imports Ulib
begin

section \<open>User commands (cat.c, echo.c, wc.c, ls.c, ln.c, rm.c, mkdir.c, kill.c, init.c, zombie.c, forktest.c, stressfs.c)\<close>

text \<open>
  The small user programs as programs of system calls. \<open>argv\<close> is the argument list with the
  program's name first. A loop that ends when a read or a wait says so takes the number of its
  rounds as fuel.
\<close>

subsection \<open>cat\<close>

fun cat :: "nat \<Rightarrow> int \<Rightarrow> uprog \<Rightarrow> uprog" where
  "cat 0 fd k = Undef"
| "cat (Suc n) fd k =
     Call (URead fd 512) (\<lambda>r.
       if r_val r > 0
       then sys (UWrite 1 (r_bytes r)) (\<lambda>w.
              if w \<noteq> r_val r then printf 1 (nl ''cat: write error'') [] Exit else cat n fd k)
       else if r_val r < 0 then printf 1 (nl ''cat: read error'') [] Exit
       else k)"

fun cat_files :: "nat \<Rightarrow> u8 list list \<Rightarrow> uprog" where
  "cat_files n [] = Exit"
| "cat_files n (f # fs) =
     sys (UOpen f 0) (\<lambda>fd.
       if fd < 0 then printf 1 (nl ''cat: cannot open %s'') [str_arg f] Exit
       else cat n fd (sys (UClose fd) (\<lambda>_. cat_files n fs)))"

definition cat_main :: "nat \<Rightarrow> u8 list list \<Rightarrow> uprog" where
  "cat_main n argv = (if length argv \<le> 1 then cat n 0 Exit else cat_files n (tl argv))"

subsection \<open>echo\<close>

fun echo_args :: "u8 list list \<Rightarrow> uprog" where
  "echo_args [] = Exit"
| "echo_args (a # as) =
     printf 1 (cstr ''%s%s'') [str_arg a, str_arg (if as \<noteq> [] then [32] else [10])] (echo_args as)"

definition echo_main :: "u8 list list \<Rightarrow> uprog" where
  "echo_main argv = echo_args (tl argv)"

subsection \<open>wc\<close>

text \<open>The counters \<open>l\<close>, \<open>w\<close>, \<open>c\<close> and \<open>inword\<close>, as long as they stay below \<open>2^31\<close>.\<close>

record counts =
  c_l :: int
  c_w :: int
  c_c :: int
  c_inword :: bool

definition count_byte :: "u8 \<Rightarrow> counts \<Rightarrow> counts" where
  "count_byte b s =
     (let s = s\<lparr>c_c := c_c s + 1\<rparr>;
          s = (if b = 10 then s\<lparr>c_l := c_l s + 1\<rparr> else s)
      in if strchr [32, 13, 9, 10, 11] b \<noteq> None then s\<lparr>c_inword := False\<rparr>
         else if \<not> c_inword s then s\<lparr>c_w := c_w s + 1, c_inword := True\<rparr>
         else s)"

fun wc_loop :: "nat \<Rightarrow> int \<Rightarrow> u8 list \<Rightarrow> counts \<Rightarrow> uprog \<Rightarrow> uprog" where
  "wc_loop 0 fd name s k = Undef"
| "wc_loop (Suc n) fd name s k =
     Call (URead fd 512) (\<lambda>r.
       if r_val r > 0 then wc_loop n fd name (fold count_byte (r_bytes r) s) k
       else if r_val r < 0 then printf 1 (nl ''wc: read error'') [] Exit
       else printf 1 (nl ''%d %d %d %s'') [int_arg (c_l s), int_arg (c_w s), int_arg (c_c s), str_arg name] k)"

definition wc :: "nat \<Rightarrow> int \<Rightarrow> u8 list \<Rightarrow> uprog \<Rightarrow> uprog" where
  "wc n fd name k = wc_loop n fd name \<lparr>c_l = 0, c_w = 0, c_c = 0, c_inword = False\<rparr> k"

fun wc_files :: "nat \<Rightarrow> u8 list list \<Rightarrow> uprog" where
  "wc_files n [] = Exit"
| "wc_files n (f # fs) =
     sys (UOpen f 0) (\<lambda>fd.
       if fd < 0 then printf 1 (nl ''wc: cannot open %s'') [str_arg f] Exit
       else wc n fd f (sys (UClose fd) (\<lambda>_. wc_files n fs)))"

definition wc_main :: "nat \<Rightarrow> u8 list list \<Rightarrow> uprog" where
  "wc_main n argv = (if length argv \<le> 1 then wc n 0 [] Exit else wc_files n (tl argv))"

subsection \<open>ls\<close>

text \<open>The index of the first character after the last slash among the first \<open>i\<close>.\<close>

fun after_slash :: "u8 list \<Rightarrow> nat \<Rightarrow> nat" where
  "after_slash path 0 = 0"
| "after_slash path (Suc i) = (if path ! i \<noteq> 47 then after_slash path i else Suc i)"

definition fmtname :: "u8 list \<Rightarrow> u8 list" where
  "fmtname path =
     (let p = drop (after_slash path (length path)) path
      in if length p \<ge> DIRSIZ then p else p @ replicate (DIRSIZ - length p) 32)"

definition ls_line :: "u8 list \<Rightarrow> stat \<Rightarrow> uprog \<Rightarrow> uprog" where
  "ls_line path st k =
     printf 1 (nl ''%s %d %d %d'')
       [str_arg (fmtname path), int_arg (sint (st_type st)), int_arg (int (st_ino st)), int_arg (uint (st_size st))] k"

fun ls_entries :: "nat \<Rightarrow> int \<Rightarrow> u8 list \<Rightarrow> stat \<Rightarrow> uprog \<Rightarrow> uprog" where
  "ls_entries 0 fd path st k = Undef"
| "ls_entries (Suc n) fd path st k =
     Call (URead fd 16) (\<lambda>r.
       if r_val r = 16
       then if dec16 (take 2 (r_bytes r)) = 0 then ls_entries n fd path st k
            else let buf = path @ [47] @ takeWhile (\<lambda>c. c \<noteq> 0) (take DIRSIZ (drop 2 (r_bytes r)))
                 in ulib_stat buf (\<lambda>v st.
                      if v < 0 then printf 1 (nl ''ls: cannot stat %s'') [str_arg buf] (ls_entries n fd path st k)
                      else ls_line buf st (ls_entries n fd path st k)) st
       else k)"

definition ls :: "nat \<Rightarrow> u8 list \<Rightarrow> uprog \<Rightarrow> uprog" where
  "ls n path k =
     sys (UOpen path 0) (\<lambda>fd.
       if fd < 0 then printf 2 (nl ''ls: cannot open %s'') [str_arg path] k
       else Call (UFstat fd) (\<lambda>r.
         if r_val r < 0
         then printf 2 (nl ''ls: cannot stat %s'') [str_arg path] (sys (UClose fd) (\<lambda>_. k))
         else let st = r_stat r; done = sys (UClose fd) (\<lambda>_. k)
              in if st_type st = T_FILE then ls_line path st done
                 else if st_type st = T_DIR
                 then if length path + 1 + DIRSIZ + 1 > 512
                      then printf 1 (nl ''ls: path too long'') [] done
                      else ls_entries n fd path st done
                 else done))"

fun ls_all :: "nat \<Rightarrow> u8 list list \<Rightarrow> uprog" where
  "ls_all n [] = Exit"
| "ls_all n (p # ps) = ls n p (ls_all n ps)"

definition ls_main :: "nat \<Rightarrow> u8 list list \<Rightarrow> uprog" where
  "ls_main n argv = (if length argv < 2 then ls n (cstr ''.'') Exit else ls_all n (tl argv))"

subsection \<open>ln, rm, mkdir, kill\<close>

definition ln_main :: "u8 list list \<Rightarrow> uprog" where
  "ln_main argv =
     (if length argv \<noteq> 3 then printf 2 (nl ''Usage: ln old new'') [] Exit
      else sys (ULink (argv ! 1) (argv ! 2)) (\<lambda>r.
        if r < 0 then printf 2 (nl ''link %s %s: failed'') [str_arg (argv ! 1), str_arg (argv ! 2)] Exit
        else Exit))"

text \<open>The loops of rm and mkdir stop at the first failure.\<close>

fun rm_args :: "u8 list list \<Rightarrow> uprog" where
  "rm_args [] = Exit"
| "rm_args (a # as) =
     sys (UUnlink a) (\<lambda>r. if r < 0 then printf 2 (nl ''rm: %s failed to delete'') [str_arg a] Exit else rm_args as)"

definition rm_main :: "u8 list list \<Rightarrow> uprog" where
  "rm_main argv = (if length argv < 2 then printf 2 (nl ''Usage: rm files...'') [] Exit else rm_args (tl argv))"

fun mkdir_args :: "u8 list list \<Rightarrow> uprog" where
  "mkdir_args [] = Exit"
| "mkdir_args (a # as) =
     sys (UMkdir a) (\<lambda>r. if r < 0 then printf 2 (nl ''mkdir: %s failed to create'') [str_arg a] Exit else mkdir_args as)"

definition mkdir_main :: "u8 list list \<Rightarrow> uprog" where
  "mkdir_main argv = (if length argv < 2 then printf 2 (nl ''Usage: mkdir files...'') [] Exit else mkdir_args (tl argv))"

fun kill_args :: "u8 list list \<Rightarrow> uprog" where
  "kill_args [] = Exit"
| "kill_args (a # as) =
     (case atoi a of None \<Rightarrow> Undef | Some pid \<Rightarrow> sys (UKill pid) (\<lambda>_. kill_args as))"

definition kill_main :: "u8 list list \<Rightarrow> uprog" where
  "kill_main argv = (if length argv < 2 then printf 2 (nl ''usage: kill pid...'') [] Exit else kill_args (tl argv))"

subsection \<open>init and zombie\<close>

text \<open>\<open>init\<close> waits for its shell; other children that end are zombies it has inherited.\<close>

fun init_wait :: "nat \<Rightarrow> int \<Rightarrow> uprog \<Rightarrow> uprog" where
  "init_wait 0 pid k = Undef"
| "init_wait (Suc n) pid k =
     sys UWait (\<lambda>wpid. if wpid \<ge> 0 \<and> wpid \<noteq> pid then printf 1 (nl ''zombie!'') [] (init_wait n pid k) else k)"

fun init_loop :: "nat \<Rightarrow> uprog" where
  "init_loop 0 = Undef"
| "init_loop (Suc n) =
     printf 1 (nl ''init: starting sh'') [] (sys UFork (\<lambda>pid.
       if pid < 0 then printf 1 (nl ''init: fork failed'') [] Exit
       else if pid = 0
       then sys (UExec (cstr ''sh'') [cstr ''sh'']) (\<lambda>_. printf 1 (nl ''init: exec sh failed'') [] Exit)
       else init_wait n pid (init_loop n)))"

definition init_main :: "nat \<Rightarrow> uprog" where
  "init_main n =
     (let rest = sys (UDup 0) (\<lambda>_. sys (UDup 0) (\<lambda>_. init_loop n))
      in sys (UOpen (cstr ''console'') O_RDWR) (\<lambda>fd.
           if fd < 0
           then sys (UMknod (cstr ''console'') 1 1) (\<lambda>_. sys (UOpen (cstr ''console'') O_RDWR) (\<lambda>_. rest))
           else rest))"

definition zombie_main :: uprog where
  "zombie_main = sys UFork (\<lambda>pid. if pid > 0 then sys (USleep 5) (\<lambda>_. Exit) else Exit)"

subsection \<open>forktest\<close>

text \<open>forktest has a \<open>printf\<close> of its own that writes the string as it is.\<close>

definition ft_puts :: "u8 list \<Rightarrow> uprog \<Rightarrow> uprog" where
  "ft_puts s k = sys (UWrite 1 s) (\<lambda>_. k)"

text \<open>The fork loop with \<open>m\<close> rounds left; the continuation gets the number of children.\<close>

fun ft_fork :: "nat \<Rightarrow> nat \<Rightarrow> (nat \<Rightarrow> uprog) \<Rightarrow> uprog" where
  "ft_fork 0 n k = k n"
| "ft_fork (Suc m) n k = sys UFork (\<lambda>pid. if pid < 0 then k n else if pid = 0 then Exit else ft_fork m (n + 1) k)"

fun ft_wait :: "nat \<Rightarrow> uprog \<Rightarrow> uprog" where
  "ft_wait 0 k = k"
| "ft_wait (Suc n) k =
     sys UWait (\<lambda>r. if r < 0 then ft_puts (nl ''wait stopped early'') Exit else ft_wait n k)"

definition forktest :: "uprog \<Rightarrow> uprog" where
  "forktest k =
     ft_puts (nl ''fork test'') (ft_fork 1000 0 (\<lambda>n.
       if n = 1000 then ft_puts (nl ''fork claimed to work N times!'') Exit
       else ft_wait n (sys UWait (\<lambda>r.
         if r \<noteq> -1 then ft_puts (nl ''wait got too many'') Exit
         else ft_puts (nl ''fork test OK'') k))))"

subsection \<open>stressfs\<close>

fun sf_fork :: "nat \<Rightarrow> nat \<Rightarrow> (nat \<Rightarrow> uprog) \<Rightarrow> uprog" where
  "sf_fork 0 i k = k i"
| "sf_fork (Suc m) i k = sys UFork (\<lambda>pid. if pid > 0 then k i else sf_fork m (i + 1) k)"

fun repeat_call :: "nat \<Rightarrow> ucall \<Rightarrow> uprog \<Rightarrow> uprog" where
  "repeat_call 0 c k = k"
| "repeat_call (Suc n) c k = sys c (\<lambda>_. repeat_call n c k)"

definition stressfs_main :: uprog where
  "stressfs_main =
     printf 1 (nl ''stressfs starting'') [] (sf_fork 4 0 (\<lambda>i.
       printf 1 (nl ''write %d'') [int_arg (int i)] (
       let path = cstr ''stressfs'' @ [48 + of_nat i] in
       sys (UOpen path (O_CREATE OR O_RDWR)) (\<lambda>fd.
         repeat_call 20 (UWrite fd (replicate 512 97)) (
         sys (UClose fd) (\<lambda>_.
         printf 1 (nl ''read'') [] (
         sys (UOpen path O_RDONLY) (\<lambda>fd.
         repeat_call 20 (URead fd 512) (
         sys (UClose fd) (\<lambda>_.
         sys UWait (\<lambda>_. Exit)))))))))))"

subsection \<open>What some of them print and count\<close>

text \<open>wc's counts do not depend on how the input is split into reads.\<close>

lemma wc_loop_chunk:
  assumes "r_val r > 0" and "r_bytes r = a @ b" and "r_val r1 > 0" "r_bytes r1 = a" and "r_val r2 > 0" "r_bytes r2 = b"
  shows "snd (run (wc_loop (Suc n) fd name s k) [r]) = snd (run (wc_loop (Suc (Suc n)) fd name s k) [r1, r2])"
  using assms by simp

text \<open>wc's line and character counts.\<close>

lemma wc_lines_chars:
  "c_l (fold count_byte bs s) = c_l s + int (count_list bs 10) \<and> c_c (fold count_byte bs s) = c_c s + int (length bs)"
  by (induction bs arbitrary: s) (auto simp: count_byte_def Let_def)

text \<open>The name \<open>fmtname\<close> shows is the last path element, padded to \<open>DIRSIZ\<close> characters.\<close>

lemma after_slash_spec:
  "i \<le> length path \<Longrightarrow> after_slash path i \<le> i \<and> 47 \<notin> set (drop (after_slash path i) (take i path)) \<and>
   (after_slash path i = 0 \<or> path ! (after_slash path i - 1) = 47)"
proof (induction i)
  case (Suc i)
  then have t: "take (Suc i) path = take i path @ [path ! i]" by (simp add: take_Suc_conv_app_nth)
  from Suc show ?case by (auto simp: t)
qed simp

lemma fmtname_element:
  "\<exists>d name. path = d @ name \<and> 47 \<notin> set name \<and> (d = [] \<or> last d = 47) \<and>
     fmtname path = name @ replicate (DIRSIZ - length name) 32"
proof -
  let ?i = "after_slash path (length path)"
  from after_slash_spec [of "length path" path] have
    "?i \<le> length path" "47 \<notin> set (drop ?i path)" "?i = 0 \<or> path ! (?i - 1) = 47" by auto
  then have "take ?i path = [] \<or> last (take ?i path) = 47"
    by (cases ?i) (simp_all add: take_Suc_conv_app_nth)
  with \<open>47 \<notin> set (drop ?i path)\<close> show ?thesis
    by (intro exI [of _ "take ?i path"] exI [of _ "drop ?i path"]) (auto simp: fmtname_def Let_def)
qed

text \<open>echo writes its arguments, separated by spaces and ended by a newline.\<close>

fun joined :: "u8 list list \<Rightarrow> u8 list" where
  "joined [] = []"
| "joined [a] = a @ [10]"
| "joined (a # b # as) = a @ [32] @ joined (b # as)"

lemma printf_ss: "printf_out (cstr ''%s%s'') [str_arg a, str_arg b] = Some (a @ b)"
  by (simp add: cstr_def str_arg_def)

lemma echo_written:
  "length (joined as) \<le> length rs \<Longrightarrow> written_to 1 (fst (run (echo_args as) rs)) = joined as"
proof (induction as arbitrary: rs)
  case (Cons a as)
  let ?sep = "if as \<noteq> [] then [32] else [10] :: u8 list"
  have j: "joined (a # as) = (a @ ?sep) @ joined as" by (cases as) auto
  with Cons.prems have le: "length (a @ ?sep) \<le> length rs" "length (joined as) \<le> length (drop (length (a @ ?sep)) rs)" by simp_all
  have "run (echo_args (a # as)) rs =
    (let (cs, p) = run (echo_args as) (drop (length (a @ ?sep)) rs) in (map (\<lambda>c. UWrite 1 [c]) (a @ ?sep) @ cs, p))"
    using run_puts [OF le(1)] by (simp add: printf_def printf_ss)
  then show ?case
    using Cons.IH [OF le(2)] j by (simp add: split_beta Let_def written_to_append)
qed simp

end
