(* ===== verification/Mkfs.thy ===== *)
theory Mkfs
  imports Names
begin

section \<open>The file system builder (mkfs.c)\<close>

text \<open>
  \<open>mkfs\<close> runs on the host and writes the disk image sector by sector. Its state is the image with
  the two allocation counters. The conversions \<open>xshort\<close> and \<open>xint\<close> are the little-endian layout of
  the codecs the kernel's model uses. A failed assertion or an \<open>exit(1)\<close> is \<open>None\<close>. The files are
  given with their contents.
\<close>

unbundle bit_operations_syntax

subsection \<open>Layout\<close>

definition NINODES :: nat where [simp]: "NINODES = 200"
definition nbitmap :: nat where [simp]: "nbitmap = FSSIZE div (BSIZE * 8) + 1"
definition ninodeblocks :: nat where [simp]: "ninodeblocks = NINODES div IPB + 1"
definition nlog :: nat where [simp]: "nlog = LOGSIZE"
definition nmeta :: nat where [simp]: "nmeta = 2 + nlog + ninodeblocks + nbitmap"
definition nblocks :: nat where [simp]: "nblocks = FSSIZE - nmeta"

definition mk_sb :: superblock where
  "mk_sb = \<lparr>sb_size = of_nat FSSIZE, sb_nblocks = of_nat nblocks, sb_ninodes = of_nat NINODES,
     sb_nlog = of_nat nlog, sb_logstart = 2, sb_inodestart = of_nat (2 + nlog),
     sb_bmapstart = of_nat (2 + nlog + ninodeblocks)\<rparr>"

definition enc_sb :: "superblock \<Rightarrow> u8 list" where
  "enc_sb p = enc32 (sb_size p) @ enc32 (sb_nblocks p) @ enc32 (sb_ninodes p) @ enc32 (sb_nlog p) @
     enc32 (sb_logstart p) @ enc32 (sb_inodestart p) @ enc32 (sb_bmapstart p)"

record mkfs_st =
  img :: "u8 list list"
  freeinode :: nat
  freeblock :: nat

definition zeroes :: "u8 list" where
  "zeroes = replicate BSIZE 0"

subsection \<open>Sectors, inodes and the bitmap\<close>

text \<open>A write behind the end leaves a gap of zeros; a read there is short and ends the program.\<close>

definition wsect :: "nat \<Rightarrow> u8 list \<Rightarrow> mkfs_st \<Rightarrow> mkfs_st" where
  "wsect sec buf s = s\<lparr>img := (img s @ replicate (Suc sec - length (img s)) zeroes)[sec := buf]\<rparr>"

definition rsect :: "nat \<Rightarrow> mkfs_st \<Rightarrow> u8 list option" where
  "rsect sec s = (if sec < length (img s) then Some (img s ! sec) else None)"

definition winode :: "nat \<Rightarrow> dinode \<Rightarrow> mkfs_st \<Rightarrow> mkfs_st option" where
  "winode inum ip s =
     (let bn = IBLOCK inum mk_sb in map_option (\<lambda>buf. wsect bn (dinode_put inum ip buf) s) (rsect bn s))"

definition rinode :: "nat \<Rightarrow> mkfs_st \<Rightarrow> dinode option" where
  "rinode inum s = map_option (\<lambda>buf. dinode_at buf inum) (rsect (IBLOCK inum mk_sb) s)"

definition mk_ialloc :: "u16 \<Rightarrow> mkfs_st \<Rightarrow> (nat \<times> mkfs_st) option" where
  "mk_ialloc type s =
     (let inum = freeinode s;
          din = \<lparr>d_type = type, d_major = 0, d_minor = 0, d_nlink = 1, d_size = 0, d_addrs = replicate (NDIRECT + 1) 0\<rparr>
      in map_option (\<lambda>s. (inum, s)) (winode inum din (s\<lparr>freeinode := inum + 1\<rparr>)))"

definition mk_balloc :: "nat \<Rightarrow> mkfs_st \<Rightarrow> mkfs_st option" where
  "mk_balloc n s =
     (if n < BSIZE * 8
      then Some (wsect (unat (sb_bmapstart mk_sb)) (fold bm_set [0..<n] zeroes) s)
      else None)"

subsection \<open>Appending to a file\<close>

text \<open>The block that holds block \<open>fbn\<close> of a file, allocated if it is missing.\<close>

definition mk_bmap :: "nat \<Rightarrow> dinode \<Rightarrow> mkfs_st \<Rightarrow> (nat \<times> dinode \<times> mkfs_st) option" where
  "mk_bmap fbn din s =
     (if fbn < NDIRECT
      then let (din, s) =
             (if d_addrs din ! fbn = 0
              then (din\<lparr>d_addrs := (d_addrs din)[fbn := of_nat (freeblock s)]\<rparr>, s\<lparr>freeblock := freeblock s + 1\<rparr>)
              else (din, s))
           in Some (unat (d_addrs din ! fbn), din, s)
      else let (din, s) =
             (if d_addrs din ! NDIRECT = 0
              then (din\<lparr>d_addrs := (d_addrs din)[NDIRECT := of_nat (freeblock s)]\<rparr>, s\<lparr>freeblock := freeblock s + 1\<rparr>)
              else (din, s));
             ib = unat (d_addrs din ! NDIRECT)
           in Option.bind (rsect ib s) (\<lambda>indirect.
                if word_at indirect (fbn - NDIRECT) = 0
                then let indirect = word_put (fbn - NDIRECT) (of_nat (freeblock s)) indirect;
                         s = wsect ib indirect (s\<lparr>freeblock := freeblock s + 1\<rparr>)
                     in Some (unat (word_at indirect (fbn - NDIRECT)), din, s)
                else Some (unat (word_at indirect (fbn - NDIRECT)), din, s)))"

function iappend_loop :: "nat \<Rightarrow> u8 list \<Rightarrow> dinode \<Rightarrow> mkfs_st \<Rightarrow> (nat \<times> dinode \<times> mkfs_st) option" where
  "iappend_loop off p din s =
     (if p = [] then Some (off, din, s)
      else let fbn = off div BSIZE in
        if \<not> fbn < MAXFILE then None
        else Option.bind (mk_bmap fbn din s) (\<lambda>(x, din, s).
          let n1 = min (length p) ((fbn + 1) * BSIZE - off) in
          Option.bind (rsect x s) (\<lambda>buf.
            iappend_loop (off + n1) (drop n1 p) din
              (wsect x (splice_at (off - fbn * BSIZE) (take n1 p) buf) s))))"
  by pat_completeness auto
termination
proof (relation "measure (\<lambda>(off, p, din, s). length p)")
  fix off fbn x n1 :: nat and p buf :: "u8 list" and din din' :: dinode and s s' :: mkfs_st and y :: "dinode \<times> mkfs_st"
  assume p: "p \<noteq> []" and "fbn = off div BSIZE" and n: "n1 = min (length p) ((fbn + 1) * BSIZE - off)"
  then have "off < (fbn + 1) * BSIZE" using div_mult_mod_eq [of off 512] mod_less_divisor [of 512 off] by simp
  with p n show "((off + n1, drop n1 p, din', wsect x (splice_at (off - fbn * BSIZE) (take n1 p) buf) s'),
      (off, p, din, s)) \<in> measure (\<lambda>(off, p, din, s). length p)" by auto
qed simp

declare iappend_loop.simps [simp del]

definition iappend :: "nat \<Rightarrow> u8 list \<Rightarrow> mkfs_st \<Rightarrow> mkfs_st option" where
  "iappend inum p s =
     Option.bind (rinode inum s) (\<lambda>din.
     Option.bind (iappend_loop (unat (d_size din)) p din s) (\<lambda>(off, din, s).
       winode inum (din\<lparr>d_size := of_nat off\<rparr>) s))"

subsection \<open>main\<close>

definition mk_dirent :: "nat \<Rightarrow> u8 list \<Rightarrow> u8 list" where
  "mk_dirent inum name = enc16 (of_nat inum) @ take DIRSIZ (name @ replicate DIRSIZ 0)"

text \<open>A file is read in blocks of \<open>BSIZE\<close> bytes.\<close>

function copy_file :: "nat \<Rightarrow> u8 list \<Rightarrow> mkfs_st \<Rightarrow> mkfs_st option" where
  "copy_file inum content s =
     (if content = [] then Some s
      else Option.bind (iappend inum (take BSIZE content) s) (copy_file inum (drop BSIZE content)))"
  by pat_completeness auto
termination by (relation "measure (\<lambda>(inum, content, s). length content)") auto

declare copy_file.simps [simp del]

fun add_files :: "(u8 list \<times> u8 list) list \<Rightarrow> mkfs_st \<Rightarrow> mkfs_st option" where
  "add_files [] s = Some s"
| "add_files ((name, content) # fs) s =
     (if 47 \<in> set name then None
      else let name = (case name of c # cs \<Rightarrow> if c = 95 then cs else name | [] \<Rightarrow> name) in
        Option.bind (mk_ialloc T_FILE s) (\<lambda>(inum, s).
        Option.bind (iappend ROOTINO (mk_dirent inum name) s) (\<lambda>s.
        Option.bind (copy_file inum content s) (add_files fs))))"

definition fresh_img :: mkfs_st where
  "fresh_img = wsect 1 (enc_sb mk_sb @ replicate (BSIZE - 28) 0)
     \<lparr>img = replicate FSSIZE zeroes, freeinode = 1, freeblock = nmeta\<rparr>"

definition fix_root_size :: "mkfs_st \<Rightarrow> mkfs_st option" where
  "fix_root_size s =
     Option.bind (rinode ROOTINO s) (\<lambda>din.
       let off = (unat (d_size din) div BSIZE + 1) * BSIZE in winode ROOTINO (din\<lparr>d_size := of_nat off\<rparr>) s)"

definition mkfs :: "(u8 list \<times> u8 list) list \<Rightarrow> mkfs_st option" where
  "mkfs files =
     Option.bind (mk_ialloc T_DIR fresh_img) (\<lambda>(rootino, s).
       if rootino \<noteq> ROOTINO then None
       else Option.bind (iappend rootino (mk_dirent rootino [46]) s) (\<lambda>s.
            Option.bind (iappend rootino (mk_dirent rootino [46, 46]) s) (\<lambda>s.
            Option.bind (add_files files s) (\<lambda>s.
            Option.bind (fix_root_size s) (\<lambda>s. mk_balloc (freeblock s) s)))))"

subsection \<open>What the kernel finds\<close>

text \<open>The super block in the image is the one the kernel's file system model boots with.\<close>

lemma mk_sb_demo: "mk_sb = demo_sb"
  by (simp add: mk_sb_def demo_sb_def)

lemma dec_enc_sb: "dec_sb (enc_sb p @ rest) = p"
  by (simp add: dec_sb_def enc_sb_def slice_append1 slice_append2)

lemma fresh_superblock: "rsect 1 fresh_img = Some (enc_sb mk_sb @ replicate (BSIZE - 28) 0)"
  by (simp add: rsect_def fresh_img_def wsect_def)

text \<open>The areas of the image follow each other as the kernel's geometry invariant asks.\<close>

lemma mkfs_geometry: "sb s = mk_sb \<Longrightarrow> l_start s = 2 \<Longrightarrow> FSSIZE \<le> disksize s \<Longrightarrow> fs_geom s"
  by (simp add: fs_geom_def mk_sb_def)

text \<open>The bitmap block marks exactly the blocks below \<open>used\<close>.\<close>

lemma bm_fold:
  "n \<le> BPB \<Longrightarrow> b < BPB \<Longrightarrow> length (fold bm_set [0..<n] zeroes) = BSIZE \<and>
     (bm_test (fold bm_set [0..<n] zeroes) b \<longleftrightarrow> b < n)"
proof (induction n)
  case 0
  have "b div 8 < BSIZE" using 0(2) by simp
  then show ?case by (simp add: zeroes_def bm_nth_bits)
next
  case (Suc n)
  then have l: "length (fold bm_set [0..<n] zeroes) = BSIZE" and t: "bm_test (fold bm_set [0..<n] zeroes) b \<longleftrightarrow> b < n"
    by simp_all
  from bm_test_set [OF l, of n b] Suc.prems t show ?case by (auto simp: l less_Suc_eq)
qed

lemma mk_balloc_marks:
  assumes "mk_balloc n s = Some t" and "b < BPB"
  shows "\<exists>d. rsect (BBLOCK b mk_sb) t = Some d \<and> (bm_test d (b mod BPB) \<longleftrightarrow> b < n)"
proof -
  have n: "n < 4096" and t: "t = wsect 58 (fold bm_set [0..<n] zeroes) s"
    using assms(1) by (simp_all add: mk_balloc_def mk_sb_def split: if_splits)
  have "BBLOCK b mk_sb = 58" using assms(2) by (simp add: BBLOCK_def mk_sb_def)
  moreover have "rsect 58 t = Some (fold bm_set [0..<n] zeroes)" by (simp add: t rsect_def wsect_def)
  ultimately show ?thesis using bm_fold [of n b] n assms(2) by simp
qed

text \<open>An inode that has been written is read back.\<close>

lemma rinode_winode:
  assumes "winode inum d s = Some t" and "length (d_addrs d) = NDIRECT + 1"
    and "\<forall>b \<in> set (img s). length b = BSIZE"
  shows "rinode inum t = Some d"
proof -
  let ?bn = "IBLOCK inum mk_sb"
  from assms(1) have bn: "?bn < length (img s)" and t: "t = wsect ?bn (dinode_put inum d (img s ! ?bn)) s"
    by (auto simp: winode_def rsect_def Let_def split: if_splits)
  have "length (img s ! ?bn) = BSIZE" using assms(3) bn by simp
  from dinode_at_put(1) [OF this assms(2)] bn show ?thesis by (simp add: t rinode_def rsect_def wsect_def)
qed

end
