(* ===== verification/Debugger.thy ===== *)
theory Debugger
  imports Calls
begin

section \<open>The crash debugger (debugger.py) and the kernel's crash report\<close>

text \<open>
  The parts of the debugger that compute: the tables of test programs and the choice among them,
  the retry loop around the analysis service, what it cuts out of the console's text, and the
  clean-up of a suggested patch. The console's text is ASCII, one byte per character. The answers of
  the service and the random choice are parameters. Driving gdb and qemu is not modelled.
\<close>

subsection \<open>Test programs\<close>

datatype mode = Kernel | User

definition KERNEL_TESTS :: "(string \<times> string \<times> string) list" where
  "KERNEL_TESTS =
     [(''trap_test'', ''NULL pointer dereference in kernel space'', ''Page Fault (vector 14)'')]"

definition USER_TESTS :: "(string \<times> string \<times> string) list" where
  "USER_TESTS =
     [(''user_crash'', ''Division by zero'', ''Divide Error (trap 0)''),
      (''null_deref'', ''NULL pointer dereference'', ''Page Fault (trap 14)''),
      (''invalid_pointer'', ''Invalid memory address access'', ''Page Fault (trap 14)''),
      (''invalid_instruction'', ''Invalid/undefined instruction'', ''Invalid Opcode (trap 6)'')]"

definition tests :: "mode \<Rightarrow> (string \<times> string \<times> string) list" where
  "tests md = (case md of Kernel \<Rightarrow> KERNEL_TESTS | User \<Rightarrow> USER_TESTS)"

text \<open>The first steps of \<open>run_debugger\<close>: the test to run, or none if the name is unknown.\<close>

definition select_test :: "(string list \<Rightarrow> string) \<Rightarrow> mode \<Rightarrow> string option \<Rightarrow> string option" where
  "select_test choice md test_program =
     (let t = (case test_program of None \<Rightarrow> choice (map fst (tests md)) | Some t \<Rightarrow> t)
      in if t \<in> set (map fst (tests md)) then Some t else None)"

lemma select_test_random:
  assumes "\<And>xs. xs \<noteq> [] \<Longrightarrow> choice xs \<in> set xs"
  shows "\<exists>t. select_test choice md None = Some t \<and> t \<in> set (map fst (tests md))"
proof -
  have "map fst (tests md) \<noteq> []" by (cases md) (simp_all add: tests_def KERNEL_TESTS_def USER_TESTS_def)
  from assms [OF this] show ?thesis by (auto simp: select_test_def Let_def)
qed

subsection \<open>Asking the service\<close>

text \<open>
  What one request of \<open>get_gemini_analysis\<close> does: a status other than 200, an exception with its
  text, or an analysis.
\<close>

datatype 'a attempt = BadStatus | Raised string | Answered 'a

text \<open>The retry loop from attempt \<open>k\<close>: the result, an error or an analysis, and the pauses it makes.\<close>

definition max_retries :: nat where "max_retries = 5"

fun retry :: "nat \<Rightarrow> 'a attempt list \<Rightarrow> (string + 'a) \<times> nat list" where
  "retry k [] = (Inl ''Exhausted all API retries.'', [])"
| "retry k (BadStatus # as) = (let (r, ps) = retry (k + 1) as in (r, 2 ^ k # ps))"
| "retry k (Raised e # as) =
     (if k < max_retries - 1 then let (r, ps) = retry (k + 1) as in (r, 2 ^ k # ps)
      else (Inl (''Failed to get analysis after 5 attempts: '' @ e), []))"
| "retry k (Answered a # as) = (Inr a, [])"

definition get_gemini_analysis :: "(nat \<Rightarrow> 'a attempt) \<Rightarrow> (string + 'a) \<times> nat list" where
  "get_gemini_analysis service = retry 0 (map service [0..<max_retries])"

text \<open>An analysis comes from the service, and the pauses add up to less than 32 seconds.\<close>

lemma pow2_le: "(2 :: nat) ^ k \<le> 2 * 2 ^ (k + n)"
  by (simp add: power_add)

lemma retry_bounds:
  "sum_list (snd (retry k as)) + 2 ^ k \<le> 2 ^ (k + length as) \<and> (\<forall>a. fst (retry k as) = Inr a \<longrightarrow> Answered a \<in> set as)"
proof (induction k as rule: retry.induct)
  case (2 k as)
  then show ?case by (simp add: split_beta Let_def)
next
  case (3 k e as)
  then show ?case by (cases "k < max_retries - 1") (simp_all add: split_beta Let_def pow2_le)
qed (auto simp: pow2_le)

lemma get_gemini_analysis_bounds:
  "sum_list (snd (get_gemini_analysis service)) < 32 \<and>
   (\<forall>a. fst (get_gemini_analysis service) = Inr a \<longrightarrow> (\<exists>i<5. service i = Answered a))"
  using retry_bounds [of 0 "map service [0..<max_retries]"]
  by (auto simp: get_gemini_analysis_def max_retries_def) blast

subsection \<open>Reading the report\<close>

text \<open>The text before the first occurrence of a marker, and the text after it.\<close>

fun starts :: "u8 list \<Rightarrow> u8 list \<Rightarrow> bool" where
  "starts [] t = True"
| "starts (x # xs) [] = False"
| "starts (x # xs) (y # ys) = (x = y \<and> starts xs ys)"

fun expect :: "u8 list \<Rightarrow> u8 list \<Rightarrow> (u8 list \<times> u8 list) option" where
  "expect pat t =
     (if starts pat t then Some ([], drop (length pat) t)
      else case t of [] \<Rightarrow> None | c # t \<Rightarrow> map_option (\<lambda>(b, a). (c # b, a)) (expect pat t))"

declare expect.simps [simp del]

definition REPORT :: "u8 list" where "REPORT = cstr ''=== XV6 USER CRASH REPORT ===''"
definition END_REPORT :: "u8 list" where "END_REPORT = cstr ''=== END REPORT ===''"

definition capture :: "u8 list \<Rightarrow> u8 list option" where
  "capture out =
     Option.bind (expect REPORT out) (\<lambda>(_, rest).
       map_option (\<lambda>(before, _). REPORT @ before @ END_REPORT) (expect END_REPORT rest))"

text \<open>The search for \<open>RIP:\s+([0-9a-fA-Fx]+)\<close>: the group of the leftmost match.\<close>

definition is_space :: "u8 \<Rightarrow> bool" where
  "is_space c = (9 \<le> c \<and> c \<le> 13 \<or> 28 \<le> c \<and> c \<le> 32)"

definition is_hexx :: "u8 \<Rightarrow> bool" where
  "is_hexx c = (48 \<le> c \<and> c \<le> 57 \<or> 97 \<le> c \<and> c \<le> 102 \<or> 65 \<le> c \<and> c \<le> 70 \<or> c = 120)"

definition rip_at :: "u8 list \<Rightarrow> u8 list option" where
  "rip_at t =
     (let r = drop 4 t; g = takeWhile is_hexx (dropWhile is_space r)
      in if starts (cstr ''RIP:'') t \<and> r \<noteq> [] \<and> is_space (hd r) \<and> g \<noteq> [] then Some g else None)"

fun search_rip :: "u8 list \<Rightarrow> u8 list option" where
  "search_rip [] = None"
| "search_rip (c # t) = (case rip_at (c # t) of Some g \<Rightarrow> Some g | None \<Rightarrow> search_rip t)"

declare search_rip.simps [simp del]

definition rip_addr :: "u8 list \<Rightarrow> u8 list option" where
  "rip_addr report =
     map_option (\<lambda>a. if starts (cstr ''0x'') a then a else cstr ''0x'' @ a) (search_rip report)"

subsection \<open>The suggested patch\<close>

text \<open>\<open>replace\<close> by the empty string, and \<open>strip\<close>.\<close>

function remove_all :: "u8 list \<Rightarrow> u8 list \<Rightarrow> u8 list" where
  "remove_all pat t =
     (case t of [] \<Rightarrow> [] | c # t' \<Rightarrow>
        if pat \<noteq> [] \<and> starts pat t then remove_all pat (drop (length pat) t) else c # remove_all pat t')"
  by pat_completeness auto
termination by (relation "measure (\<lambda>(pat, t). length t)") auto

declare remove_all.simps [simp del]

definition strip :: "u8 list \<Rightarrow> u8 list" where
  "strip t = rev (dropWhile is_space (rev (dropWhile is_space t)))"

definition clean_patch :: "u8 list \<Rightarrow> u8 list" where
  "clean_patch t = strip (remove_all (cstr ''```'') (remove_all (cstr ''```diff'') t))"

text \<open>A cleaned patch neither begins nor ends with white space.\<close>

lemma strip_ends: "strip t \<noteq> [] \<Longrightarrow> \<not> is_space (hd (strip t)) \<and> \<not> is_space (last (strip t))"
proof -
  let ?u = "dropWhile is_space t" and ?v = "rev (dropWhile is_space (rev (dropWhile is_space t)))"
  assume ne: "strip t \<noteq> []"
  then have v: "?v \<noteq> []" by (simp add: strip_def)
  then have "\<not> is_space (last ?v)" using hd_dropWhile [of is_space "rev ?u"] by (simp add: last_rev)
  moreover have "\<not> is_space (hd ?v)"
  proof -
    obtain w where "?u = ?v @ w" by (metis rev_append rev_rev_ident takeWhile_dropWhile_id)
    then have "hd ?v = hd ?u" "?u \<noteq> []" using v by (metis hd_append2, metis append_is_Nil_conv)
    then show ?thesis using hd_dropWhile [of is_space t] by simp
  qed
  ultimately show ?thesis by (simp add: strip_def)
qed

subsection \<open>The kernel's report, read by the debugger\<close>

text \<open>On a machine with a serial port, printing appends exactly its bytes to the port's output.\<close>

definition sent :: "u8 list \<Rightarrow> 'z cons_st_scheme \<Rightarrow> 'z cons_st_scheme \<Rightarrow> bool" where
  "sent bs s t \<longleftrightarrow> uart_out t = uart_out s @ bs \<and> uart t \<and> \<not> panicked t"

lemma cgaputc_uart [simp]: "uart_out (cgaputc c s) = uart_out s" "uart (cgaputc c s) = uart s"
  by (simp_all add: cgaputc_def Let_def split: prod.split)

lemma sent_trans: "sent a s t \<Longrightarrow> sent b t u \<Longrightarrow> sent (a @ b) s u"
  by (simp add: sent_def)

lemma wp_consputc_sent: "\<not> panicked s \<Longrightarrow> uart s \<Longrightarrow> wp (consputc (uint (b :: u8)) s) (\<lambda>_ t. sent [b] s t)"
  using unsigned_less [of b, where 'a = int] by (auto simp: consputc_def sent_def uartputc_def)

lemma wp_putbytes_sent: "\<not> panicked s \<Longrightarrow> uart s \<Longrightarrow> wp (putbytes bs s) (\<lambda>_ t. sent bs s t)"
proof (induction bs arbitrary: s)
  case Nil
  then show ?case by (simp add: putbytes_def sent_def)
next
  case (Cons b bs)
  have "wp (putbytes bs t) (\<lambda>_ u. sent (b # bs) s u)" if "sent [b] s t" for t
    using Cons.IH [of t] that sent_trans [OF that] by (auto simp: sent_def elim: wp_mono)
  then show ?case
    unfolding putbytes_def for_each.simps wp_bind by (intro wp_mono [OF wp_consputc_sent [OF Cons.prems]])
qed

lemma wp_cprintf_sent:
  "\<not> panicked s \<Longrightarrow> uart s \<Longrightarrow> cprintf_out fmt as = Some bs \<Longrightarrow> wp (cprintf fmt as s) (\<lambda>_ t. sent bs s t)"
  by (simp add: cprintf_def wp_putbytes_sent)

text \<open>The bytes of the report.\<close>

definition proc_name :: "proc \<Rightarrow> u8 list" where
  "proc_name p = takeWhile (\<lambda>b. b \<noteq> 0) (p_name p)"

definition report_head :: "proc \<Rightarrow> trapframe \<Rightarrow> u8 list" where
  "report_head p tf =
     [10] @ cstr ''Process: '' @ proc_name p @ cstr '' (pid '' @ print_d (sint (ucast (word_of_int (p_pid p) :: u64) :: u32)) @
     cstr '')'' @ [10] @ cstr ''Trap: '' @ print_d (sint (ucast (tf_trapno tf) :: u32)) @ cstr '' (Error: '' @
     print_d (sint (ucast (tf_err tf) :: u32)) @ cstr '')'' @ [10]"

definition report_regs :: "trapframe \<Rightarrow> u8 list" where
  "report_regs tf =
     cstr '' RSP: '' @ print_x64 (tf_rsp tf) @ [10] @
     cstr ''RAX: '' @ print_x64 (tf_rax tf) @ cstr '' RBX: '' @ print_x64 (tf_rbx tf) @
     cstr '' RCX: '' @ print_x64 (tf_rcx tf) @ cstr '' RDX: '' @ print_x64 (tf_rdx tf) @ [10] @
     cstr ''RDI: '' @ print_x64 (tf_rdi tf) @ cstr '' RSI: '' @ print_x64 (tf_rsi tf) @ cstr '' RBP: '' @
     print_x64 (tf_rbp tf) @ [10]"

lemma cstr_Cons [simp]: "cstr (c # s) = of_char c # cstr s" "cstr [] = []"
  by (simp_all add: cstr_def)

lemma sent_step:
  assumes "sent a s t" and "cprintf_out fmt as = Some b" and "\<And>u. sent (a @ b) s u \<Longrightarrow> wp (k () u) Q"
  shows "wp (bindR (cprintf fmt as t) k) Q"
proof -
  have "wp (cprintf fmt as t) (\<lambda>_ u. sent b t u)" using assms(1,2) by (intro wp_cprintf_sent) (auto simp: sent_def)
  then show ?thesis unfolding wp_bind by (rule wp_mono) (use assms(3) sent_trans [OF assms(1)] in auto)
qed

lemma crash_report_sent:
  assumes "\<not> panicked s" and "uart s"
  shows "wp (crash_report cpunum cr2 p tf s) (\<lambda>_ t. \<exists>rest.
     sent ([10] @ REPORT @ report_head p tf @ cstr ''RIP: '' @ print_x64 (tf_rip tf) @ report_regs tf @ END_REPORT @ rest) s t)"
proof -
  let ?d = "\<lambda>w :: u64. print_d (sint (ucast w :: u32))"
  have s0: "sent [] s s" using assms by (simp add: sent_def)
  have last: "wp (cprintf fmt as t) (\<lambda>_ u. \<exists>rest. sent (a @ rest) s u)"
    if "sent (a @ c) s t" "cprintf_out fmt as \<noteq> None" for fmt as t a c
  proof -
    from that(2) obtain b where "cprintf_out fmt as = Some b" by blast
    then have "wp (cprintf fmt as t) (\<lambda>_ u. sent b t u)" using that(1) by (intro wp_cprintf_sent) (auto simp: sent_def)
    then show ?thesis by (rule wp_mono) (use sent_trans [OF that(1)] in auto)
  qed
  let ?L1 = "[10] @ REPORT @ [10]"
    and ?L2 = "cstr ''Process: '' @ proc_name p @ cstr '' (pid '' @ ?d (word_of_int (p_pid p)) @ cstr '')'' @ [10]"
    and ?L3 = "cstr ''Trap: '' @ ?d (tf_trapno tf) @ cstr '' (Error: '' @ ?d (tf_err tf) @ cstr '')'' @ [10]"
    and ?L4 = "cstr ''RIP: '' @ print_x64 (tf_rip tf) @ cstr '' RSP: '' @ print_x64 (tf_rsp tf) @ [10]"
    and ?L5 = "cstr ''RAX: '' @ print_x64 (tf_rax tf) @ cstr '' RBX: '' @ print_x64 (tf_rbx tf) @
        cstr '' RCX: '' @ print_x64 (tf_rcx tf) @ cstr '' RDX: '' @ print_x64 (tf_rdx tf) @ [10]"
    and ?L6 = "cstr ''RDI: '' @ print_x64 (tf_rdi tf) @ cstr '' RSI: '' @ print_x64 (tf_rsi tf) @ cstr '' RBP: '' @
        print_x64 (tf_rbp tf) @ [10]"
  have all: "((((((([] @ ?L1) @ ?L2) @ ?L3) @ ?L4) @ ?L5) @ ?L6) @ END_REPORT @ [10]) =
      ([10] @ REPORT @ report_head p tf @ cstr ''RIP: '' @ print_x64 (tf_rip tf) @ report_regs tf @ END_REPORT) @ [10]"
    by (simp add: report_head_def report_regs_def)
  have "wp (crash_report cpunum cr2 p tf s) (\<lambda>_ t. \<exists>rest.
     sent (([10] @ REPORT @ report_head p tf @ cstr ''RIP: '' @ print_x64 (tf_rip tf) @ report_regs tf @ END_REPORT) @ rest) s t)"
    unfolding crash_report_def Let_def proc_name_def [symmetric]
  proof (rule sent_step [OF s0, of _ _ ?L1], simp add: REPORT_def,
      rule sent_step [where b = ?L2], assumption, simp,
      rule sent_step [where b = ?L3], assumption, simp,
      rule sent_step [where b = ?L4], assumption, simp,
      rule sent_step [where b = ?L5], assumption, simp,
      rule sent_step [where b = ?L6], assumption, simp,
      rule sent_step [where b = "END_REPORT @ [10]"], assumption, simp add: END_REPORT_def, rule last)
    show "sent (([10] @ REPORT @ report_head p tf @ cstr ''RIP: '' @ print_x64 (tf_rip tf) @ report_regs tf @ END_REPORT) @ [10]) s u"
      if "sent ((((((([] @ ?L1) @ ?L2) @ ?L3) @ ?L4) @ ?L5) @ ?L6) @ END_REPORT @ [10]) s u" for u
      using that unfolding all .
  qed simp
  then show ?thesis by simp
qed

text \<open>The characters of printed numbers.\<close>

lemma set_dec_digits: "set (dec_digits n) \<subseteq> set digits"
proof (induction n rule: dec_digits.induct)
  case (1 n)
  have "digits ! (n mod 10) \<in> set digits" by (rule nth_mem) (simp add: digits_def less_trans [of _ 10])
  with 1 show ?case by (subst dec_digits.simps) auto
qed

lemma set_print_d: "set (print_d v) \<subseteq> insert 45 (set digits)"
  using set_dec_digits by (auto simp: print_d_def)

lemma set_hex_digits: "set (hex_digits k 64 (x :: u64)) \<subseteq> set digits"
proof (induction k arbitrary: x)
  case (Suc k)
  have "unat (drop_bit 60 x) < 16"
    using unsigned_less [of x, where 'a = nat] by (simp only: unat_drop_bit_eq) (simp add: drop_bit_eq_div less_mult_imp_div_less)
  then have "digits ! unat (drop_bit 60 x) \<in> set digits" by (intro nth_mem) (simp add: digits_def)
  with Suc [of "push_bit 4 x"] show ?case by simp
qed simp

lemma set_print_x64: "set (print_x64 x) \<subseteq> set digits" "print_x64 x \<noteq> []" "length (print_x64 x) = 16"
proof -
  show "set (print_x64 x) \<subseteq> set digits" "length (print_x64 x) = 16"
    using set_hex_digits [of 16 x] by (simp_all add: print_x64_def)
  then show "print_x64 x \<noteq> []" by auto
qed

lemma digits_chars: "c \<in> set digits \<Longrightarrow> c \<noteq> 82 \<and> c \<noteq> 61 \<and> is_hexx c \<and> \<not> is_space c"
  by (auto simp: digits_def is_hexx_def is_space_def)

lemma printed_chars:
  "82 \<notin> set (print_d v)" "61 \<notin> set (print_d v)" "82 \<notin> set (print_x64 x)" "61 \<notin> set (print_x64 x)"
  using set_print_d [of v] set_print_x64(1) [of x] digits_chars [of 82] digits_chars [of 61] by auto

text \<open>Searching past text without the first letter of the marker.\<close>

lemma starts_append: "starts p (p @ t)"
  by (induction p) auto

lemma expect_after: "61 \<notin> set xs \<Longrightarrow> expect (61 # p) (xs @ (61 # p) @ t) = Some (xs, t)"
proof (induction xs)
  case Nil
  then show ?case using starts_append [of "61 # p" t] by (simp add: expect.simps)
next
  case (Cons x xs)
  then show ?case by (subst expect.simps) auto
qed

lemma search_skip: "82 \<notin> set xs \<Longrightarrow> search_rip (xs @ t) = search_rip t"
  by (induction xs) (auto simp: search_rip.simps rip_at_def)

lemma search_found:
  assumes "ds \<noteq> []" and "set ds \<subseteq> set digits" and "\<not> is_hexx c"
  shows "search_rip (cstr ''RIP: '' @ ds @ c # t) = Some ds"
proof -
  have "hd ds \<in> set digits" using assms(1,2) by auto
  then have "\<not> is_space (hd ds)" "list_all is_hexx ds" using assms(2) digits_chars by (auto simp: list_all_iff)
  then have "dropWhile is_space (32 # ds @ c # t) = ds @ c # t" "takeWhile is_hexx (ds @ c # t) = ds"
    using assms(1,3) by (auto simp: dropWhile_append2 is_space_def dropWhile_eq_self_iff takeWhile_append list_all_iff)
  then show ?thesis using assms(1) by (simp add: search_rip.simps rip_at_def Let_def is_space_def)
qed

text \<open>
  C36. The debugger finds the faulting instruction. On a machine with a serial port, the crash report
  that \<open>trap\<close> prints for a user fault, of a process whose name has no capital R and no equals
  sign, is captured by the debugger between its two marker lines, and the pattern it searches for
  gives \<open>0x\<close> and sixteen hexadecimal digits whose value is the \<open>rip\<close> of the trap frame.
\<close>

theorem debugger_reads_rip:
  assumes "\<not> panicked s" and "uart s" and "82 \<notin> set (proc_name p)" and "61 \<notin> set (proc_name p)"
  shows "\<exists>t. crash_report cpunum cr2 p tf s = Ok () t \<and>
     (\<exists>report a. capture (drop (length (uart_out s)) (uart_out t)) = Some report \<and>
        rip_addr report = Some (cstr ''0x'' @ a) \<and> length a = 16 \<and> num_val 16 a = unat (tf_rip tf))"
proof -
  let ?rip = "print_x64 (tf_rip tf)"
  define body where "body = report_head p tf @ cstr ''RIP: '' @ ?rip @ report_regs tf"
  obtain t rest where t: "crash_report cpunum cr2 p tf s = Ok () t"
    "sent ([10] @ REPORT @ body @ END_REPORT @ rest) s t"
    using crash_report_sent [OF assms(1,2), of cpunum cr2 p tf] by (auto simp: body_def elim: wpE)
  have head: "82 \<notin> set (report_head p tf)" "61 \<notin> set (report_head p tf)"
    using assms(3,4) printed_chars by (simp_all add: report_head_def)
  have "61 \<notin> set body" using head(2) printed_chars by (simp add: body_def report_regs_def)
  then have "capture (drop (length (uart_out s)) (uart_out t)) = Some (REPORT @ body @ END_REPORT)"
    using t(2) expect_after [of body "cstr ''== END REPORT ===''" rest]
      expect_after [of "[10]" "cstr ''== XV6 USER CRASH REPORT ===''" "body @ END_REPORT @ rest"]
    by (simp add: sent_def capture_def REPORT_def END_REPORT_def)
  moreover have "search_rip (REPORT @ body @ END_REPORT) = Some ?rip"
  proof -
    have "search_rip (REPORT @ body @ END_REPORT) = search_rip (body @ END_REPORT)"
      by (simp add: REPORT_def search_rip.simps rip_at_def)
    also have "\<dots> = search_rip (cstr ''RIP: '' @ ?rip @ report_regs tf @ END_REPORT)"
      using search_skip [OF head(1)] by (simp add: body_def)
    also have "\<dots> = Some ?rip"
      using search_found [OF set_print_x64(2,1), of 32] by (simp add: report_regs_def is_hexx_def)
    finally show ?thesis .
  qed
  moreover have "\<not> starts (cstr ''0x'') ?rip"
  proof -
    have "120 \<notin> set ?rip" using set_print_x64(1) [of "tf_rip tf"] by (auto simp: digits_def)
    then show ?thesis by (cases ?rip; cases "tl ?rip") auto
  qed
  moreover have "num_val 16 ?rip = unat (tf_rip tf)" using num_val_hex [of 64 16 "tf_rip tf"] by (simp add: print_x64_def)
  ultimately show ?thesis using t(1) set_print_x64(3) by (auto simp: rip_addr_def)
qed

theorem debugger_reads_rip_witness:
  "\<exists>t. crash_report 0 0 ((ptable cons_boot 0)\<lparr>p_name := cstr ''null_deref'' @ [0]\<rparr>) (zero_tf\<lparr>tf_rip := 0x1A2B\<rparr>) cons_boot = Ok () t \<and>
     (\<exists>report a. capture (uart_out t) = Some report \<and> rip_addr report = Some (cstr ''0x'' @ a) \<and> num_val 16 a = 0x1A2B)"
proof -
  let ?p = "(ptable cons_boot 0)\<lparr>p_name := cstr ''null_deref'' @ [0]\<rparr>"
  have "\<not> panicked cons_boot" "uart cons_boot" "uart_out cons_boot = []"
    by (simp_all add: cons_boot_def file_st.defs cons_st.defs)
  moreover have "82 \<notin> set (proc_name ?p)" "61 \<notin> set (proc_name ?p)" by (simp_all add: proc_name_def)
  ultimately show ?thesis
    using debugger_reads_rip [of cons_boot ?p 0 0 "zero_tf\<lparr>tf_rip := 0x1A2B\<rparr>"] by auto
qed

end
