(* ===== verification/Machine.thy ===== *)
theory Machine
  imports Console
begin

section \<open>Processors and interrupt controllers (mp.c, mp.h, lapic.c, ioapic.c, uart.c, vm.c, mmu.h, main.c)\<close>

text \<open>
  The search for the firmware's multiprocessor tables reads memory; programming the interrupt
  controllers is a sequence of device writes, which is kept as a trace. What a device register
  reads as is an argument. The loops that wait for a device or for another processor are taken to end.
\<close>

unbundle bit_operations_syntax

datatype dev_op =
    LapicW nat u32
  | IoapicW nat u32
  | OutB u16 u8
  | WrMsr u32 u64
  | Lgdt addr_t nat
  | Ltr u16

record mach_st = cons_st +
  lapic :: addr_t
  cpu_apicid :: "nat \<Rightarrow> u8"
  ncpu :: nat
  ioapicid :: u8
  if_calls :: int
  cpu_local :: "nat \<Rightarrow> addr_t"
  dev_out :: "dev_op list"

definition emit :: "dev_op list \<Rightarrow> 'z mach_st_scheme \<Rightarrow> 'z mach_st_scheme" where
  "emit ws s = s\<lparr>dev_out := dev_out s @ ws\<rparr>"

subsection \<open>The multiprocessor tables (mp.c)\<close>

definition load16 :: "memory \<Rightarrow> addr_t \<Rightarrow> u16" where
  "load16 m a = dec16 [m a, m (a + 1)]"

definition load32 :: "memory \<Rightarrow> addr_t \<Rightarrow> u32" where
  "load32 m a = dec32 [m a, m (a + 1), m (a + 2), m (a + 3)]"

text \<open>The sum of \<open>n\<close> bytes, modulo 256 as it is returned.\<close>

fun sum :: "memory \<Rightarrow> addr_t \<Rightarrow> nat \<Rightarrow> u8" where
  "sum m a 0 = 0"
| "sum m a (Suc n) = m a + sum m (a + 1) n"

definition MP_SIZE :: nat where [simp]: "MP_SIZE = 16"
definition MPCONF_SIZE :: nat where [simp]: "MPCONF_SIZE = 44"

definition signed :: "memory \<Rightarrow> addr_t \<Rightarrow> string \<Rightarrow> bool" where
  "signed m a sg = (memcmp (\<lambda>i. m (a + of_nat i)) (reader_of (cstr sg)) 4 = 0)"

definition mpsearch1 :: "memory \<Rightarrow> addr_t \<Rightarrow> nat \<Rightarrow> addr_t option" where
  "mpsearch1 m a len =
     find (\<lambda>p. signed m p ''_MP_'' \<and> sum m p MP_SIZE = 0)
       (map (\<lambda>i. P2V a + of_nat (MP_SIZE * i)) [0..<(len + MP_SIZE - 1) div MP_SIZE])"

definition mpsearch :: "memory \<Rightarrow> addr_t option" where
  "mpsearch m =
     (let bda = P2V 0x400;
          p = push_bit 4 (push_bit 8 (ucast (m (bda + 0x0F))) OR ucast (m (bda + 0x0E))) :: u32;
          bios = mpsearch1 m 0xF0000 0x10000
      in if p \<noteq> 0
         then (case mpsearch1 m (ucast p) 1024 of Some mp \<Rightarrow> Some mp | None \<Rightarrow> bios)
         else let p = (push_bit 8 (ucast (m (bda + 0x14))) OR ucast (m (bda + 0x13))) * 1024 :: u32
              in case mpsearch1 m (ucast (p - 1024)) 1024 of Some mp \<Rightarrow> Some mp | None \<Rightarrow> bios)"

definition conf_length :: "memory \<Rightarrow> addr_t \<Rightarrow> nat" where
  "conf_length m conf = unat (load16 m (conf + 4))"

definition mpconfig :: "memory \<Rightarrow> (addr_t \<times> addr_t) option" where
  "mpconfig m =
     (case mpsearch m of
        None \<Rightarrow> None
      | Some mp \<Rightarrow>
          if load32 m (mp + 4) = 0 then None
          else let conf = P2V (ucast (load32 m (mp + 4)))
               in if \<not> signed m conf ''PCMP'' then None
                  else if m (conf + 6) \<noteq> 1 \<and> m (conf + 6) \<noteq> 4 then None
                  else if sum m conf (conf_length m conf) \<noteq> 0 then None
                  else Some (mp, conf))"

text \<open>The loop of \<open>mpinit\<close> over the table's entries, at offset \<open>off\<close> of \<open>len\<close>.\<close>

function mp_entries :: "addr_t \<Rightarrow> nat \<Rightarrow> nat \<Rightarrow> 'z mach_st_scheme \<Rightarrow> (unit, 'z mach_st_scheme) result" where
  "mp_entries conf len off s =
     (if off < len
      then let p = conf + of_nat off; ty = mem s p in
        if ty = 0
        then mp_entries conf len (off + 20)
               (if ncpu s < NCPU
                then s\<lparr>cpu_apicid := (cpu_apicid s)(ncpu s := mem s (p + 1)), ncpu := ncpu s + 1\<rparr>
                else s)
        else if ty = 2 then mp_entries conf len (off + 8) (s\<lparr>ioapicid := mem s (p + 1)\<rparr>)
        else if ty = 1 \<or> ty = 3 \<or> ty = 4 then mp_entries conf len (off + 8) s
        else Panic ''Major problem parsing mp config.''
      else Ok () s)"
  by pat_completeness auto
termination by (relation "measure (\<lambda>(conf, len, off, s). len - off)") auto

declare mp_entries.simps [simp del]

text \<open>\<open>mpinit\<close>, with what port 0x23 reads as.\<close>

definition mpinit :: "u8 \<Rightarrow> 'z mach_st_scheme \<Rightarrow> (unit, 'z mach_st_scheme) result" where
  "mpinit in23 s =
     (case mpconfig (mem s) of
        None \<Rightarrow> cprintf (cstr ''No other CPUs found.'' @ [10]) [] s
      | Some (mp, conf) \<Rightarrow>
          bindR (mp_entries conf (conf_length (mem s) conf) MPCONF_SIZE
                  (s\<lparr>lapic := P2V (ucast (load32 (mem s) (conf + 36)))\<rparr>)) (\<lambda>_ s.
          bindR (cprintf (cstr ''Seems we are SMP, ncpu = %d'' @ [10]) [CWord (of_nat (ncpu s))] s) (\<lambda>_ s.
          Ok () (if mem s (mp + 12) \<noteq> 0 then emit [OutB 0x22 0x70, OutB 0x23 (in23 OR 1)] s else s))))"

subsection \<open>The local interrupt controller (lapic.c)\<close>

text \<open>The register indices of lapic.c.\<close>

definition lapicw :: "nat \<Rightarrow> u32 \<Rightarrow> 'z mach_st_scheme \<Rightarrow> 'z mach_st_scheme" where
  "lapicw index v s = emit [LapicW index v] s"

definition lapicinit :: "u32 \<Rightarrow> 'z mach_st_scheme \<Rightarrow> 'z mach_st_scheme" where
  "lapicinit ver s =
     (if lapic s = 0 then s
      else let s = lapicw (0xF0 div 4) (0x100 OR (32 + 31)) s;
               s = lapicw (0x3E0 div 4) 0xB s;
               s = lapicw (0x320 div 4) (0x20000 OR (32 + 0)) s;
               s = lapicw (0x380 div 4) 10000000 s;
               s = lapicw (0x350 div 4) 0x10000 s;
               s = lapicw (0x360 div 4) 0x10000 s;
               s = (if drop_bit 16 ver AND 0xFF \<ge> 4 then lapicw (0x340 div 4) 0x10000 s else s);
               s = lapicw (0x370 div 4) (32 + 19) s;
               s = lapicw (0x280 div 4) 0 s;
               s = lapicw (0x280 div 4) 0 s;
               s = lapicw (0xB0 div 4) 0 s;
               s = lapicw (0x310 div 4) 0 s;
               s = lapicw (0x300 div 4) (0x80000 OR 0x500 OR 0x8000) s
           in lapicw (0x80 div 4) 0 s)"

text \<open>
  \<open>cpunum\<close>, with the interrupt flag, the return address it may report and the controller's ID
  register.
\<close>

definition cpunum :: "bool \<Rightarrow> u64 \<Rightarrow> u32 \<Rightarrow> 'z mach_st_scheme \<Rightarrow> (nat, 'z mach_st_scheme) result" where
  "cpunum fl_if ret idreg s =
     bindR (if fl_if
            then let s' = s\<lparr>if_calls := if_calls s + 1\<rparr>
                 in if if_calls s = 0
                    then cprintf (cstr ''cpu called from %x with interrupts enabled'' @ [10]) [CWord ret] s'
                    else Ok () s'
            else Ok () s) (\<lambda>_ s.
       if lapic s = 0 then Ok 0 s
       else case first_slot (ncpu s) (\<lambda>i. ucast (cpu_apicid s i) = drop_bit 24 idreg) of
              Some i \<Rightarrow> Ok i s
            | None \<Rightarrow> Panic (''unknown apicid'' @ [CHR 0x0A]))"

definition lapiceoi :: "'z mach_st_scheme \<Rightarrow> 'z mach_st_scheme" where
  "lapiceoi s = (if lapic s \<noteq> 0 then lapicw (0xB0 div 4) 0 s else s)"

definition store16 :: "addr_t \<Rightarrow> u16 \<Rightarrow> memory \<Rightarrow> memory" where
  "store16 a v m = m(a := ucast v, a + 1 := ucast (drop_bit 8 v))"

definition lapicstartap :: "u8 \<Rightarrow> u32 \<Rightarrow> 'z mach_st_scheme \<Rightarrow> 'z mach_st_scheme" where
  "lapicstartap apicid addr s =
     (let s = emit [OutB 0x70 0xF, OutB 0x71 0x0A] s;
          wrv = P2V (0x400 OR 0x67);
          s = s\<lparr>mem := store16 (wrv + 2) (ucast (drop_bit 4 addr)) (store16 wrv 0 (mem s))\<rparr>;
          hi = push_bit 24 (ucast apicid);
          s = lapicw (0x310 div 4) hi s;
          s = lapicw (0x300 div 4) (0x500 OR 0x8000 OR 0x4000) s;
          s = lapicw (0x300 div 4) (0x500 OR 0x8000) s;
          s = lapicw (0x300 div 4) (0x600 OR drop_bit 12 addr) (lapicw (0x310 div 4) hi s)
      in lapicw (0x300 div 4) (0x600 OR drop_bit 12 addr) (lapicw (0x310 div 4) hi s))"

subsection \<open>The clock (lapic.c)\<close>

record rtcdate =
  second :: u32
  minute :: u32
  hour :: u32
  day :: u32
  month :: u32
  year :: u32

text \<open>The registers of the clock at successive reads: \<open>cmos n reg\<close> is what read number \<open>n\<close> gives.\<close>

definition fill_rtcdate :: "(nat \<Rightarrow> nat \<Rightarrow> u32) \<Rightarrow> nat \<Rightarrow> rtcdate" where
  "fill_rtcdate cmos n =
     \<lparr>second = cmos n 0, minute = cmos (n + 1) 2, hour = cmos (n + 2) 4, day = cmos (n + 3) 7,
      month = cmos (n + 4) 8, year = cmos (n + 5) 9\<rparr>"

partial_function (option) cmos_stable :: "(nat \<Rightarrow> nat \<Rightarrow> u32) \<Rightarrow> nat \<Rightarrow> rtcdate option" where
  "cmos_stable cmos n =
     (let t1 = fill_rtcdate cmos n
      in if cmos (n + 6) 0xA AND 0x80 \<noteq> 0 then cmos_stable cmos (n + 7)
         else if fill_rtcdate cmos (n + 7) = t1 then Some t1
         else cmos_stable cmos (n + 13))"

definition CONV :: "u32 \<Rightarrow> u32" where
  "CONV x = drop_bit 4 x * 10 + (x AND 0xF)"

definition cmostime :: "(nat \<Rightarrow> nat \<Rightarrow> u32) \<Rightarrow> rtcdate option" where
  "cmostime cmos =
     (let bcd = (cmos 0 0xB AND 4 = 0)
      in map_option (\<lambda>t.
           let t = (if bcd then \<lparr>second = CONV (second t), minute = CONV (minute t), hour = CONV (hour t),
                       day = CONV (day t), month = CONV (month t), year = CONV (year t)\<rparr> else t)
           in t\<lparr>year := year t + 2000\<rparr>) (cmos_stable cmos 1))"

subsection \<open>The I/O interrupt controller (ioapic.c) and the serial port (uart.c)\<close>

definition ioapicwrite :: "nat \<Rightarrow> u32 \<Rightarrow> 'z mach_st_scheme \<Rightarrow> 'z mach_st_scheme" where
  "ioapicwrite reg d s = emit [IoapicW reg d] s"

text \<open>\<open>ioapicinit\<close>, with what the version and the ID registers read as.\<close>

definition ioapicinit :: "u32 \<Rightarrow> u32 \<Rightarrow> 'z mach_st_scheme \<Rightarrow> (unit, 'z mach_st_scheme) result" where
  "ioapicinit ver idreg s =
     (let maxintr = unat (drop_bit 16 ver AND 0xFF) in
      bindR (if drop_bit 24 idreg \<noteq> ucast (ioapicid s)
             then cprintf (cstr ''ioapicinit: id isn'' @ [39] @ cstr ''t equal to ioapicid; not a MP'' @ [10]) [] s
             else Ok () s) (\<lambda>_ s.
      Ok () (fold (\<lambda>i s. ioapicwrite (0x10 + 2 * i + 1) 0 (ioapicwrite (0x10 + 2 * i) (0x10000 OR (32 + of_nat i)) s))
               [0..<maxintr + 1] s)))"

definition ioapicenable :: "nat \<Rightarrow> u32 \<Rightarrow> 'z mach_st_scheme \<Rightarrow> 'z mach_st_scheme" where
  "ioapicenable irq cpu s =
     ioapicwrite (0x10 + 2 * irq + 1) (push_bit 24 cpu) (ioapicwrite (0x10 + 2 * irq) (32 + of_nat irq) s)"

definition COM1 :: u16 where [simp]: "COM1 = 0x3F8"

definition uartearlyinit :: "u8 \<Rightarrow> 'z mach_st_scheme \<Rightarrow> 'z mach_st_scheme" where
  "uartearlyinit status s =
     (let s = emit [OutB (COM1 + 2) 0, OutB (COM1 + 3) 0x80, OutB COM1 12, OutB (COM1 + 1) 0,
                OutB (COM1 + 3) 0x03, OutB (COM1 + 4) 0, OutB (COM1 + 1) 0x01] s
      in if status = 0xFF then s
         else fold (\<lambda>c s. uartputc (uint c) s) (cstr ''xv6...'' @ [10]) (s\<lparr>uart := True\<rparr>))"

definition uartinit :: "'z mach_st_scheme \<Rightarrow> 'z mach_st_scheme" where
  "uartinit s = (if \<not> uart s then s else ioapicenable 4 0 s)"

definition uartgetc :: "u8 \<Rightarrow> u8 \<Rightarrow> 'z cons_st_scheme \<Rightarrow> int" where
  "uartgetc status rbr s = (if \<not> uart s then -1 else if status AND 1 = 0 then -1 else uint rbr)"

subsection \<open>Segments (vm.c, mmu.h)\<close>

text \<open>The bit fields of \<open>struct segdesc\<close>, packed as the processor reads them.\<close>

definition SEG :: "u64 \<Rightarrow> u64 \<Rightarrow> u64 \<Rightarrow> u64 \<Rightarrow> u64 \<Rightarrow> u64 \<Rightarrow> u64" where
  "SEG ty lim base sg dpl rsv =
     (lim AND 0xFFFF) OR push_bit 16 (base AND 0xFFFF) OR push_bit 32 (drop_bit 16 base AND 0xFF) OR
     push_bit 40 (ty AND 0xF) OR push_bit 44 (sg AND 1) OR push_bit 45 (dpl AND 3) OR push_bit 47 1 OR
     push_bit 48 (drop_bit 60 lim AND 0xF) OR push_bit 53 (rsv AND 1) OR push_bit 55 1 OR
     push_bit 56 (drop_bit 24 base AND 0xFF)"

definition store32 :: "addr_t \<Rightarrow> u32 \<Rightarrow> memory \<Rightarrow> memory" where
  "store32 a v m = m(a := ucast v, a + 1 := ucast (drop_bit 8 v), a + 2 := ucast (drop_bit 16 v), a + 3 := ucast (drop_bit 24 v))"

text \<open>The descriptors \<open>seginit\<close> writes, for a task state segment at \<open>addr\<close>.\<close>

definition gdt_entries :: "u64 \<Rightarrow> u64 list" where
  "gdt_entries addr =
     [0, SEG (8 OR 2) 0 0 1 0 1, SEG 2 0 0 1 0 0, 0, SEG 2 0 0 1 3 0, SEG (8 OR 2) 0 0 1 3 1, 0,
      SEG 9 0xB addr 0 3 0, SEG 0 (drop_bit 32 addr) (drop_bit 48 addr) 0 0 0]"

definition seginit :: "nat \<Rightarrow> 'z mach_st_scheme \<Rightarrow> (unit, 'z mach_st_scheme) result" where
  "seginit c s =
     bindR (kalloc s) (\<lambda>loc s.
       let tss = loc + 1024;
           m = store32 (tss + 64) 0x00680000 (memset (mem s) loc 0 PGSIZE);
           s = emit [WrMsr 0xC0000100 (loc + 2048)] (s\<lparr>mem := m\<rparr>);
           s = s\<lparr>cpu_local := (cpu_local s)(c := loc), curproc := None\<rparr>;
           m = fold (\<lambda>(i, d) m. store64 m (loc + of_nat (8 * i)) d) (enumerate 0 (gdt_entries tss)) (mem s)
       in Ok () (emit [Lgdt loc (9 * 8), Ltr (7 * 8)] (s\<lparr>mem := m\<rparr>)))"

definition syscallinit :: "addr_t \<Rightarrow> addr_t \<Rightarrow> 'z mach_st_scheme \<Rightarrow> 'z mach_st_scheme" where
  "syscallinit syscall_entry ignore_sysret s =
     emit [WrMsr 0xC0000081 (push_bit 48 (push_bit 3 3 OR 3) OR push_bit 32 (push_bit 3 1)),
           WrMsr 0xC0000082 syscall_entry,
           WrMsr 0xC0000083 ignore_sysret,
           WrMsr 0xC0000084 (0x100 OR 0x400 OR 0x200 OR 0x3000 OR 0x40000 OR 0x4000)] s"

text \<open>
  The privilege levels of the descriptors: kernel code and data are level 0, user code and data
  level 3, and both code segments are 64-bit.
\<close>

lemma segment_levels:
  "map (\<lambda>i. drop_bit 45 (gdt_entries addr ! i) AND 3) [1, 2, 4, 5] = [0, 0, 3, 3]"
  "map (\<lambda>i. drop_bit 53 (gdt_entries addr ! i) AND 1) [1, 2, 4, 5] = [1, 0, 0, 1]"
  by (simp_all add: gdt_entries_def SEG_def)

subsection \<open>Starting the other processors (main.c)\<close>

text \<open>
  \<open>startothers\<close> on processor \<open>me\<close>, with the image of entryother.S at \<open>start\<close> and the physical address
  of \<open>entry32mp\<close>.
\<close>

definition startothers :: "nat \<Rightarrow> addr_t \<Rightarrow> u32 \<Rightarrow> u32 \<Rightarrow> 'z mach_st_scheme \<Rightarrow> (unit, 'z mach_st_scheme) result" where
  "startothers me start len entry32mp s =
     (let code = P2V 0x7000; s = s\<lparr>mem := memmove (mem s) code start len\<rparr> in
      for_each (\<lambda>c s.
        if c = me then Ok () s
        else bindR (kalloc s) (\<lambda>stack s.
          let m = store32 (code - 4) 0x8000 (mem s);
              m = store32 (code - 8) entry32mp m;
              m = store64 m (code - 16) (stack + 4096)
          in Ok () (lapicstartap (cpu_apicid s c) (ucast (V2P code)) (s\<lparr>mem := m\<rparr>)))) [0..<ncpu s] s)"

subsection \<open>Properties\<close>

text \<open>The table scan never records more processors than there are slots.\<close>

lemma mp_entries_bound:
  "ncpu s \<le> NCPU \<Longrightarrow> mp_entries conf len off s = Ok () t \<Longrightarrow>
   ncpu s \<le> ncpu t \<and> ncpu t \<le> NCPU \<and> (\<forall>i<ncpu s. cpu_apicid t i = cpu_apicid s i)"
proof (induction conf len off s rule: mp_entries.induct)
  case (1 conf len off s)
  note u = 1(5) [unfolded mp_entries.simps [of conf len off s] Let_def]
  show ?case
  proof (cases "off < len")
    case True
    let ?ty = "mem s (conf + of_nat off)"
    consider "?ty = 0" "ncpu s < NCPU" | "?ty = 0" "\<not> ncpu s < NCPU" | "?ty = 2" | "?ty = 1 \<or> ?ty = 3 \<or> ?ty = 4"
      using u True by (auto split: if_splits)
    then show ?thesis
    proof cases
      case 1
      with 1(1) u True "1.prems" show ?thesis using "1.IH"(1) [OF True refl refl 1(1)] by fastforce
    next
      case 2
      with u True "1.prems" show ?thesis using "1.IH"(1) [OF True refl refl 2(1)] by auto
    next
      case 3
      with u True "1.prems" show ?thesis using "1.IH"(2) [OF True refl refl] by auto
    next
      case 4
      with u True "1.prems" show ?thesis using "1.IH"(3) [OF True refl refl] by auto
    qed
  qed (use u 1(4) in auto)
qed

text \<open>\<open>cpunum\<close> answers with the first processor whose controller has the ID that was read.\<close>

lemma cpunum_slot:
  "lapic s \<noteq> 0 \<Longrightarrow> cpunum False ret idreg s = Ok i t \<Longrightarrow>
   t = s \<and> i < ncpu s \<and> ucast (cpu_apicid s i) = drop_bit 24 idreg"
  by (auto simp: cpunum_def first_slot_Some split: option.splits)

text \<open>A date that is returned has been read twice in a row without an update in progress.\<close>

lemma cmos_stable_twice:
  "cmos_stable cmos n = Some t \<Longrightarrow>
   \<exists>k. t = fill_rtcdate cmos k \<and> fill_rtcdate cmos (k + 7) = t \<and> cmos (k + 6) 0xA AND 0x80 = 0"
proof (induction rule: cmos_stable.raw_induct [rotated 1, consumes 1])
  case (1 f cmos n t)
  then show ?case by (auto simp: Let_def split: if_splits intro: exI [of _ n])
qed

text \<open>Two binary-coded decimal digits convert to the number they show.\<close>

lemma CONV_bcd: "a < 10 \<Longrightarrow> b < 10 \<Longrightarrow> CONV (of_nat (16 * a + b)) = of_nat (10 * a + b)"
proof -
  assume ab: "a < 10" "b < 10"
  then have "a \<in> set [0, 1, 2, 3, 4, 5, 6, 7, 8, 9]" "b \<in> set [0, 1, 2, 3, 4, 5, 6, 7, 8, 9]" by auto
  then show ?thesis by (auto simp: CONV_def)
qed

end
