(* ===== verification/Boot.thy ===== *)
theory Boot
  imports Strings
begin

section \<open>The boot loader (bootmain.c)\<close>

text \<open>
  The loader runs with 32-bit addresses on physical memory and reads sectors from the disk:
  \<open>disk n i\<close> is byte \<open>i\<close> of sector \<open>n\<close>. It either returns without a kernel, or jumps to the kernel's entry
  with the memory it has loaded. The copy loop compares 32-bit pointers and may run for ever on
  a range that wraps.
\<close>

type_synonym memory32 = "u32 \<Rightarrow> u8"
type_synonym sectors = "u32 \<Rightarrow> nat \<Rightarrow> u8"

definition SECTSIZE :: nat where [simp]: "SECTSIZE = 512"

definition readsect :: "sectors \<Rightarrow> u32 \<Rightarrow> u32 \<Rightarrow> memory32 \<Rightarrow> memory32" where
  "readsect disk dst n m = (\<lambda>a. if unat (a - dst) < SECTSIZE then disk n (unat (a - dst)) else m a)"

partial_function (option) readseg_loop :: "sectors \<Rightarrow> u32 \<Rightarrow> u32 \<Rightarrow> u32 \<Rightarrow> memory32 \<Rightarrow> memory32 option" where
  "readseg_loop disk pa epa n m =
     (if pa < epa then readseg_loop disk (pa + 512) epa (n + 1) (readsect disk pa n m) else Some m)"

definition readseg :: "sectors \<Rightarrow> u32 \<Rightarrow> u32 \<Rightarrow> u32 \<Rightarrow> memory32 \<Rightarrow> memory32 option" where
  "readseg disk pa count offset m =
     readseg_loop disk (pa - offset mod 512) (pa + count) (offset div 512 + 1) m"

definition word32 :: "memory32 \<Rightarrow> u32 \<Rightarrow> u32" where
  "word32 m a = dec32 [m a, m (a + 1), m (a + 2), m (a + 3)]"

record mbheader =
  mb_flags :: u32
  mb_header_addr :: u32
  mb_load_addr :: u32
  mb_load_end_addr :: u32
  mb_bss_end_addr :: u32
  mb_entry_addr :: u32

definition mb_at :: "memory32 \<Rightarrow> u32 \<Rightarrow> mbheader" where
  "mb_at m a =
     \<lparr>mb_flags = word32 m (a + 4), mb_header_addr = word32 m (a + 12), mb_load_addr = word32 m (a + 16),
      mb_load_end_addr = word32 m (a + 20), mb_bss_end_addr = word32 m (a + 24), mb_entry_addr = word32 m (a + 28)\<rparr>"

definition clear32 :: "u32 \<Rightarrow> u32 \<Rightarrow> memory32 \<Rightarrow> memory32" where
  "clear32 dst n m = (\<lambda>a. if a - dst < n then 0 else m a)"

text \<open>The header search, as \<open>found_it\<close> is reached: the index of the first word that fits.\<close>

definition find_header :: "memory32 \<Rightarrow> nat option" where
  "find_header m =
     find (\<lambda>n. let a = 0x10000 + of_nat (4 * n) in
             word32 m a = 0x1BADB002 \<and> word32 m a + word32 m (a + 4) + word32 m (a + 8) = 0) [0..<8192 div 4]"

text \<open>
  \<open>bootmain\<close>: None when a copy does not end, else the memory and, if there is a kernel, its entry.
  The header stays where it was found, so its fields are read again after the kernel is loaded and
  after its last part is cleared.
\<close>

definition bootmain :: "sectors \<Rightarrow> memory32 \<Rightarrow> (memory32 \<times> u32 option) option" where
  "bootmain disk m =
     Option.bind (readseg disk 0x10000 8192 0 m) (\<lambda>m.
       case find_header m of
         None \<Rightarrow> Some (m, None)
       | Some n \<Rightarrow>
           let x = 0x10000 + of_nat (4 * n); hdr = mb_at m x in
           if mb_flags hdr AND 0x10000 = 0 then Some (m, None)
           else if mb_load_addr hdr > mb_header_addr hdr then Some (m, None)
           else if mb_load_end_addr hdr < mb_load_addr hdr then Some (m, None)
           else Option.bind
             (readseg disk (mb_load_addr hdr) (mb_load_end_addr hdr - mb_load_addr hdr)
                (of_nat (n * 4) - (mb_header_addr hdr - mb_load_addr hdr)) m) (\<lambda>m.
               let hdr = mb_at m x;
                   m = (if mb_bss_end_addr hdr > mb_load_end_addr hdr
                        then clear32 (mb_load_end_addr hdr) (mb_bss_end_addr hdr - mb_load_end_addr hdr) m
                        else m)
               in Some (m, Some (mb_entry_addr (mb_at m x)))))"

subsection \<open>What a copy loads\<close>

lemma unat_lt_32: "unat (x :: u32) < 2 ^ 32"
  using unsigned_less [of x, where 'a = nat] by simp

text \<open>
  A copy of \<open>k\<close> sectors that does not reach the end of the address space ends, and every byte it
  covers is the disk's byte at the same distance.
\<close>

lemma readseg_loop_loads:
  assumes "unat epa \<le> unat pa + 512 * k" and "k = 0 \<or> unat pa + 512 * (k - 1) < unat epa"
    and "unat pa + 512 * k < 2 ^ 32"
  shows "\<exists>m'. readseg_loop disk pa epa n m = Some m' \<and>
     (\<forall>a. m' a = (if unat pa \<le> unat a \<and> unat a < unat pa + 512 * k
                  then disk (n + of_nat ((unat a - unat pa) div 512)) ((unat a - unat pa) mod 512) else m a))"
  using assms
proof (induction k arbitrary: pa n m)
  case 0
  then have "\<not> pa < epa" by (simp add: word_less_nat_alt)
  then show ?case by (subst readseg_loop.simps) auto
next
  case (Suc k)
  have lt: "pa < epa" using Suc.prems by (auto simp: word_less_nat_alt)
  have pa: "unat (pa + 512) = unat pa + 512"
    using Suc.prems(3) by (subst iffD1 [OF unat_add_lem]) simp_all
  let ?m = "readsect disk pa n m"
  have "\<exists>m'. readseg_loop disk (pa + 512) epa (n + 1) ?m = Some m' \<and>
     (\<forall>a. m' a = (if unat (pa + 512) \<le> unat a \<and> unat a < unat (pa + 512) + 512 * k
                  then disk (n + 1 + of_nat ((unat a - unat (pa + 512)) div 512)) ((unat a - unat (pa + 512)) mod 512) else ?m a))"
    using Suc.prems pa by (intro Suc.IH) (auto simp: Suc_le_eq)
  then obtain m' where m': "readseg_loop disk (pa + 512) epa (n + 1) ?m = Some m'"
    "\<forall>a. m' a = (if unat pa + 512 \<le> unat a \<and> unat a < unat pa + 512 + 512 * k
                  then disk (n + 1 + of_nat ((unat a - unat pa - 512) div 512)) ((unat a - unat pa - 512) mod 512) else ?m a)"
    unfolding pa by (auto simp: diff_diff_add)
  have "m' a = (if unat pa \<le> unat a \<and> unat a < unat pa + 512 * Suc k
      then disk (n + of_nat ((unat a - unat pa) div 512)) ((unat a - unat pa) mod 512) else m a)" for a
  proof (cases "unat pa + 512 \<le> unat a")
    case True
    then have d: "(unat a - unat pa) div 512 = Suc ((unat a - unat pa - 512) div 512)"
      "(unat a - unat pa) mod 512 = (unat a - unat pa - 512) mod 512"
      using le_div_geq [of 512 "unat a - unat pa"] le_mod_geq [of 512 "unat a - unat pa"] by auto
    have "unat (a - pa) = unat a - unat pa" using True by (intro unat_sub) (simp add: word_le_nat_alt)
    then have "\<not> unat (a - pa) < 512" using True by linarith
    then have "?m a = m a" by (simp add: readsect_def)
    then show ?thesis using True m'(2) d by (simp add: add.assoc)
  next
    case False
    show ?thesis
    proof (cases "unat pa \<le> unat a")
      case True
      then have "unat (a - pa) = unat a - unat pa" by (intro unat_sub) (simp add: word_le_nat_alt)
      moreover have "unat a - unat pa < 512" using True False by linarith
      ultimately show ?thesis using True False m'(2) by (simp add: readsect_def)
    next
      case less: False
      have "unat (a - pa) = 2 ^ 32 + unat a - unat pa"
        using less unat_lt_32 [of a] unat_lt_32 [of pa] by (subst unat_sub_if') (simp add: word_le_nat_alt)
      then have "\<not> unat (a - pa) < 512" using Suc.prems(3) by simp
      then show ?thesis using less False m'(2) by (simp add: readsect_def)
    qed
  qed
  with m'(1) lt show ?case by (subst readseg_loop.simps) auto
qed

end
