(* ===== verification/Spec2Isabelle.thy ===== *)
theory Spec2Isabelle
  imports Calls Names Spinlock Ide Shell Grep Umalloc Tools Mkfs Debugger Machine Boot
begin

text \<open>
  A verification development for the xv6 operating system for x86-64 and its crash debugger.

  \<^bold>\<open>The program.\<close> The boot loader (bootmain.c) reads the kernel from disk. The kernel
  allocates physical pages (kalloc.c), builds page tables (vm.c), schedules processes (proc.c)
  under spin locks and sleep locks (spinlock.c, sleeplock.c), and answers traps and system calls
  (trap.c, syscall.c, sysproc.c, sysfile.c, exec.c). Its file system is a stack of layers: disk
  (memide.c, ide.c), buffer cache (bio.c), write-ahead log (log.c), inodes, directories and path
  names (fs.c), open files and pipes (file.c, pipe.c). The console (console.c, kbd.c, uart.c) is
  one more file. User programs (sh.c, grep.c, the small tools) reach all of this through system
  calls and the user library (ulib.c, printf.c, umalloc.c). mkfs.c builds the disk image on the
  host, and debugger.py reads the crash report that trap.c prints on the serial port.

  \<^bold>\<open>Kernel code.\<close> A routine is a function from its arguments and the state to an
  outcome (theory Prelude, type \<open>result\<close>): it returns (\<open>Ok\<close>), panics, sleeps on a channel, ends
  its process, or is \<open>Stuck\<close>. \<open>Stuck\<close> stands for a loop that does not end or for an access C leaves
  undefined; \<open>wp\<close> is total correctness and excludes it. States are records, each extending the one
  below in the order of the layers: \<open>kmem_st\<close>, \<open>vm_st\<close>, \<open>sched_st\<close>, \<open>bio_st\<close>, \<open>log_st\<close>, \<open>fs_st\<close>,
  \<open>file_st\<close>, \<open>cons_st\<close>, \<open>kern_st\<close>; \<open>mach_st\<close> extends \<open>cons_st\<close> for the start of the machine. Memory is
  a function from 64-bit addresses to bytes. Integers have their C width wherever they can wrap.
  Except in Spinlock, a critical section is one step and a routine runs until it gives up the CPU.

  \<^bold>\<open>Theories and sources.\<close>
  \<^item> Prelude, Params: outcomes, \<open>wp\<close>, framing, little-endian layouts; param.h, fs.h, mmu.h, memlayout.h.
  \<^item> Strings: string.c and the user library's \<open>memmove\<close>.
  \<^item> Kalloc: kalloc.c, with the locale \<open>page_allocator\<close>.
  \<^item> Vm, Paging: vm.c, and what its routines leave alone.
  \<^item> Sched, Sleeplock: the process table, \<open>sleep\<close>, \<open>wakeup\<close>, \<open>scheduler\<close> of proc.c; sleeplock.c.
  \<^item> Spinlock: spinlock.c on several CPUs, with \<open>acquire\<close> and \<open>release\<close> as interleaved steps.
  \<^item> Bio, Ide: bio.c and memide.c, with the locale \<open>block_cache\<close>; ide.c.
  \<^item> Log: log.c, crashes between disk writes, and the reservation of log space.
  \<^item> Fs, Dir, Txn, Inodes, Content, Names: fs.c. Fs and Dir hold the definitions. Txn is the view of
    the disk inside a transaction. Inodes, Content and Names hold the properties of inodes, of file
    contents, and of directories and paths.
  \<^item> Ring, File: file.c and pipe.c, over the locale \<open>byte_queue\<close>.
  \<^item> Syscall, Exec, Proc, Sysfile: arguments of system calls (syscall.c), exec.c, the process
    operations of proc.c, sysfile.c.
  \<^item> Lifecycle: properties of \<open>fork\<close>, \<open>exit\<close>, \<open>wait\<close>, \<open>kill\<close>.
  \<^item> Console, Kbd, Terminal: console.c, uart.c, kbd.c, and the properties of the console.
  \<^item> Trap, Calls: trap.c, sysproc.c and the table of syscall.c; the properties of system calls.
  \<^item> Machine, Boot: mp.c, lapic.c, ioapic.c, the set-up parts of uart.c and vm.c, \<open>startothers\<close> of
    main.c; bootmain.c.
  \<^item> Ulib, Shell, Grep, Umalloc, Tools: ulib.c and printf.c; sh.c; grep.c; umalloc.c; cat, echo, wc,
    ls, ln, rm, mkdir, kill, init, zombie, forktest and stressfs.
  \<^item> Mkfs: mkfs.c. Debugger: the computing parts of debugger.py.

  \<^bold>\<open>User programs.\<close> A program is the tree of its system calls (type \<open>uprog\<close> of Ulib):
  a call, and how it continues for each reply of the kernel. Its theorems hold for every kernel, or
  for the stated replies.

  \<^bold>\<open>What is shown.\<close>
  \<^item> Log: a crash after any prefix of a commit's writes, followed by recovery, leaves all or none of
    the transaction; the admission test keeps the in-memory log within its bound along every
    interleaving; a disk log of exactly \<open>LOGSIZE\<close> blocks can nevertheless be one block short.
  \<^item> Cache: \<open>bget\<close> is least-recently-used replacement, \<open>bread\<close> returns current content.
  \<^item> Files: \<open>readi\<close> and \<open>writei\<close> act on an array of bytes; a linked name is found again; \<open>namex\<close>
    walks the elements of a path; an inode survives eviction; \<open>balloc\<close> takes the lowest free block.
  \<^item> Memory: pages from \<open>kalloc\<close> are distinct and usable; \<open>memmove\<close> is right on overlapping ranges;
    the user allocator hands out fresh blocks and takes exactly them back.
  \<^item> Concurrency: spin locks exclude each other; pipes are queues that wake their writers; the disk
    driver serves requests in order.
  \<^item> Processes: identifiers stay unique, \<open>fork\<close> copies, \<open>exit\<close> wakes the waiting parent; \<open>kill(0)\<close>
    marks a free slot.
  \<^item> Console: input refines a line editor, output stays on the screen, printed numbers read back.
  \<^item> System calls: a fetched string lies in user memory; \<open>argptr\<close> ignores the upper half of a
    pointer; a faulting process ends, and the debugger finds its \<open>rip\<close> in the report.
  \<^item> Programs: the shell's parser returns on every line with well-formed commands, a pipe gives each
    side its descriptors, and grep's matcher decides the language of its pattern.

  \<^bold>\<open>Bounds and fuel.\<close> \<open>freerange\<close> has one unit per page of its range, plus one. The walks of
  \<open>bget\<close> and the queue walk of \<open>iderw\<close> have one more unit than there are buffers; the properties of
  \<open>bget\<close> and of the disk queue show that this is always enough. The shell's parser has four units
  per byte of the line, plus four, and its termination property shows that this is enough. Loops of
  user programs that depend on the kernel's replies have a number of rounds as a parameter; running
  out is the leaf \<open>Undef\<close>. The loops of \<open>strlen\<close>, \<open>malloc\<close>, \<open>free\<close>, \<open>readseg\<close> and \<open>cmostime\<close> are
  partial functions whose value None is not returning; those of \<open>malloc\<close> and \<open>free\<close> are shown to
  return on a well-formed heap. Loops that wait for a device take its answers as an argument, or
  (Machine) are taken to end.

  \<^bold>\<open>Not modelled.\<close> The assembly files (bootasm.S, entry.S, entryother.S, initcode.S, swtch.S,
  trapasm.S, usys.S) and the vectors generated by vectors.pl: their effect on registers is built
  into the routines around them. \<open>main\<close>, \<open>mpenter\<close> and \<open>mpmain\<close> of main.c, which call the
  initialisers in order and enter the scheduler. usertests.c and the programs that only fault
  (null_deref.c and the like), which test the system and add nothing to it. The parts of debugger.py
  that drive gdb and qemu and ask the user, and the build scripts. Weak memory ordering and
  the interleaving of kernel routines on several CPUs, apart from the locks and the log.
\<close>

end
